(* ===== verification/Prelude.thy ===== *)
theory Prelude
  imports Main "HOL-Library.AList" "HOL-Library.Multiset"
begin

text \<open>
  Shared ground of the development: Go's integers with their wrap-around, Go's maps from
  strings to strings, the string formatting the code uses, and the monad in which the
  operator's functions are written (a state that survives an error, and an error value),
  with its Hoare rules. Nothing here is about node maintenance.

  Collections: \<open>go_run\<close> (equations that run a computation), \<open>go_hoare\<close> (introduction rules
  for the triples), \<open>gomap_simps\<close> (reading a map after a write).
\<close>

named_theorems go_run
named_theorems go_hoare
named_theorems gomap_simps

section \<open>Definitions\<close>

subsection \<open>Fixed-width integers\<close>

text \<open>Go's signed integers wrap around; its division truncates towards zero.\<close>

definition i32 :: "int \<Rightarrow> int" where
  "i32 x = (x + 2147483648) mod 4294967296 - 2147483648"

definition i64 :: "int \<Rightarrow> int" where
  "i64 x = (x + 9223372036854775808) mod 18446744073709551616 - 9223372036854775808"

definition maxInt32 :: int where "maxInt32 = 2147483647"
definition maxInt64 :: int where "maxInt64 = 9223372036854775807"
definition minInt64 :: int where "minInt64 = - 9223372036854775808"

definition go_div :: "int \<Rightarrow> int \<Rightarrow> int" where
  "go_div a b = sgn a * sgn b * (\<bar>a\<bar> div \<bar>b\<bar>)"

text \<open>\<open>int32(len(xs))\<close>\<close>

definition len32 :: "'a list \<Rightarrow> int" where
  "len32 xs = i32 (int (length xs))"

subsection \<open>Time\<close>

text \<open>
  A point in time is a number of nanoseconds (Go's \<open>time.Time\<close> covers far more than 64 bits
  of nanoseconds); a \<open>time.Duration\<close> is an \<open>int64\<close> number of nanoseconds. \<open>Time.Sub\<close>
  saturates, arithmetic on durations wraps.
\<close>

type_synonym time = int
type_synonym duration = int

definition time_sub :: "time \<Rightarrow> time \<Rightarrow> duration" where
  "time_sub a b = max minInt64 (min maxInt64 (a - b))"

definition millisecond :: duration where "millisecond = 1000000"
definition second :: duration where "second = 1000000000"
definition minute :: duration where "minute = 60000000000"

subsection \<open>Maps from strings to strings\<close>

text \<open>
  A Go \<open>map[string]string\<close> is nil (\<open>None\<close>) or a finite map, held as an association list.
  Reading a missing key (or the nil map) gives the empty string; deleting from the nil map
  does nothing. The code makes the map before it assigns, which is \<open>mmake\<close>.
\<close>

type_synonym gomap = "(string \<times> string) list option"

definition mget :: "gomap \<Rightarrow> string \<Rightarrow> string" where
  "mget m k = (case m of None \<Rightarrow> '''' | Some al \<Rightarrow> (case map_of al k of None \<Rightarrow> '''' | Some v \<Rightarrow> v))"

definition mhas :: "gomap \<Rightarrow> string \<Rightarrow> bool" where
  "mhas m k = (case m of None \<Rightarrow> False | Some al \<Rightarrow> map_of al k \<noteq> None)"

definition mmake :: "gomap \<Rightarrow> gomap" where
  "mmake m = (case m of None \<Rightarrow> Some [] | Some al \<Rightarrow> Some al)"

definition mput :: "string \<Rightarrow> string \<Rightarrow> gomap \<Rightarrow> gomap" where
  "mput k v m = map_option (AList.update k v) m"

definition mdelete :: "string \<Rightarrow> gomap \<Rightarrow> gomap" where
  "mdelete k m = map_option (AList.delete k) m"

text \<open>\<open>reflect.DeepEqual\<close> on two such maps: nil differs from empty, order does not matter.\<close>

definition mequal :: "gomap \<Rightarrow> gomap \<Rightarrow> bool" where
  "mequal a b = (case (a, b) of
       (None, None) \<Rightarrow> True
     | (Some x, Some y) \<Rightarrow> list_all (\<lambda>k. map_of x k = map_of y k) (map fst x @ map fst y)
     | _ \<Rightarrow> False)"

subsection \<open>Strings\<close>

fun show_nat :: "nat \<Rightarrow> string" where
  "show_nat n = (if n < 10 then [char_of (48 + n)] else show_nat (n div 10) @ [char_of (48 + n mod 10)])"

declare show_nat.simps [simp del]

definition show_int :: "int \<Rightarrow> string" where
  "show_int i = (if i < 0 then CHR ''-'' # show_nat (nat (- i)) else show_nat (nat i))"

fun join :: "string \<Rightarrow> string list \<Rightarrow> string" where
  "join sep [] = ''''"
| "join sep [x] = x"
| "join sep (x # y # zs) = x @ sep @ join sep (y # zs)"

text \<open>
  \<open>%q\<close> (\<open>strconv.Quote\<close>): the quotes, and the escapes of the quote, the backslash and the
  control characters; Kubernetes names hold none of these.
\<close>

definition hex_digit :: "nat \<Rightarrow> char" where
  "hex_digit n = (if n < 10 then char_of (48 + n) else char_of (87 + n))"

definition quote_char :: "char \<Rightarrow> string" where
  "quote_char c =
     (let n = of_char c :: nat in
      if n = 34 then [CHR 0x5C, CHR 0x22] else if n = 92 then [CHR 0x5C, CHR 0x5C]
      else if n = 7 then [CHR 0x5C, CHR ''a''] else if n = 8 then [CHR 0x5C, CHR ''b'']
      else if n = 12 then [CHR 0x5C, CHR ''f''] else if n = 10 then [CHR 0x5C, CHR ''n'']
      else if n = 13 then [CHR 0x5C, CHR ''r''] else if n = 9 then [CHR 0x5C, CHR ''t'']
      else if n = 11 then [CHR 0x5C, CHR ''v'']
      else if n < 32 \<or> n = 127 then [CHR 0x5C, CHR ''x'', hex_digit (n div 16), hex_digit (n mod 16)]
      else [c])"

definition go_quote :: "string \<Rightarrow> string" where
  "go_quote s = [CHR 0x22] @ concat (map quote_char s) @ [CHR 0x22]"

subsection \<open>Computations\<close>

text \<open>
  A function that may fail and that changes the state: it returns an error (\<open>Inl\<close>) or a value
  (\<open>Inr\<close>), and the state, which keeps everything done before an error.
\<close>

type_synonym ('s, 'e, 'a) go = "'s \<Rightarrow> ('e + 'a) \<times> 's"

definition go_ret :: "'a \<Rightarrow> ('s, 'e, 'a) go" where
  "go_ret x s = (Inr x, s)"

definition go_raise :: "'e \<Rightarrow> ('s, 'e, 'a) go" where
  "go_raise e s = (Inl e, s)"

definition go_bind :: "('s, 'e, 'a) go \<Rightarrow> ('a \<Rightarrow> ('s, 'e, 'b) go) \<Rightarrow> ('s, 'e, 'b) go" where
  "go_bind m f s = (case m s of (r, t) \<Rightarrow> (case r of Inl e \<Rightarrow> (Inl e, t) | Inr x \<Rightarrow> f x t))"

definition go_then :: "('s, 'e, 'a) go \<Rightarrow> ('s, 'e, 'b) go \<Rightarrow> ('s, 'e, 'b) go" where
  "go_then m n = go_bind m (\<lambda>_. n)"

text \<open>\<open>if err := m; err != nil { \<dots> }\<close>: the error becomes a value the caller can look at.\<close>

definition go_try :: "('s, 'e, 'a) go \<Rightarrow> ('s, 'e, 'e + 'a) go" where
  "go_try m s = (case m s of (r, t) \<Rightarrow> (Inr r, t))"

text \<open>\<open>if err != nil { return f(err) }\<close>\<close>

definition go_map_err :: "('e \<Rightarrow> 'e) \<Rightarrow> ('s, 'e, 'a) go \<Rightarrow> ('s, 'e, 'a) go" where
  "go_map_err f m s = (case m s of (r, t) \<Rightarrow> ((case r of Inl e \<Rightarrow> Inl (f e) | Inr x \<Rightarrow> Inr x), t))"

definition go_get :: "('s \<Rightarrow> 'a) \<Rightarrow> ('s, 'e, 'a) go" where
  "go_get f s = (Inr (f s), s)"

definition go_modify :: "('s \<Rightarrow> 's) \<Rightarrow> ('s, 'e, unit) go" where
  "go_modify f s = (Inr (), f s)"

definition go_when :: "bool \<Rightarrow> ('s, 'e, unit) go \<Rightarrow> ('s, 'e, unit) go" where
  "go_when b m = (if b then m else go_ret ())"

text \<open>\<open>for _, x := range xs { \<dots> }\<close> with a body that may return an error.\<close>

fun go_for :: "'a list \<Rightarrow> ('a \<Rightarrow> ('s, 'e, unit) go) \<Rightarrow> ('s, 'e, unit) go" where
  "go_for [] f = go_ret ()"
| "go_for (x # xs) f = go_then (f x) (go_for xs f)"

text \<open>The same loop with local variables, an accumulator the body replaces.\<close>

fun go_fold :: "'a list \<Rightarrow> 'b \<Rightarrow> ('a \<Rightarrow> 'b \<Rightarrow> ('s, 'e, 'b) go) \<Rightarrow> ('s, 'e, 'b) go" where
  "go_fold [] acc f = go_ret acc"
| "go_fold (x # xs) acc f = go_bind (f x acc) (\<lambda>acc'. go_fold xs acc' f)"

text \<open>
  \<open>triple P m Q X\<close>: from a state with \<open>P\<close>, a normal return satisfies \<open>Q\<close> (of the value and
  the state) and an error return leaves a state with \<open>X\<close>. Every computation here returns,
  so this is total correctness.
\<close>

definition triple :: "('s \<Rightarrow> bool) \<Rightarrow> ('s, 'e, 'a) go \<Rightarrow> ('a \<Rightarrow> 's \<Rightarrow> bool) \<Rightarrow> ('s \<Rightarrow> bool) \<Rightarrow> bool" where
  "triple P m Q X = (\<forall>s. P s \<longrightarrow> (case m s of (Inl e, t) \<Rightarrow> X t | (Inr x, t) \<Rightarrow> Q x t))"

text \<open>\<open>obeys R m\<close>: whatever happens, the run of \<open>m\<close> takes a state to one related by \<open>R\<close>.\<close>

definition obeys :: "('s \<Rightarrow> 's \<Rightarrow> bool) \<Rightarrow> ('s, 'e, 'a) go \<Rightarrow> bool" where
  "obeys R m \<longleftrightarrow> (\<forall>s. R s (snd (m s)))"

section \<open>Integers and time\<close>

lemma i32_id [simp]: "- 2147483648 \<le> x \<Longrightarrow> x \<le> 2147483647 \<Longrightarrow> i32 x = x"
  by (simp add: i32_def)

lemma i64_id: "- 9223372036854775808 \<le> x \<Longrightarrow> x \<le> 9223372036854775807 \<Longrightarrow> i64 x = x"
  by (simp add: i64_def)

lemma i32_bounds: "- 2147483648 \<le> i32 x" "i32 x \<le> maxInt32"
  by (simp_all add: i32_def maxInt32_def)

lemma go_div_nonneg: "0 \<le> a \<Longrightarrow> 0 < b \<Longrightarrow> go_div a b = a div b"
  by (cases "a = 0") (simp_all add: go_div_def)

lemma len32_small: "length xs \<le> 2147483647 \<Longrightarrow> len32 xs = int (length xs)"
  by (simp add: len32_def)

lemma len32_Nil [simp]: "len32 [] = 0"
  by (simp add: len32_def)

section \<open>Maps\<close>

lemma mget_None [simp]: "mget None k = ''''"
  by (simp add: mget_def)

lemma mget_mput [gomap_simps]: "m \<noteq> None \<Longrightarrow> mget (mput k v m) k' = (if k = k' then v else mget m k')"
  by (auto simp: mget_def mput_def update_conv split: option.splits)

lemma mget_mdelete [gomap_simps]: "mget (mdelete k m) k' = (if k = k' then '''' else mget m k')"
  by (cases m) (auto simp: mget_def mdelete_def delete_conv)

lemma mhas_mput [gomap_simps]: "m \<noteq> None \<Longrightarrow> mhas (mput k v m) k' = (k = k' \<or> mhas m k')"
  by (auto simp: mhas_def mput_def update_conv split: option.splits)

lemma mhas_mdelete [gomap_simps]: "mhas (mdelete k m) k' = (k \<noteq> k' \<and> mhas m k')"
  by (cases m) (auto simp: mhas_def mdelete_def delete_conv)

lemma mget_mmake [gomap_simps]: "mget (mmake m) k = mget m k"
  by (simp add: mget_def mmake_def split: option.splits)

lemma mhas_mmake [gomap_simps]: "mhas (mmake m) k = mhas m k"
  by (simp add: mhas_def mmake_def split: option.splits)

lemma mmake_neq [gomap_simps]: "mmake m \<noteq> None"
  by (simp add: mmake_def split: option.splits)

lemma mput_neq [gomap_simps]: "(mput k v m = None) = (m = None)"
  by (simp add: mput_def)

lemma mdelete_neq [gomap_simps]: "(mdelete k m = None) = (m = None)"
  by (simp add: mdelete_def)

lemma mget_not_mhas: "\<not> mhas m k \<Longrightarrow> mget m k = ''''"
  by (simp add: mget_def mhas_def split: option.splits)

lemma mequal_iff:
  "mequal a b \<longleftrightarrow> ((a = None) = (b = None)) \<and> (\<forall>k. mget a k = mget b k \<and> mhas a k = mhas b k)"
proof (cases a; cases b)
  fix x y assume ab: "a = Some x" "b = Some y"
  have "(\<forall>k. map_of x k = map_of y k) \<longleftrightarrow> (\<forall>k. mget a k = mget b k \<and> mhas a k = mhas b k)"
    unfolding ab mget_def mhas_def
    by (simp, rule iff_allI) (auto split: option.splits)
  moreover have "map_of x k = map_of y k" if "k \<notin> set (map fst x)" "k \<notin> set (map fst y)" for k
    using that by (metis map_of_eq_None_iff set_map)
  ultimately show ?thesis
    unfolding ab mequal_def by (auto simp: list_all_iff)
qed (auto simp: mequal_def mhas_def)

section \<open>Decimal printing\<close>

lemma show_nat_digits: "set (show_nat n) \<subseteq> (\<lambda>d. char_of (48 + d)) ` {d. d < (10 :: nat)}"
proof (induction n rule: show_nat.induct)
  case (1 n)
  show ?case
  proof (cases "n < 10")
    case True
    then show ?thesis by (subst show_nat.simps) auto
  next
    case False
    have "n mod 10 < 10" by simp
    with False "1.IH" show ?thesis by (subst show_nat.simps) auto
  qed
qed

lemma show_nat_no_slash: "CHR ''/'' \<notin> set (show_nat n)"
proof
  assume "CHR ''/'' \<in> set (show_nat n)"
  then obtain d :: nat where d: "d < 10" "CHR ''/'' = char_of (48 + d)"
    using show_nat_digits by blast
  from d(2) have "of_char (CHR ''/'') = (of_char (char_of (48 + d) :: char) :: nat)" by simp
  with d(1) show False by simp
qed

lemma show_nat_nonempty: "show_nat n \<noteq> []"
  by (subst show_nat.simps) simp

fun read_nat_acc :: "nat \<Rightarrow> string \<Rightarrow> nat" where
  "read_nat_acc a [] = a"
| "read_nat_acc a (c # cs) = read_nat_acc (10 * a + (of_char c - 48)) cs"

lemma read_nat_acc_append: "read_nat_acc a (xs @ [c]) = 10 * read_nat_acc a xs + (of_char c - 48)"
  by (induction xs arbitrary: a) auto

lemma read_show_nat: "read_nat_acc 0 (show_nat n) = n"
proof (induction n rule: show_nat.induct)
  case (1 n)
  show ?case
  proof (cases "n < 10")
    case True
    then show ?thesis by (subst show_nat.simps) simp
  next
    case False
    with "1.IH" have "read_nat_acc 0 (show_nat (n div 10)) = n div 10" by simp
    moreover have "(of_char (char_of (48 + n mod 10) :: char) :: nat) = 48 + n mod 10"
      by simp
    ultimately show ?thesis using False
      by (subst show_nat.simps) (simp add: read_nat_acc_append)
  qed
qed

lemma show_nat_inject [simp]: "show_nat m = show_nat n \<longleftrightarrow> m = n"
  by (metis read_show_nat)

section \<open>Running computations\<close>

lemma go_bind_run [go_run]:
  "m s = (Inl e, t) \<Longrightarrow> go_bind m f s = (Inl e, t)"
  "m s = (Inr x, t) \<Longrightarrow> go_bind m f s = f x t"
  by (simp_all add: go_bind_def)

lemma go_bind_Inr:
  "go_bind m f s = (Inr y, u) \<longleftrightarrow> (\<exists>x t. m s = (Inr x, t) \<and> f x t = (Inr y, u))"
  by (auto simp: go_bind_def split: prod.splits sum.splits)

lemma go_then_Inr:
  "go_then m n s = (Inr y, u) \<longleftrightarrow> (\<exists>x t. m s = (Inr x, t) \<and> n t = (Inr y, u))"
  by (simp add: go_then_def go_bind_Inr)

lemma go_try_bind: "go_bind (go_try m) f s = f (fst (m s)) (snd (m s))"
  by (cases "m s") (simp add: go_bind_def go_try_def)

lemma go_ret_run [go_run]: "go_ret x s = (Inr x, s)"
  by (simp add: go_ret_def)

lemma go_raise_run [go_run]: "go_raise e s = (Inl e, s)"
  by (simp add: go_raise_def)

lemma go_get_run [go_run]: "go_get f s = (Inr (f s), s)"
  by (simp add: go_get_def)

lemma go_modify_run [go_run]: "go_modify f s = (Inr (), f s)"
  by (simp add: go_modify_def)

lemma go_map_err_Inr: "go_map_err f m s = (Inr y, u) \<longleftrightarrow> m s = (Inr y, u)"
  by (auto simp: go_map_err_def split: prod.splits sum.splits)

lemma go_for_Cons_Inr:
  "go_for (x # xs) f s = (Inr y, u) \<longleftrightarrow> (\<exists>t. f x s = (Inr (), t) \<and> go_for xs f t = (Inr y, u))"
  by (auto simp: go_then_Inr)

lemmas go_Inr = go_bind_Inr go_then_Inr go_map_err_Inr

section \<open>Hoare rules\<close>

lemma triple_ret [go_hoare]: "(\<And>s. P s \<Longrightarrow> Q x s) \<Longrightarrow> triple P (go_ret x) Q X"
  by (simp add: triple_def go_ret_def)

lemma triple_raise [go_hoare]: "(\<And>s. P s \<Longrightarrow> X s) \<Longrightarrow> triple P (go_raise e) Q X"
  by (simp add: triple_def go_raise_def)

lemma triple_get [go_hoare]: "(\<And>s. P s \<Longrightarrow> Q (f s) s) \<Longrightarrow> triple P (go_get f) Q X"
  by (simp add: triple_def go_get_def)

lemma triple_modify [go_hoare]: "(\<And>s. P s \<Longrightarrow> Q () (f s)) \<Longrightarrow> triple P (go_modify f) Q X"
  by (simp add: triple_def go_modify_def)

lemma triple_bind:
  assumes "triple P m R X" and "\<And>x. triple (R x) (f x) Q X"
  shows "triple P (go_bind m f) Q X"
  using assms by (fastforce simp: triple_def go_bind_def split: prod.splits sum.splits)

lemma triple_then:
  assumes "triple P m (\<lambda>_. R) X" and "triple R n Q X"
  shows "triple P (go_then m n) Q X"
  unfolding go_then_def by (rule triple_bind [OF assms(1)]) (rule assms(2))

lemma triple_try [go_hoare]:
  assumes "triple P m (\<lambda>x. Q (Inr x)) (\<lambda>s. \<forall>e. Q (Inl e) s)"
  shows "triple P (go_try m) Q X"
  unfolding triple_def go_try_def
proof (intro allI impI)
  fix s assume "P s"
  with assms show "case (case m s of (r, t) \<Rightarrow> (Inr r, t)) of (Inl e, t) \<Rightarrow> X t | (Inr x, t) \<Rightarrow> Q x t"
    by (cases "fst (m s)"; cases "m s") (auto simp: triple_def dest!: spec [of _ s])
qed

lemma triple_map_err [go_hoare]: "triple P m Q X \<Longrightarrow> triple P (go_map_err f m) Q X"
  by (fastforce simp: triple_def go_map_err_def split: prod.splits sum.splits)

lemma triple_when [go_hoare]:
  "(b \<Longrightarrow> triple P m Q X) \<Longrightarrow> (\<And>s. \<not> b \<Longrightarrow> P s \<Longrightarrow> Q () s) \<Longrightarrow> triple P (go_when b m) Q X"
  by (simp add: go_when_def triple_def go_ret_def)

lemma triple_if [go_hoare]:
  "(b \<Longrightarrow> triple P m Q X) \<Longrightarrow> (\<not> b \<Longrightarrow> triple P n Q X) \<Longrightarrow> triple P (if b then m else n) Q X"
  by simp

lemma triple_weaken:
  "triple P' m Q' X' \<Longrightarrow> (\<And>s. P s \<Longrightarrow> P' s) \<Longrightarrow> (\<And>x s. Q' x s \<Longrightarrow> Q x s) \<Longrightarrow> (\<And>s. X' s \<Longrightarrow> X s)
   \<Longrightarrow> triple P m Q X"
  by (fastforce simp: triple_def split: prod.splits sum.splits)

text \<open>A loop whose invariant may speak of the elements still to come.\<close>

lemma triple_for_rest:
  assumes "\<And>x rest. x \<in> set xs \<Longrightarrow> triple (I (x # rest)) (f x) (\<lambda>_. I rest) X"
  shows "triple (I xs) (go_for xs f) (\<lambda>_. I []) X"
  using assms
proof (induction xs)
  case Nil
  show ?case unfolding go_for.simps by (rule triple_ret)
next
  case (Cons x xs)
  have "triple (I (x # xs)) (f x) (\<lambda>_. I xs) X" by (rule Cons.prems) simp
  moreover have "triple (I xs) (go_for xs f) (\<lambda>_. I []) X"
    by (rule Cons.IH) (simp add: Cons.prems)
  ultimately show ?case by (simp add: triple_then)
qed

lemma triple_for:
  assumes "\<And>x. x \<in> set xs \<Longrightarrow> triple I (f x) (\<lambda>_. I) X"
  shows "triple I (go_for xs f) (\<lambda>_. I) X"
  by (rule triple_for_rest [where I = "\<lambda>_. I"]) (rule assms)

lemma triple_fold:
  assumes "\<And>x acc. x \<in> set xs \<Longrightarrow> triple (I acc) (f x acc) I X"
  shows "triple (I acc) (go_fold xs acc f) I X"
  using assms
proof (induction xs arbitrary: acc)
  case Nil
  show ?case unfolding go_fold.simps by (rule triple_ret)
next
  case (Cons x xs)
  have "triple (I acc) (f x acc) I X" by (rule Cons.prems) simp
  moreover have "triple (I acc') (go_fold xs acc' f) I X" for acc'
    by (rule Cons.IH) (simp add: Cons.prems)
  ultimately show ?case by (simp add: triple_bind)
qed

lemma triple_fold_rest:
  assumes "\<And>x rest acc. x \<in> set xs \<Longrightarrow> triple (I (x # rest) acc) (f x acc) (\<lambda>acc'. I rest acc') X"
  shows "triple (I xs acc) (go_fold xs acc f) (\<lambda>acc'. I [] acc') X"
  using assms
proof (induction xs arbitrary: acc)
  case Nil
  show ?case unfolding go_fold.simps by (rule triple_ret)
next
  case (Cons x xs)
  have "triple (I (x # xs) acc) (f x acc) (\<lambda>acc'. I xs acc') X" by (rule Cons.prems) simp
  moreover have "triple (I xs acc') (go_fold xs acc' f) (\<lambda>acc'. I [] acc') X" for acc'
    by (rule Cons.IH) (simp add: Cons.prems)
  ultimately show ?case by (simp add: triple_bind)
qed

lemma tripleD_Inr: "triple P m Q X \<Longrightarrow> P s \<Longrightarrow> m s = (Inr x, t) \<Longrightarrow> Q x t"
  by (fastforce simp: triple_def)

lemma tripleD_state: "triple P m (\<lambda>_. I) I \<Longrightarrow> P s \<Longrightarrow> I (snd (m s))"
  by (cases "fst (m s)"; cases "m s") (auto simp: triple_def dest!: spec [of _ s])

section \<open>Effects\<close>

text \<open>
  The contract of an effect: a relation between the states before and after, which doing
  nothing satisfies and which survives sequencing. Every way of putting computations
  together keeps it.
\<close>

locale effect =
  fixes R :: "'s \<Rightarrow> 's \<Rightarrow> bool"
  assumes R_refl: "R s s" and R_trans: "R s t \<Longrightarrow> R t u \<Longrightarrow> R s u"
begin

lemma obeys_ret: "obeys R (go_ret x)"
  by (simp add: obeys_def go_ret_def R_refl)

lemma obeys_raise: "obeys R (go_raise e)"
  by (simp add: obeys_def go_raise_def R_refl)

lemma obeys_get: "obeys R (go_get f)"
  by (simp add: obeys_def go_get_def R_refl)

lemma obeys_bind: "obeys R m \<Longrightarrow> (\<And>x. obeys R (f x)) \<Longrightarrow> obeys R (go_bind m f)"
  unfolding obeys_def
proof
  fix s assume m: "\<forall>s. R s (snd (m s))" and f: "\<And>x. \<forall>s. R s (snd (f x s))"
  obtain r t where rt: "m s = (r, t)" by force
  with m have "R s t" by (metis snd_conv)
  then show "R s (snd (go_bind m f s))"
    using f by (cases r) (auto simp: go_bind_def rt intro: R_trans)
qed

lemma obeys_bind_post:
  assumes m: "obeys R m" and post: "\<And>s x t. m s = (Inr x, t) \<Longrightarrow> Post x"
    and f: "\<And>x. Post x \<Longrightarrow> obeys R (f x)"
  shows "obeys R (go_bind m f)"
  unfolding obeys_def
proof
  fix s
  obtain r t where rt: "m s = (r, t)" by force
  have "R s t" using m rt by (metis obeys_def snd_conv)
  then show "R s (snd (go_bind m f s))"
    using f post [of s] rt by (cases r) (auto simp: go_bind_def obeys_def intro: R_trans)
qed

lemma obeys_then: "obeys R m \<Longrightarrow> obeys R n \<Longrightarrow> obeys R (go_then m n)"
  by (simp add: go_then_def obeys_bind)

lemma obeys_try: "obeys R m \<Longrightarrow> obeys R (go_try m)"
  by (simp add: obeys_def go_try_def split: prod.splits) (metis snd_conv)

lemma obeys_map_err: "obeys R m \<Longrightarrow> obeys R (go_map_err f m)"
  by (simp add: obeys_def go_map_err_def split: prod.splits) (metis snd_conv)

lemma obeys_when: "(b \<Longrightarrow> obeys R m) \<Longrightarrow> obeys R (go_when b m)"
  by (simp add: go_when_def obeys_ret)

lemma obeys_if: "(b \<Longrightarrow> obeys R m) \<Longrightarrow> (\<not> b \<Longrightarrow> obeys R n) \<Longrightarrow> obeys R (if b then m else n)"
  by simp

lemma obeys_option:
  "(x = None \<Longrightarrow> obeys R m) \<Longrightarrow> (\<And>y. x = Some y \<Longrightarrow> obeys R (f y)) \<Longrightarrow>
   obeys R (case x of None \<Rightarrow> m | Some y \<Rightarrow> f y)"
  by (cases x) auto

lemma obeys_sum:
  "(\<And>y. x = Inl y \<Longrightarrow> obeys R (f y)) \<Longrightarrow> (\<And>y. x = Inr y \<Longrightarrow> obeys R (g y)) \<Longrightarrow>
   obeys R (case x of Inl y \<Rightarrow> f y | Inr y \<Rightarrow> g y)"
  by (cases x) auto

lemma obeys_prod: "(\<And>y z. x = (y, z) \<Longrightarrow> obeys R (f y z)) \<Longrightarrow> obeys R (case x of (y, z) \<Rightarrow> f y z)"
  by (cases x) auto

lemma obeys_for: "(\<And>x. x \<in> set xs \<Longrightarrow> obeys R (f x)) \<Longrightarrow> obeys R (go_for xs f)"
proof (induction xs)
  case Nil
  show ?case unfolding go_for.simps by (rule obeys_ret)
next
  case (Cons x xs)
  then show ?case by (simp add: obeys_then)
qed

lemma obeys_fold: "(\<And>x acc. x \<in> set xs \<Longrightarrow> obeys R (f x acc)) \<Longrightarrow> obeys R (go_fold xs acc f)"
proof (induction xs arbitrary: acc)
  case Nil
  show ?case unfolding go_fold.simps by (rule obeys_ret)
next
  case (Cons x xs)
  then show ?case by (simp add: obeys_bind)
qed

lemmas obeys_intros = obeys_ret obeys_raise obeys_get obeys_bind obeys_then obeys_try obeys_map_err
  obeys_when obeys_if obeys_option obeys_sum obeys_prod obeys_for obeys_fold

end

lemma obeysD: "obeys R m \<Longrightarrow> m s = (r, t) \<Longrightarrow> R s t"
  by (metis obeys_def snd_conv)

lemma obeys_mono: "obeys R m \<Longrightarrow> (\<And>s t. R s t \<Longrightarrow> R' s t) \<Longrightarrow> obeys R' m"
  by (simp add: obeys_def)

section \<open>Invariants\<close>

text \<open>
  The contract of an invariant that only holds while no error has been returned: \<open>J\<close> between
  the parts of a computation, the weaker \<open>X\<close> at an error return.
\<close>

definition maintains :: "('s \<Rightarrow> bool) \<Rightarrow> ('s \<Rightarrow> bool) \<Rightarrow> ('s, 'e, 'a) go \<Rightarrow> bool" where
  "maintains J X m \<longleftrightarrow> triple J m (\<lambda>_. J) X"

locale invariant_pair =
  fixes J X :: "'s \<Rightarrow> bool"
  assumes J_X: "J s \<Longrightarrow> X s"
begin

lemma keeps_ret: "maintains J X (go_ret x)"
  by (simp add: maintains_def triple_ret)

lemma keeps_raise: "maintains J X (go_raise e)"
  by (simp add: maintains_def triple_raise J_X)

lemma keeps_get: "maintains J X (go_get f)"
  by (simp add: maintains_def triple_get)

lemma keeps_bind: "maintains J X m \<Longrightarrow> (\<And>x. maintains J X (f x)) \<Longrightarrow> maintains J X (go_bind m f)"
  unfolding maintains_def by (rule triple_bind)

lemma keeps_then: "maintains J X m \<Longrightarrow> maintains J X n \<Longrightarrow> maintains J X (go_then m n)"
  unfolding maintains_def by (rule triple_then)

lemma keeps_map_err: "maintains J X m \<Longrightarrow> maintains J X (go_map_err f m)"
  unfolding maintains_def by (rule triple_map_err)

lemma keeps_when: "(b \<Longrightarrow> maintains J X m) \<Longrightarrow> maintains J X (go_when b m)"
  by (simp add: go_when_def keeps_ret)

lemma keeps_if: "(b \<Longrightarrow> maintains J X m) \<Longrightarrow> (\<not> b \<Longrightarrow> maintains J X n) \<Longrightarrow> maintains J X (if b then m else n)"
  by simp

lemma keeps_sum:
  "(\<And>y. x = Inl y \<Longrightarrow> maintains J X (f y)) \<Longrightarrow> (\<And>y. x = Inr y \<Longrightarrow> maintains J X (g y)) \<Longrightarrow>
   maintains J X (case x of Inl y \<Rightarrow> f y | Inr y \<Rightarrow> g y)"
  by (cases x) auto

lemma keeps_option:
  "(x = None \<Longrightarrow> maintains J X m) \<Longrightarrow> (\<And>y. x = Some y \<Longrightarrow> maintains J X (f y)) \<Longrightarrow>
   maintains J X (case x of None \<Rightarrow> m | Some y \<Rightarrow> f y)"
  by (cases x) auto

lemma keeps_prod: "(\<And>y z. x = (y, z) \<Longrightarrow> maintains J X (f y z)) \<Longrightarrow> maintains J X (case x of (y, z) \<Rightarrow> f y z)"
  by (cases x) auto

lemma keeps_for: "(\<And>x. x \<in> set xs \<Longrightarrow> maintains J X (f x)) \<Longrightarrow> maintains J X (go_for xs f)"
  unfolding maintains_def by (rule triple_for)

lemma keeps_fold: "(\<And>x acc. x \<in> set xs \<Longrightarrow> maintains J X (f x acc)) \<Longrightarrow> maintains J X (go_fold xs acc f)"
  unfolding maintains_def by (rule triple_fold [where I = "\<lambda>_. J"])

text \<open>What keeps \<open>J\<close> whether or not it fails.\<close>

lemma keeps_of_obeys:
  assumes "obeys (\<lambda>s t. J s \<longrightarrow> J t) m"
  shows "maintains J X m"
  unfolding maintains_def triple_def
proof (intro allI impI)
  fix s assume "J s"
  then have "J (snd (m s))" using assms by (simp add: obeys_def)
  then show "case m s of (Inl e, t) \<Rightarrow> X t | (Inr x, t) \<Rightarrow> J t"
    by (cases "m s"; cases "fst (m s)") (auto intro: J_X)
qed

lemmas keeps_intros = keeps_ret keeps_raise keeps_get keeps_bind keeps_then keeps_map_err keeps_when keeps_if
  keeps_option keeps_sum keeps_prod keeps_for keeps_fold

end

end
