(* ===== verification/Api_Types.thy ===== *)
theory Api_Types
  imports Prelude Complex_Main
begin

text \<open>
  The data of the operator. From \<open>api/v1alpha1\<close>: the plan (\<open>NodeMaintenancePlan\<close>), its spec
  and its status, field by field. From Kubernetes: the fields of nodes, pods, budgets and
  conditions the operator reads or writes. Then what lies outside the repository, as the
  record \<open>env\<close> of functions every operation takes as its first argument: the API server seen
  through controller-runtime's client, the clocks, label selectors, the condition helper, and
  the two choices Go leaves open (the order of a \<open>range\<close> over a map, the order in which
  goroutines run). Last the state of a reconcile pass and the calls it makes: the client
  calls are recorded in \<open>st_trace\<close> and the recorder's events in \<open>st_events\<close>, so that a theorem
  can say what the operator asked of the cluster.
\<close>

section \<open>Definitions\<close>

subsection \<open>Constants of api/v1alpha1\<close>

abbreviation "NodeMaintenancePlanFinalizer \<equiv> ''maintenance.nmoo.io/finalizer''"

abbreviation "PhasePending \<equiv> ''Pending''"
abbreviation "PhaseAdopted \<equiv> ''Adopted''"
abbreviation "PhaseScheduled \<equiv> ''Scheduled''"
abbreviation "PhaseCordoned \<equiv> ''Cordoned''"
abbreviation "PhaseDraining \<equiv> ''Draining''"
abbreviation "PhaseBlocked \<equiv> ''Blocked''"
abbreviation "PhaseReady \<equiv> ''Ready''"
abbreviation "PhaseTimedOut \<equiv> ''TimedOut''"
abbreviation "PhaseConflict \<equiv> ''Conflict''"

abbreviation "ConditionNodesSelected \<equiv> ''NodesSelected''"
abbreviation "ConditionScheduled \<equiv> ''Scheduled''"
abbreviation "ConditionCordoned \<equiv> ''Cordoned''"
abbreviation "ConditionNodeNotReady \<equiv> ''NodeNotReady''"
abbreviation "ConditionDrainInProgress \<equiv> ''DrainInProgress''"
abbreviation "ConditionDrainSucceeded \<equiv> ''DrainSucceeded''"
abbreviation "ConditionDrainBlocked \<equiv> ''DrainBlocked''"
abbreviation "ConditionConflict \<equiv> ''ConflictDetected''"
abbreviation "ConditionDriftDetected \<equiv> ''DriftDetected''"
abbreviation "ConditionDrainTimedOut \<equiv> ''DrainTimedOut''"

definition ManagedByAnnotation :: string where
  "ManagedByAnnotation = ''maintenance.nmoo.io/managed-by''"

definition ReasonAnnotation :: string where
  "ReasonAnnotation = ''maintenance.nmoo.io/reason''"

definition CordonedAnnotation :: string where
  "CordonedAnnotation = ''maintenance.nmoo.io/cordoned''"

definition InMaintenanceLabel :: string where
  "InMaintenanceLabel = ''maintenance.nmoo.io/in-maintenance''"

subsection \<open>The plan's spec\<close>

record LabelSelector =
  matchLabels :: "(string \<times> string) list"
  matchExpressions :: "(string \<times> string \<times> string list) list"

record CordonSpec =
  cordon_Enabled :: bool
  cordon_StartAt :: "time option"

record DrainOptions =
  MaxParallel :: int
  opt_IgnoreDaemonSets :: bool
  opt_DeleteEmptyDirData :: bool
  opt_Force :: bool
  opt_PodTerminationGracePeriodSeconds :: "int option"
  opt_RespectPodDisruptionBudgets :: bool

record DrainSpec =
  drain_Enabled :: bool
  drain_StartAt :: "time option"
  drain_Options :: "DrainOptions option"
  TimeoutMinutes :: "int option"

record PlanSpec =
  spec_Nodes :: "string list"
  NodeSelector :: "LabelSelector option"
  Reason :: string
  Cordon :: "CordonSpec option"
  Drain :: "DrainSpec option"

subsection \<open>The plan's status\<close>

record PodReference =
  ref_Namespace :: string
  ref_Name :: string

record NodeIssue =
  issue_Type :: string
  issue_Message :: string
  PodRef :: "PodReference option"

record NodeDrainPreview =
  EvictableCount :: int
  SkippedCount :: int
  preview_Issues :: "NodeIssue list"
  ComputedAt :: "time option"

record NodeStatus =
  ns_Name :: string
  Cordoned :: bool
  CordonedAt :: "time option"
  ns_DrainProgress :: int
  ns_Drifted :: bool
  DriftReason :: string
  TotalPods :: int
  InitialPodCount :: int
  EvictablePods :: int
  BlockedPods :: int
  EvictedTotal :: int
  DrainPreview :: "NodeDrainPreview option"
  ns_Issues :: "NodeIssue list"
  NotReadySince :: "time option"
  ReadyForMaintenance :: bool

record Condition =
  c_Type :: string
  c_Status :: string
  c_ObservedGeneration :: int
  c_Reason :: string
  c_Message :: string
  c_LastTransitionTime :: time

record PlanStatus =
  ResolvedNodes :: "string list"
  NodeSnapshotTaken :: bool
  Conditions :: "Condition list"
  status_Nodes :: "NodeStatus list"
  DrainStartedAt :: "time option"
  LastPreviewTime :: "time option"
  TotalEvictablePods :: int
  TotalPreviewIssues :: int
  ObservedGeneration :: int
  AllNodesReadyForMaintenance :: bool
  NodeCount :: int
  Phase :: string
  ReadySummary :: string
  plan_DrainProgress :: string
  DrainingNodeCount :: string
  BlockedNodeCount :: string
  plan_Drifted :: "bool option"

record Plan =
  plan_Name :: string
  plan_Namespace :: string
  Generation :: int
  Finalizers :: "string list"
  plan_DeletionTimestamp :: "time option"
  Spec :: PlanSpec
  Status :: PlanStatus

text \<open>Go's zero value of a \<open>NodeStatus\<close>, what reading a missing map key gives.\<close>

definition zero_NodeStatus :: NodeStatus where
  "zero_NodeStatus = \<lparr>ns_Name = '''', Cordoned = False, CordonedAt = None, ns_DrainProgress = 0,
     ns_Drifted = False, DriftReason = '''', TotalPods = 0, InitialPodCount = 0, EvictablePods = 0,
     BlockedPods = 0, EvictedTotal = 0, DrainPreview = None, ns_Issues = [], NotReadySince = None,
     ReadyForMaintenance = False\<rparr>"

subsection \<open>Kubernetes objects\<close>

record Node =
  node_Name :: string
  Annotations :: gomap
  Labels :: gomap
  Unschedulable :: bool
  node_Conditions :: "(string \<times> string) list"
  node_DeletionTimestamp :: "time option"

record OwnerReference =
  Kind :: string
  Controller :: "bool option"

record Pod =
  pod_Namespace :: string
  pod_Name :: string
  pod_Labels :: gomap
  pod_Annotations :: gomap
  OwnerReferences :: "OwnerReference list"
  Volumes_EmptyDir :: "bool list"
  pod_DeletionTimestamp :: "time option"
  TerminationGracePeriodSeconds :: "int option"
  pod_Phase :: string

record PodDisruptionBudget =
  pdb_Name :: string
  DisruptionsAllowed :: int
  pdb_Selector :: "LabelSelector option"

subsection \<open>Errors\<close>

text \<open>
  An error of the API server carries its reason; \<open>Wrapped s e\<close> is \<open>fmt.Errorf("s: %w", e)\<close>.
  \<open>errors.As\<close> and the \<open>apierrors\<close> predicates look through the wrapping.
\<close>

datatype api_reason = ReasonNotFound | ReasonTooManyRequests | ReasonAlreadyExists | ReasonOther string

datatype go_error =
    ApiError api_reason
  | NewError string
  | Wrapped string go_error
  | drainBlockedError string "Pod list" bool
  | nodeNotReadyError string "time option"

fun IsNotFound :: "go_error \<Rightarrow> bool" where
  "IsNotFound (ApiError ReasonNotFound) = True"
| "IsNotFound (Wrapped _ e) = IsNotFound e"
| "IsNotFound _ = False"

fun IsTooManyRequests :: "go_error \<Rightarrow> bool" where
  "IsTooManyRequests (ApiError ReasonTooManyRequests) = True"
| "IsTooManyRequests (Wrapped _ e) = IsTooManyRequests e"
| "IsTooManyRequests _ = False"

fun as_drainBlocked :: "go_error \<Rightarrow> (string \<times> Pod list \<times> bool) option" where
  "as_drainBlocked (drainBlockedError n ps b) = Some (n, ps, b)"
| "as_drainBlocked (Wrapped _ e) = as_drainBlocked e"
| "as_drainBlocked _ = None"

fun as_nodeNotReady :: "go_error \<Rightarrow> (string \<times> time option) option" where
  "as_nodeNotReady (nodeNotReadyError n t) = Some (n, t)"
| "as_nodeNotReady (Wrapped _ e) = as_nodeNotReady e"
| "as_nodeNotReady _ = None"

subsection \<open>Events\<close>

text \<open>One call of \<open>recorder.Eventf(plan, related, type, reason, action, note, args \<dots>)\<close>.\<close>

datatype event_arg = AStr string | AInt int | AErr go_error

record Event =
  ev_Regarding :: string
  ev_Related :: "string option"
  ev_Type :: string
  ev_Reason :: string
  ev_Action :: string
  ev_Note :: string
  ev_Args :: "event_arg list"

abbreviation "EventTypeNormal \<equiv> ''Normal''"
abbreviation "EventTypeWarning \<equiv> ''Warning''"

subsection \<open>The surroundings\<close>

text \<open>
  \<open>'w\<close> is whatever the outside is made of: the cluster, the API server, other clients, the
  flow of time. A patch takes the original and the modified object (\<open>client.MergeFrom\<close>) and
  returns the object of the server's response, which the client stores back.
\<close>

type_synonym ('w, 'a) outside = "'w \<Rightarrow> (go_error + 'a) \<times> 'w"

record 'w env =
  k_getNode :: "string \<Rightarrow> ('w, Node) outside"
  k_listNodes :: "(gomap \<Rightarrow> bool) option \<Rightarrow> ('w, Node list) outside"
  k_patchNode :: "Node \<Rightarrow> Node \<Rightarrow> ('w, Node) outside"
  k_listPods :: "string \<Rightarrow> ('w, Pod list) outside"
  k_evictPod :: "Pod \<Rightarrow> int option \<Rightarrow> ('w, unit) outside"
  k_deletePod :: "Pod \<Rightarrow> ('w, unit) outside"
  k_listPDBs :: "string \<Rightarrow> ('w, PodDisruptionBudget list) outside"
  k_getPlan :: "string \<Rightarrow> ('w, Plan) outside"
  k_listPlans :: "('w, Plan list) outside"
  k_patchPlan :: "Plan \<Rightarrow> Plan \<Rightarrow> ('w, Plan) outside"
  k_patchPlanStatus :: "Plan \<Rightarrow> Plan \<Rightarrow> ('w, Plan) outside"
  k_clockNow :: "'w \<Rightarrow> time \<times> 'w"
  k_metaNow :: "'w \<Rightarrow> time \<times> 'w"
  k_SetStatusCondition :: "Condition list \<Rightarrow> Condition \<Rightarrow> Condition list"
  k_FindStatusCondition :: "Condition list \<Rightarrow> string \<Rightarrow> Condition option"
  k_LabelSelectorAsSelector :: "LabelSelector \<Rightarrow> go_error + (gomap \<Rightarrow> bool)"
  k_ContainsFinalizer :: "string list \<Rightarrow> string \<Rightarrow> bool"
  k_AddFinalizer :: "string list \<Rightarrow> string \<Rightarrow> string list"
  k_RemoveFinalizer :: "string list \<Rightarrow> string \<Rightarrow> string list"
  k_RFC3339 :: "time \<Rightarrow> string"
  k_range :: "string \<Rightarrow> string list \<Rightarrow> string list"
  k_pick :: "nat \<Rightarrow> nat list \<Rightarrow> nat"

subsection \<open>The state of a pass\<close>

datatype call =
    GetNode string
  | ListNodes
  | PatchNode Node Node
  | ListPods string
  | EvictPod Pod "int option"
  | DeletePod Pod
  | ListPDBs string
  | GetPlan string
  | ListPlans
  | PatchPlan Plan Plan
  | PatchPlanStatus Plan Plan

text \<open>
  \<open>st_plan\<close> is the plan object the pass works on, \<open>st_heap\<close> the node objects it holds pointers
  to, by their address (the key of the map they came from, the node's name): a change through
  one list of an \<open>OwnershipResolution\<close> is seen through the others.
\<close>

text \<open>The gauge vectors of \<open>internal/metrics\<close>, and the values of all series.\<close>

datatype gauge_vec = planManagedNodes | planReadyNodes | planDrainingNodes | planBlockedNodes
  | planDriftedNodes | planDrainProgress | planPhase | nodeDrainProgress | nodeEvictedTotal | nodeBlockedPods

type_synonym gauges = "gauge_vec \<times> string list \<Rightarrow> rat option"

record 'w st =
  st_world :: 'w
  st_plan :: Plan
  st_heap :: "string \<Rightarrow> Node option"
  st_trace :: "call list"
  st_events :: "Event list"
  st_gauges :: gauges

type_synonym ('w, 'a) op = "('w st, go_error, 'a) go"

definition client_call :: "call \<Rightarrow> ('w, 'a) outside \<Rightarrow> ('w, 'a) op" where
  "client_call c f s =
     (case f (st_world s) of (r, w) \<Rightarrow> (r, s\<lparr>st_world := w, st_trace := st_trace s @ [c]\<rparr>))"

definition read_clock :: "('w \<Rightarrow> time \<times> 'w) \<Rightarrow> ('w, time) op" where
  "read_clock f s = (case f (st_world s) of (t, w) \<Rightarrow> (Inr t, s\<lparr>st_world := w\<rparr>))"

definition get_plan :: "('w, Plan) op" where
  "get_plan = go_get st_plan"

definition modify_plan :: "(Plan \<Rightarrow> Plan) \<Rightarrow> ('w, unit) op" where
  "modify_plan f = go_modify (\<lambda>s. s\<lparr>st_plan := f (st_plan s)\<rparr>)"

definition emit :: "Event \<Rightarrow> ('w, unit) op" where
  "emit e = go_modify (\<lambda>s. s\<lparr>st_events := st_events s @ [e]\<rparr>)"

definition Eventf :: "string option \<Rightarrow> string \<Rightarrow> string \<Rightarrow> string \<Rightarrow> string \<Rightarrow> event_arg list \<Rightarrow> ('w, unit) op" where
  "Eventf related type reason action note args =
     go_bind get_plan (\<lambda>p. emit \<lparr>ev_Regarding = plan_Name p, ev_Related = related, ev_Type = type,
       ev_Reason = reason, ev_Action = action, ev_Note = note, ev_Args = args\<rparr>)"

definition load_node :: "string \<Rightarrow> ('w, Node) op" where
  "load_node a = go_bind (go_get (\<lambda>s. st_heap s a)) (\<lambda>n.
     case n of None \<Rightarrow> go_raise (NewError ''nil pointer dereference'') | Some n \<Rightarrow> go_ret n)"

definition store_node :: "string \<Rightarrow> Node \<Rightarrow> ('w, unit) op" where
  "store_node a n = go_modify (\<lambda>s. s\<lparr>st_heap := (st_heap s)(a := Some n)\<rparr>)"

text \<open>
  The object at \<open>a\<close> is changed in place and sent as a merge patch against the copy made
  before; a successful call stores the server's response in the object.
\<close>

definition patch_node :: "'w env \<Rightarrow> string \<Rightarrow> (Node \<Rightarrow> Node) \<Rightarrow> ('w, unit) op" where
  "patch_node E a f = go_bind (load_node a) (\<lambda>original.
     go_then (store_node a (f original))
     (go_bind (client_call (PatchNode original (f original)) (k_patchNode E original (f original)))
       (store_node a)))"

text \<open>\<open>s.client.Status().Patch(ctx, plan, client.MergeFrom(original))\<close>\<close>

definition patch_plan_status :: "'w env \<Rightarrow> Plan \<Rightarrow> ('w, unit) op" where
  "patch_plan_status E original = go_bind get_plan (\<lambda>p.
     go_bind (client_call (PatchPlanStatus original p) (k_patchPlanStatus E original p))
       (\<lambda>p'. modify_plan (\<lambda>_. p')))"

text \<open>The operator's mark of ownership on a node.\<close>

definition owner_of :: "Node \<Rightarrow> string" where
  "owner_of n = mget (Annotations n) ManagedByAnnotation"

text \<open>
  Two effects. \<open>trace_within ok\<close>: all calls made satisfy \<open>ok\<close>. \<open>same_pass\<close>: nothing of the
  pass's own state changed (only the world, and the trace of calls).
\<close>

definition trace_within :: "(call \<Rightarrow> bool) \<Rightarrow> 'w st \<Rightarrow> 'w st \<Rightarrow> bool" where
  "trace_within ok s t \<longleftrightarrow> (\<exists>cs. st_trace t = st_trace s @ cs \<and> list_all ok cs)"

definition same_pass :: "'w st \<Rightarrow> 'w st \<Rightarrow> bool" where
  "same_pass s t \<longleftrightarrow> st_plan t = st_plan s \<and> st_heap t = st_heap s \<and> st_events t = st_events s \<and>
     st_gauges t = st_gauges s"

section \<open>Lemmas\<close>

lemma annotation_keys_distinct [simp]:
  "ManagedByAnnotation \<noteq> ReasonAnnotation" "ReasonAnnotation \<noteq> ManagedByAnnotation"
  "ManagedByAnnotation \<noteq> CordonedAnnotation" "CordonedAnnotation \<noteq> ManagedByAnnotation"
  "ReasonAnnotation \<noteq> CordonedAnnotation" "CordonedAnnotation \<noteq> ReasonAnnotation"
  by (simp_all add: ManagedByAnnotation_def ReasonAnnotation_def CordonedAnnotation_def)

text \<open>Primitive operations run from a state.\<close>

lemma client_call_Inr:
  "client_call c f s = (Inr x, t) \<longleftrightarrow>
     f (st_world s) = (Inr x, st_world t) \<and> t = s\<lparr>st_world := st_world t, st_trace := st_trace s @ [c]\<rparr>"
  by (auto simp: client_call_def split: prod.splits)

lemma get_plan_run [go_run]: "get_plan s = (Inr (st_plan s), s)"
  by (simp add: get_plan_def go_get_def)

lemma modify_plan_run [go_run]: "modify_plan f s = (Inr (), s\<lparr>st_plan := f (st_plan s)\<rparr>)"
  by (simp add: modify_plan_def go_modify_def)

lemma emit_run [go_run]: "emit e s = (Inr (), s\<lparr>st_events := st_events s @ [e]\<rparr>)"
  by (simp add: emit_def go_modify_def)

lemma load_node_run [go_run]: "st_heap s a = Some n \<Longrightarrow> load_node a s = (Inr n, s)"
  by (simp add: load_node_def go_bind_def go_get_def go_ret_def)

lemma load_node_Inr: "load_node a s = (Inr n, t) \<longleftrightarrow> st_heap s a = Some n \<and> t = s"
  by (auto simp: load_node_def go_bind_def go_get_def go_ret_def go_raise_def split: option.splits)

lemma store_node_run [go_run]: "store_node a n s = (Inr (), s\<lparr>st_heap := (st_heap s)(a := Some n)\<rparr>)"
  by (simp add: store_node_def go_modify_def)

text \<open>Hoare rules of the primitives.\<close>

lemma triple_client_call:
  assumes "\<And>s x w. P s \<Longrightarrow> f (st_world s) = (Inr x, w) \<Longrightarrow>
      Q x (s\<lparr>st_world := w, st_trace := st_trace s @ [c]\<rparr>)"
    and "\<And>s e w. P s \<Longrightarrow> f (st_world s) = (Inl e, w) \<Longrightarrow>
      X (s\<lparr>st_world := w, st_trace := st_trace s @ [c]\<rparr>)"
  shows "triple P (client_call c f) Q X"
  using assms by (auto simp: triple_def client_call_def split: prod.splits sum.splits)

lemma triple_read_clock:
  "(\<And>s x w. P s \<Longrightarrow> f (st_world s) = (x, w) \<Longrightarrow> Q x (s\<lparr>st_world := w\<rparr>)) \<Longrightarrow> triple P (read_clock f) Q X"
  by (auto simp: triple_def read_clock_def split: prod.splits)

lemma triple_get_plan: "(\<And>s. P s \<Longrightarrow> Q (st_plan s) s) \<Longrightarrow> triple P get_plan Q X"
  by (simp add: get_plan_def triple_get)

lemma triple_modify_plan:
  "(\<And>s. P s \<Longrightarrow> Q () (s\<lparr>st_plan := f (st_plan s)\<rparr>)) \<Longrightarrow> triple P (modify_plan f) Q X"
  by (simp add: modify_plan_def triple_modify)

lemma triple_Eventf:
  assumes "\<And>s e. P s \<Longrightarrow> Q () (s\<lparr>st_events := st_events s @ [e]\<rparr>)"
  shows "triple P (Eventf r ty re ac no ar) Q X"
  using assms by (auto simp: triple_def Eventf_def go_bind_def go_run)

lemma triple_load_node:
  assumes "\<And>s n. P s \<Longrightarrow> st_heap s a = Some n \<Longrightarrow> Q n s" and "\<And>s. P s \<Longrightarrow> st_heap s a = None \<Longrightarrow> X s"
  shows "triple P (load_node a) Q X"
  using assms
  by (auto simp: triple_def load_node_def go_bind_def go_get_def go_ret_def go_raise_def split: option.splits)

lemma triple_store_node:
  "(\<And>s. P s \<Longrightarrow> Q () (s\<lparr>st_heap := (st_heap s)(a := Some n)\<rparr>)) \<Longrightarrow> triple P (store_node a n) Q X"
  by (simp add: store_node_def triple_modify)

text \<open>
  One patch of a node: the heap changes at the address only, the trace grows by the call.
\<close>

lemma triple_patch_node:
  assumes ok: "\<And>s n n' w. P s \<Longrightarrow> st_heap s a = Some n \<Longrightarrow> k_patchNode E n (f n) (st_world s) = (Inr n', w) \<Longrightarrow>
      Q () (s\<lparr>st_world := w, st_trace := st_trace s @ [PatchNode n (f n)],
             st_heap := (st_heap s)(a := Some n')\<rparr>)"
    and err: "\<And>s n e w. P s \<Longrightarrow> st_heap s a = Some n \<Longrightarrow> k_patchNode E n (f n) (st_world s) = (Inl e, w) \<Longrightarrow>
      X (s\<lparr>st_heap := (st_heap s)(a := Some (f n)), st_world := w,
           st_trace := st_trace s @ [PatchNode n (f n)]\<rparr>)"
    and nil: "\<And>s. P s \<Longrightarrow> st_heap s a = None \<Longrightarrow> X s"
  shows "triple P (patch_node E a f) Q X"
  unfolding triple_def
proof (intro allI impI)
  fix s assume P: "P s"
  show "case patch_node E a f s of (Inl e, t) \<Rightarrow> X t | (Inr x, t) \<Rightarrow> Q x t"
  proof (cases "st_heap s a")
    case None
    with nil [OF P] show ?thesis
      by (simp add: patch_node_def load_node_def go_bind_def go_get_def go_raise_def)
  next
    case (Some n)
    obtain r w where rw: "k_patchNode E n (f n) (st_world s) = (r, w)" by force
    show ?thesis
    proof (cases r)
      case (Inl e)
      with err [OF P Some] rw Some show ?thesis
        by (simp add: patch_node_def go_then_def go_bind_def go_run client_call_def)
    next
      case (Inr n')
      with ok [OF P Some] rw Some show ?thesis
        by (simp add: patch_node_def go_then_def go_bind_def go_run client_call_def)
    qed
  qed
qed

lemma triple_patch_plan_status:
  assumes ok: "\<And>s p' w. P s \<Longrightarrow> k_patchPlanStatus E original (st_plan s) (st_world s) = (Inr p', w) \<Longrightarrow>
      Q () (s\<lparr>st_world := w, st_trace := st_trace s @ [PatchPlanStatus original (st_plan s)], st_plan := p'\<rparr>)"
    and err: "\<And>s e w. P s \<Longrightarrow> k_patchPlanStatus E original (st_plan s) (st_world s) = (Inl e, w) \<Longrightarrow>
      X (s\<lparr>st_world := w, st_trace := st_trace s @ [PatchPlanStatus original (st_plan s)]\<rparr>)"
  shows "triple P (patch_plan_status E original) Q X"
  using assms
  by (auto simp: triple_def patch_plan_status_def go_bind_def go_run client_call_def
      split: prod.splits sum.splits)

lemma patch_node_Inr:
  "patch_node E a f s = (Inr x, t) \<longleftrightarrow>
     (\<exists>n n' w. st_heap s a = Some n \<and> k_patchNode E n (f n) (st_world s) = (Inr n', w) \<and>
       t = s\<lparr>st_world := w, st_trace := st_trace s @ [PatchNode n (f n)],
             st_heap := (st_heap s)(a := Some n')\<rparr>)"
proof (cases "st_heap s a")
  case None
  then show ?thesis
    by (simp add: patch_node_def load_node_def go_bind_def go_get_def go_raise_def)
next
  case (Some n)
  obtain r w where rw: "k_patchNode E n (f n) (st_world s) = (r, w)" by force
  with Some show ?thesis
    by (cases r) (auto simp: patch_node_def go_then_def go_bind_def go_run client_call_def)
qed

section \<open>Effects of the primitives\<close>

interpretation tr: effect "trace_within ok" for ok :: "call \<Rightarrow> bool"
proof (unfold_locales, goal_cases)
  case (1 s)
  show ?case by (simp add: trace_within_def)
next
  case (2 s t u)
  then show ?case by (auto simp: trace_within_def list_all_append)
qed

interpretation own: effect same_pass
  by unfold_locales (auto simp: same_pass_def)

lemma trace_within_same: "st_trace t = st_trace s \<Longrightarrow> trace_within ok s t"
  by (simp add: trace_within_def)

lemma trace_within_mono: "trace_within ok s t \<Longrightarrow> (\<And>c. ok c \<Longrightarrow> ok' c) \<Longrightarrow> trace_within ok' s t"
  by (auto simp: trace_within_def list_all_iff)

lemma tr_client_call: "ok c \<Longrightarrow> obeys (trace_within ok) (client_call c f)"
  by (auto simp: obeys_def client_call_def trace_within_def split: prod.splits)

lemma tr_read_clock: "obeys (trace_within ok) (read_clock f)"
  by (auto simp: obeys_def read_clock_def trace_within_def split: prod.splits)

lemma tr_get_plan: "obeys (trace_within ok) get_plan"
  by (simp add: get_plan_def tr.obeys_get)

lemma tr_modify_plan: "obeys (trace_within ok) (modify_plan f)"
  by (simp add: obeys_def go_run trace_within_def)

lemma tr_Eventf: "obeys (trace_within ok) (Eventf r ty re ac no ar)"
  unfolding Eventf_def by (intro tr.obeys_bind tr_get_plan) (simp add: obeys_def go_run trace_within_def)

lemma tr_load_node: "obeys (trace_within ok) (load_node a)"
  unfolding load_node_def by (intro tr.obeys_intros)

lemma tr_store_node: "obeys (trace_within ok) (store_node a n)"
  by (simp add: obeys_def go_run trace_within_def)

lemma tr_patch_node: "(\<And>n. ok (PatchNode n (f n))) \<Longrightarrow> obeys (trace_within ok) (patch_node E a f)"
  unfolding patch_node_def by (intro tr.obeys_bind tr.obeys_then tr_load_node tr_store_node tr_client_call)

lemma tr_patch_plan_status:
  "(\<And>p. ok (PatchPlanStatus original p)) \<Longrightarrow> obeys (trace_within ok) (patch_plan_status E original)"
  unfolding patch_plan_status_def by (intro tr.obeys_bind tr_get_plan tr_client_call tr_modify_plan)

lemmas tr_prims = tr_client_call tr_read_clock tr_get_plan tr_modify_plan tr_Eventf tr_load_node
  tr_store_node tr_patch_node tr_patch_plan_status

lemma own_client_call: "obeys same_pass (client_call c f)"
  by (auto simp: obeys_def client_call_def same_pass_def split: prod.splits)

lemma own_read_clock: "obeys same_pass (read_clock f)"
  by (auto simp: obeys_def read_clock_def same_pass_def split: prod.splits)

lemma own_get_plan: "obeys same_pass get_plan"
  by (simp add: get_plan_def own.obeys_get)

lemmas own_prims = own_client_call own_read_clock own_get_plan

end
