(* ===== verification/Conditions.thy ===== *)
theory Conditions
  imports Api_Types
begin

text \<open>
  \<open>internal/maintenance/conditions.go\<close>: writing and reading a plan's conditions. The upsert
  itself is apimachinery's \<open>meta.SetStatusCondition\<close>, a parameter; \<open>condition_laws\<close> is what its
  documentation promises, and the lemmas say that under it the conditions behave as a map
  from types to statuses.
\<close>

section \<open>Definitions\<close>

definition setCondition :: "'w env \<Rightarrow> string \<Rightarrow> string \<Rightarrow> string \<Rightarrow> string \<Rightarrow> Plan \<Rightarrow> Plan" where
  "setCondition E condType status reason message plan =
     plan\<lparr>Status := (Status plan)\<lparr>Conditions := k_SetStatusCondition E (Conditions (Status plan))
       \<lparr>c_Type = condType, c_Status = status, c_ObservedGeneration = Generation plan,
        c_Reason = reason, c_Message = message, c_LastTransitionTime = 0\<rparr>\<rparr>\<rparr>"

definition isConditionTrue :: "'w env \<Rightarrow> Plan \<Rightarrow> string \<Rightarrow> bool" where
  "isConditionTrue E plan condType =
     (case k_FindStatusCondition E (Conditions (Status plan)) condType of
        None \<Rightarrow> False | Some c \<Rightarrow> c_Status c = ''True'')"

text \<open>
  The documented behaviour of the helpers: \<open>FindStatusCondition\<close> finds the condition of the
  type; \<open>SetStatusCondition\<close> updates the condition of the new condition's type (all fields
  but the transition time, which moves only when the status changes) or appends it, and
  touches no other condition.
\<close>

definition find_cond :: "Condition list \<Rightarrow> string \<Rightarrow> Condition option" where
  "find_cond cs t = find (\<lambda>c. c_Type c = t) cs"

definition same_condition :: "Condition \<Rightarrow> Condition \<Rightarrow> bool" where
  "same_condition c d \<longleftrightarrow> c_Type c = c_Type d \<and> c_Status c = c_Status d \<and> c_Reason c = c_Reason d \<and>
     c_Message c = c_Message d \<and> c_ObservedGeneration c = c_ObservedGeneration d"

definition condition_laws :: "'w env \<Rightarrow> bool" where
  "condition_laws E \<longleftrightarrow>
     (\<forall>cs t. k_FindStatusCondition E cs t = find_cond cs t) \<and>
     (\<forall>cs c. \<exists>d. find_cond (k_SetStatusCondition E cs c) (c_Type c) = Some d \<and> same_condition d c) \<and>
     (\<forall>cs c t. t \<noteq> c_Type c \<longrightarrow> find_cond (k_SetStatusCondition E cs c) t = find_cond cs t)"

text \<open>A concrete pair of helpers, for the examples: upsert in place, else append.\<close>

fun set_cond :: "Condition list \<Rightarrow> Condition \<Rightarrow> Condition list" where
  "set_cond [] c = [c]"
| "set_cond (d # ds) c = (if c_Type d = c_Type c
     then c\<lparr>c_LastTransitionTime := (if c_Status d = c_Status c then c_LastTransitionTime d
                                     else c_LastTransitionTime c)\<rparr> # ds
     else d # set_cond ds c)"

section \<open>Lemmas\<close>

lemma find_cond_set_cond:
  "find_cond (set_cond cs c) t =
     (if t = c_Type c then Some (c\<lparr>c_LastTransitionTime := (case find_cond cs t of
         Some d \<Rightarrow> if c_Status d = c_Status c then c_LastTransitionTime d else c_LastTransitionTime c
       | None \<Rightarrow> c_LastTransitionTime c)\<rparr>)
      else find_cond cs t)"
  by (induction cs) (auto simp: find_cond_def)

lemma set_cond_laws:
  "k_FindStatusCondition E = find_cond \<Longrightarrow> k_SetStatusCondition E = set_cond \<Longrightarrow> condition_laws E"
  by (simp add: condition_laws_def find_cond_set_cond same_condition_def)

lemma isConditionTrue_set:
  assumes "condition_laws E"
  shows "isConditionTrue E (setCondition E t st r m p) t' =
     (if t' = t then st = ''True'' else isConditionTrue E p t')"
proof (cases "t' = t")
  case True
  define c where "c = \<lparr>c_Type = t, c_Status = st, c_ObservedGeneration = Generation p,
    c_Reason = r, c_Message = m, c_LastTransitionTime = 0\<rparr>"
  obtain d where "find_cond (k_SetStatusCondition E (Conditions (Status p)) c) (c_Type c) = Some d"
      "same_condition d c"
    using assms unfolding condition_laws_def by blast
  with True assms show ?thesis
    by (simp add: isConditionTrue_def setCondition_def condition_laws_def same_condition_def c_def)
next
  case False
  with assms show ?thesis
    by (simp add: isConditionTrue_def setCondition_def condition_laws_def)
qed

text \<open>A condition write touches nothing else of the plan.\<close>

lemma setCondition_frame [simp]:
  "plan_Name (setCondition E t st r m p) = plan_Name p"
  "plan_Namespace (setCondition E t st r m p) = plan_Namespace p"
  "Generation (setCondition E t st r m p) = Generation p"
  "Finalizers (setCondition E t st r m p) = Finalizers p"
  "Spec (setCondition E t st r m p) = Spec p"
  "status_Nodes (Status (setCondition E t st r m p)) = status_Nodes (Status p)"
  "ResolvedNodes (Status (setCondition E t st r m p)) = ResolvedNodes (Status p)"
  "NodeSnapshotTaken (Status (setCondition E t st r m p)) = NodeSnapshotTaken (Status p)"
  "DrainStartedAt (Status (setCondition E t st r m p)) = DrainStartedAt (Status p)"
  "AllNodesReadyForMaintenance (Status (setCondition E t st r m p)) = AllNodesReadyForMaintenance (Status p)"
  "Phase (Status (setCondition E t st r m p)) = Phase (Status p)"
  "NodeCount (Status (setCondition E t st r m p)) = NodeCount (Status p)"
  "ObservedGeneration (Status (setCondition E t st r m p)) = ObservedGeneration (Status p)"
  by (simp_all add: setCondition_def)

end
