(* ===== verification/Memory_Cluster.thy ===== *)
theory Memory_Cluster
  imports Conditions
begin

text \<open>
  An instance of the surroundings, for the examples that show a property's hypotheses can
  hold: a cluster in memory that answers as the Kubernetes API documents, with nobody else
  writing to it. Nothing of the operator is defined here.
\<close>

section \<open>Definitions\<close>

record cluster =
  cl_nodes :: "Node list"
  cl_pods :: "(string \<times> Pod) list"
  cl_protected :: "string list"
  cl_pdbs :: "(string \<times> PodDisruptionBudget) list"
  cl_plans :: "Plan list"
  cl_now :: time

definition empty_cluster :: cluster where
  "empty_cluster = \<lparr>cl_nodes = [], cl_pods = [], cl_protected = [], cl_pdbs = [], cl_plans = [], cl_now = 0\<rparr>"

fun replace_node :: "Node \<Rightarrow> Node list \<Rightarrow> Node list" where
  "replace_node n [] = []"
| "replace_node n (m # ms) = (if node_Name m = node_Name n then n # ms else m # replace_node n ms)"

fun replace_plan :: "Plan \<Rightarrow> Plan list \<Rightarrow> Plan list" where
  "replace_plan n [] = []"
| "replace_plan n (m # ms) = (if plan_Name m = plan_Name n then n # ms else m # replace_plan n ms)"

definition selector_of :: "LabelSelector \<Rightarrow> go_error + (gomap \<Rightarrow> bool)" where
  "selector_of sel = (if matchExpressions sel = [] then
       Inr (\<lambda>labels. list_all (\<lambda>(k, v). mhas labels k \<and> mget labels k = v) (matchLabels sel))
     else Inl (NewError ''match expressions are not supported here''))"

definition found :: "'a option \<Rightarrow> go_error + 'a" where
  "found x = (case x of None \<Rightarrow> Inl (ApiError ReasonNotFound) | Some y \<Rightarrow> Inr y)"

definition memory_env :: "cluster env" where
  "memory_env = \<lparr>
     k_getNode = (\<lambda>nm w. (found (find (\<lambda>n. node_Name n = nm) (cl_nodes w)), w)),
     k_listNodes = (\<lambda>sel w. (Inr (filter (\<lambda>n. case sel of None \<Rightarrow> True | Some f \<Rightarrow> f (Labels n)) (cl_nodes w)), w)),
     k_patchNode = (\<lambda>orig m w. (case find (\<lambda>n. node_Name n = node_Name orig) (cl_nodes w) of
        None \<Rightarrow> (Inl (ApiError ReasonNotFound), w)
      | Some _ \<Rightarrow> (Inr m, w\<lparr>cl_nodes := replace_node m (cl_nodes w)\<rparr>))),
     k_listPods = (\<lambda>nm w. (Inr (map snd (filter (\<lambda>(n, _). n = nm) (cl_pods w))), w)),
     k_evictPod = (\<lambda>pod g w. if pod_Name pod \<in> set (cl_protected w) then (Inl (ApiError ReasonTooManyRequests), w)
        else (Inr (), w\<lparr>cl_pods := filter (\<lambda>(_, p). pod_Name p \<noteq> pod_Name pod) (cl_pods w)\<rparr>)),
     k_deletePod = (\<lambda>pod w. (Inr (), w\<lparr>cl_pods := filter (\<lambda>(_, p). pod_Name p \<noteq> pod_Name pod) (cl_pods w)\<rparr>)),
     k_listPDBs = (\<lambda>ns w. (Inr (map snd (filter (\<lambda>(n, _). n = ns) (cl_pdbs w))), w)),
     k_getPlan = (\<lambda>nm w. (found (find (\<lambda>p. plan_Name p = nm) (cl_plans w)), w)),
     k_listPlans = (\<lambda>w. (Inr (cl_plans w), w)),
     k_patchPlan = (\<lambda>orig m w. (Inr m, w\<lparr>cl_plans := replace_plan m (cl_plans w)\<rparr>)),
     k_patchPlanStatus = (\<lambda>orig m w. (Inr m, w\<lparr>cl_plans := replace_plan m (cl_plans w)\<rparr>)),
     k_clockNow = (\<lambda>w. (cl_now w, w)),
     k_metaNow = (\<lambda>w. (cl_now w, w)),
     k_SetStatusCondition = set_cond,
     k_FindStatusCondition = find_cond,
     k_LabelSelectorAsSelector = selector_of,
     k_ContainsFinalizer = (\<lambda>fs f. f \<in> set fs),
     k_AddFinalizer = (\<lambda>fs f. if f \<in> set fs then fs else fs @ [f]),
     k_RemoveFinalizer = (\<lambda>fs f. filter (\<lambda>x. x \<noteq> f) fs),
     k_RFC3339 = (\<lambda>t. show_int t),
     k_range = (\<lambda>site keys. keys),
     k_pick = (\<lambda>n ready. hd ready)\<rparr>"

definition example_node :: "string \<Rightarrow> Node" where
  "example_node nm = \<lparr>node_Name = nm, Annotations = None, Labels = Some [], Unschedulable = False,
     node_Conditions = [(''Ready'', ''True'')], node_DeletionTimestamp = None\<rparr>"

definition example_pod :: "string \<Rightarrow> Pod" where
  "example_pod nm = \<lparr>pod_Namespace = ''default'', pod_Name = nm, pod_Labels = Some [], pod_Annotations = None,
     OwnerReferences = [\<lparr>Kind = ''ReplicaSet'', Controller = Some True\<rparr>], Volumes_EmptyDir = [],
     pod_DeletionTimestamp = None, TerminationGracePeriodSeconds = None, pod_Phase = ''Running''\<rparr>"

definition example_spec :: "string list \<Rightarrow> PlanSpec" where
  "example_spec ns = \<lparr>spec_Nodes = ns, NodeSelector = None, Reason = ''upgrade'',
     Cordon = Some \<lparr>cordon_Enabled = True, cordon_StartAt = None\<rparr>,
     Drain = Some \<lparr>drain_Enabled = True, drain_StartAt = None, drain_Options = None, TimeoutMinutes = Some 10\<rparr>\<rparr>"

definition empty_status :: PlanStatus where
  "empty_status = \<lparr>ResolvedNodes = [], NodeSnapshotTaken = False, Conditions = [], status_Nodes = [],
     DrainStartedAt = None, LastPreviewTime = None, TotalEvictablePods = 0, TotalPreviewIssues = 0,
     ObservedGeneration = 0, AllNodesReadyForMaintenance = False, NodeCount = 0, Phase = '''',
     ReadySummary = '''', plan_DrainProgress = '''', DrainingNodeCount = '''', BlockedNodeCount = '''',
     plan_Drifted = None\<rparr>"

definition example_plan :: "string \<Rightarrow> string list \<Rightarrow> Plan" where
  "example_plan nm ns = \<lparr>plan_Name = nm, plan_Namespace = '''', Generation = 1,
     Finalizers = [NodeMaintenancePlanFinalizer], plan_DeletionTimestamp = None,
     Spec = example_spec ns, Status = empty_status\<rparr>"

definition start_state :: "Plan \<Rightarrow> cluster \<Rightarrow> cluster st" where
  "start_state plan w = \<lparr>st_world = w, st_plan = plan, st_heap = (\<lambda>_. None), st_trace = [], st_events = [],
     st_gauges = (\<lambda>_. None)\<rparr>"

section \<open>Lemmas\<close>

lemma memory_env_simps [simp]:
  "k_getNode memory_env nm w = (found (find (\<lambda>n. node_Name n = nm) (cl_nodes w)), w)"
  "k_listPods memory_env nm w = (Inr (map snd (filter (\<lambda>(n, _). n = nm) (cl_pods w))), w)"
  "k_clockNow memory_env w = (cl_now w, w)"
  "k_metaNow memory_env w = (cl_now w, w)"
  "k_FindStatusCondition memory_env = find_cond"
  "k_SetStatusCondition memory_env = set_cond"
  "k_range memory_env = (\<lambda>site keys. keys)"
  "k_pick memory_env = (\<lambda>n ready. hd ready)"
  "k_patchPlan memory_env orig m w = (Inr m, w\<lparr>cl_plans := replace_plan m (cl_plans w)\<rparr>)"
  "k_patchPlanStatus memory_env orig m w = (Inr m, w\<lparr>cl_plans := replace_plan m (cl_plans w)\<rparr>)"
  by (simp_all add: memory_env_def)

lemma memory_conditions: "condition_laws memory_env"
  by (simp add: set_cond_laws)

end
