(* ===== verification/Schedule.thy ===== *)
theory Schedule
  imports Memory_Cluster
begin

text \<open>
  \<open>internal/maintenance/schedule.go\<close>: when cordon and drain may act, and how long to wait
  otherwise. Durations are 64-bit, so the wait for a start far in the future can wrap.
\<close>

section \<open>Definitions\<close>

definition scheduleBuffer :: duration where
  "scheduleBuffer = 100 * millisecond"

record ScheduleResult =
  ShouldAct :: bool
  RequeueAfter :: duration

record PlanSchedule =
  ps_Cordon :: ScheduleResult
  ps_Drain :: ScheduleResult
  ps_RequeueAfter :: duration

definition CheckSchedule :: "time option \<Rightarrow> bool \<Rightarrow> time \<Rightarrow> ScheduleResult" where
  "CheckSchedule startAt alreadyActed now =
     (if alreadyActed then \<lparr>ShouldAct = False, RequeueAfter = 0\<rparr>
      else case startAt of
        None \<Rightarrow> \<lparr>ShouldAct = True, RequeueAfter = 0\<rparr>
      | Some t \<Rightarrow>
          if \<not> now < t then \<lparr>ShouldAct = True, RequeueAfter = 0\<rparr>
          else \<lparr>ShouldAct = False, RequeueAfter = i64 (time_sub t now + scheduleBuffer)\<rparr>)"

definition cordonEnabled :: "Plan \<Rightarrow> bool" where
  "cordonEnabled plan = (case Cordon (Spec plan) of None \<Rightarrow> False | Some c \<Rightarrow> cordon_Enabled c)"

definition drainEnabled :: "Plan \<Rightarrow> bool" where
  "drainEnabled plan = (case Drain (Spec plan) of None \<Rightarrow> False | Some d \<Rightarrow> drain_Enabled d)"

definition schedule_at :: "Plan \<Rightarrow> time \<Rightarrow> PlanSchedule" where
  "schedule_at plan now =
     (let cordon = (if \<not> cordonEnabled plan then \<lparr>ShouldAct = True, RequeueAfter = 0\<rparr>
                    else CheckSchedule (Option.bind (Cordon (Spec plan)) cordon_StartAt) False now);
          drain = (if drainEnabled plan then CheckSchedule (Option.bind (Drain (Spec plan)) drain_StartAt) False now
                   else \<lparr>ShouldAct = False, RequeueAfter = 0\<rparr>);
          requeue = (if 0 < RequeueAfter cordon \<and> 0 < RequeueAfter drain
                     then min (RequeueAfter cordon) (RequeueAfter drain)
                     else max (RequeueAfter cordon) (RequeueAfter drain))
      in \<lparr>ps_Cordon = cordon, ps_Drain = drain, ps_RequeueAfter = requeue\<rparr>)"

definition ComputeSchedule :: "'w env \<Rightarrow> ('w, PlanSchedule) op" where
  "ComputeSchedule E = go_bind (read_clock (k_clockNow E)) (\<lambda>now.
     go_bind get_plan (\<lambda>plan. go_ret (schedule_at plan now)))"

text \<open>The start of each enabled phase, the starts still ahead, and the wait for one.\<close>

definition cordon_start :: "Plan \<Rightarrow> time option" where
  "cordon_start plan = (if cordonEnabled plan then Option.bind (Cordon (Spec plan)) cordon_StartAt else None)"

definition drain_start :: "Plan \<Rightarrow> time option" where
  "drain_start plan = (if drainEnabled plan then Option.bind (Drain (Spec plan)) drain_StartAt else None)"

definition pending_starts :: "Plan \<Rightarrow> time \<Rightarrow> time set" where
  "pending_starts plan now = (set_option (cordon_start plan) \<union> set_option (drain_start plan)) \<inter> {now<..}"

definition wait_for :: "time \<Rightarrow> time option \<Rightarrow> duration" where
  "wait_for now x = (case x of None \<Rightarrow> 0 | Some t \<Rightarrow> if now < t then t - now + scheduleBuffer else 0)"

section \<open>Lemmas\<close>

lemma scheduleBuffer_value: "scheduleBuffer = 100000000"
  by (simp add: scheduleBuffer_def millisecond_def)

lemma CheckSchedule_acts:
  "ShouldAct (CheckSchedule startAt False now) \<longleftrightarrow> (\<forall>t. startAt = Some t \<longrightarrow> t \<le> now)"
  by (auto simp: CheckSchedule_def split: option.splits)

lemma CheckSchedule_idle: "ShouldAct (CheckSchedule s b now) \<Longrightarrow> RequeueAfter (CheckSchedule s b now) = 0"
  by (auto simp: CheckSchedule_def split: option.splits if_splits)

lemma CheckSchedule_wait:
  assumes "now < t" "t - now + scheduleBuffer \<le> maxInt64"
  shows "CheckSchedule (Some t) False now = \<lparr>ShouldAct = False, RequeueAfter = t - now + scheduleBuffer\<rparr>"
  using assms by (simp add: CheckSchedule_def time_sub_def scheduleBuffer_value maxInt64_def minInt64_def i64_id)

lemma CheckSchedule_overflow:
  assumes "maxInt64 - scheduleBuffer < t - now"
  shows "RequeueAfter (CheckSchedule (Some t) False now) < 0"
proof -
  have "RequeueAfter (CheckSchedule (Some t) False now) = i64 (min maxInt64 (t - now) + scheduleBuffer)"
    using assms
    by (simp add: CheckSchedule_def time_sub_def scheduleBuffer_value maxInt64_def minInt64_def)
  moreover have "i64 (x + 100000000) < 0"
    if "9223372036754775807 < x" "x \<le> 9223372036854775807" for x
  proof -
    have "(x + 100000000 + 9223372036854775808) mod 18446744073709551616 = x + 100000000 - 9223372036854775808"
      using that mod_pos_pos_trivial [of "x + 100000000 - 9223372036854775808" "18446744073709551616"]
        mod_add_self2 [of "x + 100000000 - 9223372036854775808" "18446744073709551616"]
      by simp
    with that show ?thesis by (simp add: i64_def)
  qed
  ultimately show ?thesis using assms by (simp add: scheduleBuffer_value maxInt64_def)
qed

lemma schedule_at_requeue:
  "ps_RequeueAfter (schedule_at plan now) =
    (let x = RequeueAfter (ps_Cordon (schedule_at plan now)); y = RequeueAfter (ps_Drain (schedule_at plan now))
     in if 0 < x \<and> 0 < y then min x y else max x y)"
  by (simp add: schedule_at_def Let_def)

lemma CheckSchedule_requeue:
  assumes "\<forall>t \<in> set_option x \<inter> {now<..}. t - now + scheduleBuffer \<le> maxInt64"
  shows "RequeueAfter (CheckSchedule x False now) = wait_for now x"
proof (cases x)
  case None
  then show ?thesis by (simp add: CheckSchedule_def wait_for_def)
next
  case (Some t)
  show ?thesis
  proof (cases "now < t")
    case True
    then show ?thesis using assms Some by (simp add: CheckSchedule_wait wait_for_def)
  next
    case False
    then show ?thesis using Some by (simp add: CheckSchedule_def wait_for_def)
  qed
qed

lemma wait_for_pos: "0 < wait_for now x \<longleftrightarrow> set_option x \<inter> {now<..} \<noteq> {}"
  by (cases x) (auto simp: wait_for_def scheduleBuffer_value)

lemma two_waits:
  "(if 0 < wait_for now c \<and> 0 < wait_for now d then min (wait_for now c) (wait_for now d)
    else max (wait_for now c) (wait_for now d)) =
   (let S = (set_option c \<union> set_option d) \<inter> {now<..} in
    if S = {} then 0 else Min S - now + scheduleBuffer)"
  by (cases c; cases d)
    (simp_all add: wait_for_def Let_def scheduleBuffer_value Int_insert_left min_def max_def)

lemma ComputeSchedule_run:
  "k_clockNow E (st_world s) = (now, w) \<Longrightarrow>
   ComputeSchedule E s = (Inr (schedule_at (st_plan s) now), s\<lparr>st_world := w\<rparr>)"
  by (simp add: ComputeSchedule_def go_bind_def read_clock_def go_run)

lemma cordon_wait:
  assumes "\<forall>t \<in> set_option (cordon_start plan) \<inter> {now<..}. t - now + scheduleBuffer \<le> maxInt64"
  shows "RequeueAfter (ps_Cordon (schedule_at plan now)) = wait_for now (cordon_start plan)"
proof (cases "cordonEnabled plan")
  case True
  then have "RequeueAfter (ps_Cordon (schedule_at plan now)) = RequeueAfter (CheckSchedule (cordon_start plan) False now)"
    by (simp add: schedule_at_def Let_def cordon_start_def)
  also have "\<dots> = wait_for now (cordon_start plan)" by (rule CheckSchedule_requeue) (rule assms)
  finally show ?thesis .
next
  case False
  then show ?thesis by (simp add: schedule_at_def Let_def cordon_start_def wait_for_def)
qed

lemma drain_wait:
  assumes "\<forall>t \<in> set_option (drain_start plan) \<inter> {now<..}. t - now + scheduleBuffer \<le> maxInt64"
  shows "RequeueAfter (ps_Drain (schedule_at plan now)) = wait_for now (drain_start plan)"
proof (cases "drainEnabled plan")
  case True
  then have "RequeueAfter (ps_Drain (schedule_at plan now)) = RequeueAfter (CheckSchedule (drain_start plan) False now)"
    by (simp add: schedule_at_def Let_def drain_start_def)
  also have "\<dots> = wait_for now (drain_start plan)" by (rule CheckSchedule_requeue) (rule assms)
  finally show ?thesis .
next
  case False
  then show ?thesis by (simp add: schedule_at_def Let_def drain_start_def wait_for_def)
qed

section \<open>Properties\<close>

text \<open>
  A phase whose start is ahead waits exactly until its start plus the buffer: the wait is
  positive, a check at any moment from then on acts, and no check before the start does.
\<close>

theorem CheckSchedule_wakes:
  assumes ahead: "now < t" and near: "t - now + scheduleBuffer \<le> maxInt64"
  shows "\<not> ShouldAct (CheckSchedule (Some t) False now) \<and>
    0 < RequeueAfter (CheckSchedule (Some t) False now) \<and>
    now + RequeueAfter (CheckSchedule (Some t) False now) = t + scheduleBuffer \<and>
    (\<forall>now' \<ge> now + RequeueAfter (CheckSchedule (Some t) False now). ShouldAct (CheckSchedule (Some t) False now')) \<and>
    (\<forall>now' < t. \<not> ShouldAct (CheckSchedule (Some t) False now'))"
  using ahead by (auto simp: CheckSchedule_wait [OF ahead near] CheckSchedule_acts scheduleBuffer_value)

theorem CheckSchedule_wakes_witness:
  "0 < RequeueAfter (CheckSchedule (Some 5000000000) False 2000000000)"
proof -
  have "(2000000000::int) < 5000000000" by simp
  moreover have "(5000000000::int) - 2000000000 + scheduleBuffer \<le> maxInt64"
    by (simp add: scheduleBuffer_value maxInt64_def)
  ultimately show ?thesis using CheckSchedule_wakes by blast
qed

text \<open>
  The plan is requeued for the earliest start still ahead, plus the buffer, and not at all
  when no start is ahead (all starts within the range of a duration).
\<close>

theorem schedule_requeue_earliest:
  assumes near: "\<forall>t \<in> pending_starts plan now. t - now + scheduleBuffer \<le> maxInt64"
  shows "ps_RequeueAfter (schedule_at plan now) =
    (if pending_starts plan now = {} then 0 else Min (pending_starts plan now) - now + scheduleBuffer)"
proof -
  have set: "pending_starts plan now = (set_option (cordon_start plan) \<union> set_option (drain_start plan)) \<inter> {now<..}"
    by (rule pending_starts_def)
  have C: "RequeueAfter (ps_Cordon (schedule_at plan now)) = wait_for now (cordon_start plan)"
    by (rule cordon_wait) (use near set in auto)
  have D: "RequeueAfter (ps_Drain (schedule_at plan now)) = wait_for now (drain_start plan)"
    by (rule drain_wait) (use near set in auto)
  show ?thesis
    using two_waits [of now "cordon_start plan" "drain_start plan"]
    unfolding schedule_at_requeue C D Let_def set by simp
qed

theorem schedule_requeue_earliest_witness:
  "ps_RequeueAfter (schedule_at ((example_plan ''p'' [])\<lparr>Spec := (example_spec [])\<lparr>
     Cordon := Some \<lparr>cordon_Enabled = True, cordon_StartAt = Some 9000000000\<rparr>\<rparr>\<rparr>) 4000000000) = 5100000000"
proof -
  let ?p = "(example_plan ''p'' [])\<lparr>Spec := (example_spec [])\<lparr>
     Cordon := Some \<lparr>cordon_Enabled = True, cordon_StartAt = Some 9000000000\<rparr>\<rparr>\<rparr>"
  have ps: "pending_starts ?p 4000000000 = {9000000000}"
    by (auto simp: pending_starts_def cordon_start_def drain_start_def cordonEnabled_def drainEnabled_def
        example_plan_def example_spec_def)
  have "\<forall>t \<in> pending_starts ?p 4000000000. t - 4000000000 + scheduleBuffer \<le> maxInt64"
    unfolding ps by (simp add: scheduleBuffer_value maxInt64_def)
  from schedule_requeue_earliest [OF this] show ?thesis unfolding ps by (simp add: scheduleBuffer_value)
qed

end
