(* ===== verification/Node_Ops.thy ===== *)
theory Node_Ops
  imports Api_Types
begin

text \<open>
  The four ways the operator writes to a node: \<open>CordonNode\<close> and \<open>UncordonNode\<close> (cordon.go),
  \<open>ReleaseNode\<close> (cleanup.go) and \<open>AdoptNode\<close> (ownership.go), and the two readers of
  node_health.go. Each writer changes the object it holds and sends one merge patch; the
  change itself is a function on nodes, and \<open>node_mutation\<close> is the contract the four changes
  share: they stay inside the operator's own annotations and label and the unschedulable
  flag. The lemmas of the contract say what a patch of such a change asks of the cluster.
\<close>

section \<open>Definitions\<close>

definition cordon_change :: "Node \<Rightarrow> Node" where
  "cordon_change n = n\<lparr>Unschedulable := True,
     Annotations := mput CordonedAnnotation ''true'' (mmake (Annotations n))\<rparr>"

definition CordonNode :: "'w env \<Rightarrow> string \<Rightarrow> ('w, bool) op" where
  "CordonNode E a = go_bind (load_node a) (\<lambda>node.
     if Unschedulable node \<and> Annotations node \<noteq> None \<and> mget (Annotations node) CordonedAnnotation = ''true''
     then go_ret False
     else go_then (patch_node E a cordon_change) (go_ret True))"

definition uncordon_change :: "Node \<Rightarrow> Node" where
  "uncordon_change n = n\<lparr>Unschedulable := False, Annotations := mdelete CordonedAnnotation (Annotations n)\<rparr>"

definition UncordonNode :: "'w env \<Rightarrow> string \<Rightarrow> ('w, bool) op" where
  "UncordonNode E a = go_bind (load_node a) (\<lambda>node.
     if \<not> Unschedulable node \<and> \<not> (Annotations node \<noteq> None \<and> mget (Annotations node) CordonedAnnotation \<noteq> '''')
     then go_ret False
     else go_then (patch_node E a uncordon_change) (go_ret True))"

definition release_change :: "Node \<Rightarrow> Node" where
  "release_change n = n\<lparr>
     Annotations := mdelete CordonedAnnotation (mdelete ReasonAnnotation (mdelete ManagedByAnnotation (Annotations n))),
     Labels := mdelete InMaintenanceLabel (Labels n)\<rparr>"

definition ReleaseNode :: "'w env \<Rightarrow> string \<Rightarrow> ('w, unit) op" where
  "ReleaseNode E a = go_bind get_plan (\<lambda>plan. go_bind (load_node a) (\<lambda>node.
     if Annotations node = None then go_ret ()
     else if mget (Annotations node) ManagedByAnnotation \<noteq> plan_Name plan then go_ret ()
     else patch_node E a release_change))"

definition adopt_change :: "Plan \<Rightarrow> bool \<Rightarrow> Node \<Rightarrow> Node" where
  "adopt_change plan cordon n =
     (let n1 = n\<lparr>Annotations := mput ReasonAnnotation (Reason (Spec plan))
                  (mput ManagedByAnnotation (plan_Name plan) (mmake (Annotations n))),
                Labels := mput InMaintenanceLabel ''true'' (mmake (Labels n))\<rparr>
      in if cordon then n1\<lparr>Unschedulable := True, Annotations := mput CordonedAnnotation ''true'' (Annotations n1)\<rparr>
         else n1)"

definition AdoptNode :: "'w env \<Rightarrow> string \<Rightarrow> bool \<Rightarrow> ('w, unit) op" where
  "AdoptNode E a cordon = go_bind get_plan (\<lambda>plan.
     go_then (patch_node E a (adopt_change plan cordon))
     (go_bind (load_node a) (\<lambda>node.
        if cordon then Eventf (Some (node_Name node)) EventTypeNormal ''NodeCordoned'' ''AdoptNode''
          ''node %q adopted and cordoned'' [AStr (node_Name node)]
        else Eventf (Some (node_Name node)) EventTypeNormal ''NodeAdopted'' ''AdoptNode''
          ''node %q adopted'' [AStr (node_Name node)])))"

definition nodeNotReadyThreshold :: duration where
  "nodeNotReadyThreshold = 300 * second"

fun ready_condition :: "(string \<times> string) list \<Rightarrow> bool" where
  "ready_condition [] = False"
| "ready_condition ((ty, st) # cs) = (if ty = ''Ready'' then st = ''True'' else ready_condition cs)"

definition isNodeReady :: "Node \<Rightarrow> bool" where
  "isNodeReady node = ready_condition (node_Conditions node)"

definition nodeNotReadyIssue :: "bool \<Rightarrow> NodeIssue" where
  "nodeNotReadyIssue yielded = \<lparr>issue_Type = ''NodeNotReady'', issue_Message =
     (if yielded then ''node has been NotReady for >300s; yielding drain to Kubernetes node lifecycle controller'' @
        [char_of (226::nat), char_of (128::nat), char_of (148::nat)] @
        '' manual verification may be required before marking maintenance complete''
      else ''node is NotReady; drain will resume when the node recovers''),
     PodRef = None\<rparr>"

text \<open>What the operator may write on a node.\<close>

definition operator_annotations :: "string set" where
  "operator_annotations = {ManagedByAnnotation, ReasonAnnotation, CordonedAnnotation}"

definition footprint_ok :: "Node \<Rightarrow> Node \<Rightarrow> bool" where
  "footprint_ok o1 m \<longleftrightarrow> node_Name m = node_Name o1 \<and> node_Conditions m = node_Conditions o1 \<and>
     node_DeletionTimestamp m = node_DeletionTimestamp o1 \<and>
     (\<forall>k. k \<notin> operator_annotations \<longrightarrow> mget (Annotations m) k = mget (Annotations o1) k) \<and>
     (\<forall>k. k \<noteq> InMaintenanceLabel \<longrightarrow> mget (Labels m) k = mget (Labels o1) k)"

text \<open>
  A node patch by the plan named \<open>p\<close> is safe when the object it started from was unowned or
  owned by \<open>p\<close>, and it stays inside the footprint. \<open>patches_safe\<close> says it of a whole trace.
\<close>

definition unclaimed_by_others :: "string \<Rightarrow> Node \<Rightarrow> bool" where
  "unclaimed_by_others p n \<longleftrightarrow> owner_of n = '''' \<or> owner_of n = p"

fun safe_call :: "string \<Rightarrow> call \<Rightarrow> bool" where
  "safe_call p (PatchNode o1 m) = (unclaimed_by_others p o1 \<and> footprint_ok o1 m)"
| "safe_call p _ = True"

definition patches_safe :: "string \<Rightarrow> 'w st \<Rightarrow> bool" where
  "patches_safe p s \<longleftrightarrow> plan_Name (st_plan s) = p \<and> (\<forall>c \<in> set (st_trace s). safe_call p c)"

definition available :: "string \<Rightarrow> string set \<Rightarrow> 'w st \<Rightarrow> bool" where
  "available p B s \<longleftrightarrow> (\<forall>b \<in> B. \<forall>n. st_heap s b = Some n \<longrightarrow> unclaimed_by_others p n)"

section \<open>The contract of a change\<close>

locale node_mutation =
  fixes mut :: "Node \<Rightarrow> Node"
  assumes mut_footprint: "footprint_ok n (mut n)"
begin

lemma mut_name: "node_Name (mut n) = node_Name n"
  using mut_footprint [of n] by (simp add: footprint_ok_def)

lemma mut_ready: "isNodeReady (mut n) = isNodeReady n"
  using mut_footprint [of n] by (simp add: footprint_ok_def isNodeReady_def)

lemma mut_compose: "footprint_ok m n \<Longrightarrow> footprint_ok m (mut n)"
  using mut_footprint [of n] by (simp add: footprint_ok_def)

text \<open>
  One patch from an object nobody else owns keeps the trace safe, whatever the server answers,
  and leaves the other objects alone.
\<close>

lemma triple_patch_safe:
  assumes "a \<notin> B"
  shows "triple (\<lambda>s. patches_safe p s \<and> available p (insert a B) s) (patch_node E a mut)
    (\<lambda>_ s. patches_safe p s \<and> available p B s) (patches_safe p)"
  using assms
  by (intro triple_patch_node)
    (auto simp: patches_safe_def available_def mut_footprint)

end

text \<open>A change that also leaves the mark of ownership alone, as cordon and uncordon do.\<close>

locale owner_keeping = node_mutation +
  assumes mut_owner: "owner_of (mut n) = owner_of n"
begin

lemma mut_unclaimed: "unclaimed_by_others p (mut n) = unclaimed_by_others p n"
  by (simp add: unclaimed_by_others_def mut_owner)

end

lemma cordon_owner: "owner_of (cordon_change n) = owner_of n"
  by (simp add: owner_of_def cordon_change_def gomap_simps)

lemma uncordon_owner: "owner_of (uncordon_change n) = owner_of n"
  by (simp add: owner_of_def uncordon_change_def gomap_simps)

interpretation cordon: owner_keeping cordon_change
proof (unfold_locales, goal_cases)
  case (1 n)
  show ?case by (auto simp: footprint_ok_def cordon_change_def operator_annotations_def gomap_simps)
next
  case (2 n)
  show ?case by (rule cordon_owner)
qed

interpretation uncordon: owner_keeping uncordon_change
proof (unfold_locales, goal_cases)
  case (1 n)
  show ?case by (auto simp: footprint_ok_def uncordon_change_def operator_annotations_def gomap_simps)
next
  case (2 n)
  show ?case by (rule uncordon_owner)
qed

interpretation release: node_mutation release_change
  by unfold_locales
    (auto simp: footprint_ok_def release_change_def operator_annotations_def gomap_simps)

interpretation adopt: node_mutation "adopt_change plan cordon" for plan cordon
  by unfold_locales
    (auto simp: footprint_ok_def adopt_change_def operator_annotations_def gomap_simps Let_def)

section \<open>The operations, under the contract\<close>

lemma release_owner: "owner_of (release_change n) = ''''"
  by (simp add: owner_of_def release_change_def gomap_simps)

lemma adopt_owner: "owner_of (adopt_change plan cordon n) = plan_Name plan"
  by (simp add: owner_of_def adopt_change_def gomap_simps Let_def)

lemma change_unschedulable [simp]:
  "Unschedulable (cordon_change n)" "\<not> Unschedulable (uncordon_change n)"
  "Unschedulable (release_change n) = Unschedulable n"
  "Unschedulable (adopt_change plan cordon n) = (cordon \<or> Unschedulable n)"
  by (simp_all add: cordon_change_def uncordon_change_def release_change_def adopt_change_def Let_def)

lemma change_cordoned [simp]:
  "mget (Annotations (cordon_change n)) CordonedAnnotation = ''true''"
  "mget (Annotations (uncordon_change n)) CordonedAnnotation = ''''"
  "mget (Annotations (release_change n)) CordonedAnnotation = ''''"
  "mget (Annotations (adopt_change plan cordon n)) CordonedAnnotation =
     (if cordon then ''true'' else mget (Annotations n) CordonedAnnotation)"
  by (simp_all add: cordon_change_def uncordon_change_def release_change_def adopt_change_def Let_def gomap_simps)

lemma safe_load:
  "triple (\<lambda>s. patches_safe p s \<and> available p B s) (load_node a)
     (\<lambda>n s. (patches_safe p s \<and> available p B s) \<and> st_heap s a = Some n) (patches_safe p)"
  by (rule triple_load_node) auto

lemma CordonNode_safe:
  assumes "a \<notin> B"
  shows "triple (\<lambda>s. patches_safe p s \<and> available p (insert a B) s) (CordonNode E a)
    (\<lambda>_ s. patches_safe p s \<and> available p B s) (patches_safe p)"
proof -
  have patch: "triple (\<lambda>s. (patches_safe p s \<and> available p (insert a B) s) \<and> st_heap s a = Some n)
      (patch_node E a cordon_change) (\<lambda>_ s. patches_safe p s \<and> available p B s) (patches_safe p)" for n
    by (rule triple_weaken [OF cordon.triple_patch_safe [OF assms]]) auto
  show ?thesis unfolding CordonNode_def
    by (rule triple_bind [OF safe_load], rule triple_if, rule triple_ret, simp add: available_def,
        rule triple_then [OF patch], rule triple_ret)
qed

lemma UncordonNode_safe:
  assumes "a \<notin> B"
  shows "triple (\<lambda>s. patches_safe p s \<and> available p (insert a B) s) (UncordonNode E a)
    (\<lambda>_ s. patches_safe p s \<and> available p B s) (patches_safe p)"
proof -
  have patch: "triple (\<lambda>s. (patches_safe p s \<and> available p (insert a B) s) \<and> st_heap s a = Some n)
      (patch_node E a uncordon_change) (\<lambda>_ s. patches_safe p s \<and> available p B s) (patches_safe p)" for n
    by (rule triple_weaken [OF uncordon.triple_patch_safe [OF assms]]) auto
  show ?thesis unfolding UncordonNode_def
    by (rule triple_bind [OF safe_load], rule triple_if, rule triple_ret, simp add: available_def,
        rule triple_then [OF patch], rule triple_ret)
qed

text \<open>A release looks at the mark itself, so it needs no knowledge of the object.\<close>

lemma ReleaseNode_safe:
  assumes "a \<notin> B"
  shows "triple (\<lambda>s. patches_safe p s \<and> available p B s) (ReleaseNode E a)
    (\<lambda>_ s. patches_safe p s \<and> available p B s) (patches_safe p)"
proof -
  have plan: "triple (\<lambda>s. patches_safe p s \<and> available p B s) get_plan
      (\<lambda>pl s. patches_safe p s \<and> available p B s \<and> plan_Name pl = p) (patches_safe p)"
    by (rule triple_get_plan) (simp add: patches_safe_def)
  have load: "triple (\<lambda>s. patches_safe p s \<and> available p B s \<and> plan_Name pl = p) (load_node a)
      (\<lambda>n s. patches_safe p s \<and> available p B s \<and> plan_Name pl = p \<and> st_heap s a = Some n) (patches_safe p)" for pl
    by (rule triple_load_node) auto
  have patch: "triple (\<lambda>s. patches_safe p s \<and> available p B s \<and> plan_Name pl = p \<and> st_heap s a = Some n)
      (patch_node E a release_change) (\<lambda>_ s. patches_safe p s \<and> available p B s) (patches_safe p)"
    if "mget (Annotations n) ManagedByAnnotation = plan_Name pl" for pl n
    by (rule triple_weaken [OF release.triple_patch_safe [OF assms]])
      (use that in \<open>auto simp: available_def unclaimed_by_others_def owner_of_def\<close>)
  show ?thesis unfolding ReleaseNode_def
    by (rule triple_bind [OF plan], rule triple_bind [OF load])
      (intro triple_if, auto intro!: triple_ret patch)
qed

lemma Eventf_safe:
  "triple (\<lambda>s. patches_safe p s \<and> available p B s) (Eventf r ty re ac no ar)
     (\<lambda>_ s. patches_safe p s \<and> available p B s) (patches_safe p)"
  by (rule triple_Eventf) (simp add: patches_safe_def available_def)

lemma AdoptNode_safe:
  assumes "a \<notin> B"
  shows "triple (\<lambda>s. patches_safe p s \<and> available p (insert a B) s) (AdoptNode E a cordon)
    (\<lambda>_ s. patches_safe p s \<and> available p B s) (patches_safe p)"
proof -
  have plan: "triple (\<lambda>s. patches_safe p s \<and> available p (insert a B) s) get_plan
      (\<lambda>_ s. patches_safe p s \<and> available p (insert a B) s) (patches_safe p)"
    by (rule triple_get_plan)
  have load: "triple (\<lambda>s. patches_safe p s \<and> available p B s) (load_node a)
      (\<lambda>_ s. patches_safe p s \<and> available p B s) (patches_safe p)"
    by (rule triple_weaken [OF safe_load]) auto
  show ?thesis unfolding AdoptNode_def
    by (rule triple_bind [OF plan], rule triple_then [OF adopt.triple_patch_safe [OF assms]],
        rule triple_bind [OF load], intro triple_if Eventf_safe)
qed

section \<open>Runs of the operations\<close>

lemma CordonNode_already:
  assumes "st_heap s a = Some n" "Unschedulable n" "mget (Annotations n) CordonedAnnotation = ''true''"
  shows "CordonNode E a s = (Inr False, s)"
  using assms by (auto simp: CordonNode_def go_bind_def go_run)

lemma UncordonNode_already:
  assumes "st_heap s a = Some n" "\<not> Unschedulable n" "mget (Annotations n) CordonedAnnotation = ''''"
  shows "UncordonNode E a s = (Inr False, s)"
  using assms by (auto simp: UncordonNode_def go_bind_def go_run)

lemma CordonNode_Inr:
  assumes "CordonNode E a s = (Inr changed, t)"
  obtains n where "st_heap s a = Some n"
    and "(changed = False \<and> t = s \<and> Unschedulable n \<and> mget (Annotations n) CordonedAnnotation = ''true'') \<or>
      (changed = True \<and> patch_node E a cordon_change s = (Inr (), t))"
  using assms
  by (auto simp: CordonNode_def go_bind_Inr go_then_Inr load_node_Inr go_ret_def split: if_splits)

lemma UncordonNode_Inr:
  assumes "UncordonNode E a s = (Inr changed, t)"
  obtains n where "st_heap s a = Some n"
    and "(changed = False \<and> t = s \<and> \<not> Unschedulable n \<and> mget (Annotations n) CordonedAnnotation = '''') \<or>
      (changed = True \<and> patch_node E a uncordon_change s = (Inr (), t))"
  using assms
  by (auto simp: UncordonNode_def go_bind_Inr go_then_Inr load_node_Inr go_ret_def split: if_splits)

end
