(* ===== verification/Ownership.thy ===== *)
theory Ownership
  imports Node_Ops Memory_Cluster
begin

text \<open>
  \<open>internal/maintenance/nodes.go\<close> and \<open>ownership.go\<close>: which nodes a plan asks for (an explicit
  list, a selector on the first pass, the frozen snapshot afterwards), which it owns already,
  and the comparison of the two. A Go map from node names to node pointers is an association
  list; iteration goes through \<open>k_range\<close>, so the results are stated for every order. The
  pointers of an \<open>OwnershipResolution\<close> are node names, the addresses of \<open>st_heap\<close>.
\<close>

section \<open>Definitions\<close>

record NodeResolutionResult =
  rr_Nodes :: "Node list"
  rr_Issues :: "NodeIssue list"

record OwnershipResolution =
  ToAdopt :: "string list"
  ToRelease :: "string list"
  Stable :: "string list"
  Conflicting :: "string list"
  res_All :: "string list"
  SnapshotNodes :: "string list option"

definition empty_resolution :: OwnershipResolution where
  "empty_resolution = \<lparr>ToAdopt = [], ToRelease = [], Stable = [], Conflicting = [], res_All = [], SnapshotNodes = None\<rparr>"

definition get_node :: "'w env \<Rightarrow> string \<Rightarrow> ('w, Node) op" where
  "get_node E nm = client_call (GetNode nm) (k_getNode E nm)"

definition resolveExplicitNodes :: "'w env \<Rightarrow> Plan \<Rightarrow> ('w, NodeResolutionResult) op" where
  "resolveExplicitNodes E plan = go_fold (spec_Nodes (Spec plan)) \<lparr>rr_Nodes = [], rr_Issues = []\<rparr> (\<lambda>nodeName result.
     go_bind (go_try (get_node E nodeName)) (\<lambda>r. case r of
       Inl err \<Rightarrow>
         if IsNotFound err then go_ret (result\<lparr>rr_Issues := rr_Issues result @
           [\<lparr>issue_Type = ''NodeNotFound'', issue_Message = ''node '' @ go_quote nodeName @ '' does not exist'', PodRef = None\<rparr>]\<rparr>)
         else go_raise err
     | Inr node \<Rightarrow> go_ret (result\<lparr>rr_Nodes := rr_Nodes result @ [node]\<rparr>)))"

definition resolveSnapshotNodes :: "'w env \<Rightarrow> string list \<Rightarrow> ('w, NodeResolutionResult) op" where
  "resolveSnapshotNodes E names = go_fold names \<lparr>rr_Nodes = [], rr_Issues = []\<rparr> (\<lambda>name result.
     go_bind (go_try (get_node E name)) (\<lambda>r. case r of
       Inl err \<Rightarrow> if IsNotFound err then go_ret result
                  else go_raise (Wrapped (''getting node '' @ go_quote name) err)
     | Inr node \<Rightarrow> go_ret (result\<lparr>rr_Nodes := rr_Nodes result @ [node]\<rparr>)))"

definition resolveSelectorNodes :: "'w env \<Rightarrow> LabelSelector \<Rightarrow> ('w, NodeResolutionResult) op" where
  "resolveSelectorNodes E sel = (case k_LabelSelectorAsSelector E sel of
     Inl err \<Rightarrow> go_raise (Wrapped ''invalid node selector'' err)
   | Inr selector \<Rightarrow>
       go_bind (go_map_err (Wrapped ''listing nodes'') (client_call ListNodes (k_listNodes E (Some selector))))
         (\<lambda>items. go_ret \<lparr>rr_Nodes = items, rr_Issues = (if items = [] then
            [\<lparr>issue_Type = ''NoMatchingNodes'', issue_Message = ''no nodes match the provided selector'', PodRef = None\<rparr>]
            else [])\<rparr>))"

definition ResolveNodes :: "'w env \<Rightarrow> Plan \<Rightarrow> ('w, NodeResolutionResult option) op" where
  "ResolveNodes E plan =
     (if spec_Nodes (Spec plan) \<noteq> [] then go_bind (resolveExplicitNodes E plan) (\<lambda>r. go_ret (Some r))
      else case NodeSelector (Spec plan) of
        Some sel \<Rightarrow> go_bind (resolveSelectorNodes E sel) (\<lambda>r. go_ret (Some r))
      | None \<Rightarrow> go_ret None)"

definition by_name :: "Node list \<Rightarrow> (string \<times> Node) list" where
  "by_name nodes = fold (\<lambda>node m. AList.update (node_Name node) node m) nodes []"

definition ResolveOwnedNodes :: "'w env \<Rightarrow> string \<Rightarrow> ('w, (string \<times> Node) list) op" where
  "ResolveOwnedNodes E planName =
     go_bind (go_map_err (Wrapped ''listing nodes'') (client_call ListNodes (k_listNodes E None)))
       (\<lambda>items. go_ret (by_name (filter (\<lambda>node. mget (Annotations node) ManagedByAnnotation = planName) items)))"

definition own_step :: "(string \<times> Node) list \<Rightarrow> string \<Rightarrow> string \<Rightarrow> OwnershipResolution \<Rightarrow> OwnershipResolution" where
  "own_step desired planName nm res = (case map_of desired nm of
     None \<Rightarrow> res
   | Some node \<Rightarrow>
       (let owner = (if Annotations node \<noteq> None then mget (Annotations node) ManagedByAnnotation else '''');
            res1 = (if owner = '''' then res\<lparr>ToAdopt := ToAdopt res @ [nm]\<rparr>
                    else if owner = planName then res\<lparr>Stable := Stable res @ [nm]\<rparr>
                    else res\<lparr>Conflicting := Conflicting res @ [nm]\<rparr>)
        in res1\<lparr>res_All := res_All res1 @ [nm]\<rparr>))"

definition release_step :: "(string \<times> Node) list \<Rightarrow> string \<Rightarrow> OwnershipResolution \<Rightarrow> OwnershipResolution" where
  "release_step desired nm res =
     (if map_of desired nm = None then res\<lparr>ToRelease := ToRelease res @ [nm]\<rparr> else res)"

definition ComputeOwnership :: "'w env \<Rightarrow> (string \<times> Node) list \<Rightarrow> (string \<times> Node) list \<Rightarrow> string \<Rightarrow> OwnershipResolution" where
  "ComputeOwnership E desired managed planName =
     fold (release_step desired) (k_range E ''managed'' (map fst managed))
       (fold (own_step desired planName) (k_range E ''desired'' (map fst desired)) empty_resolution)"

text \<open>The node objects the resolution points to: a desired one hides a managed one.\<close>

definition point_to :: "(string \<times> Node) list \<Rightarrow> (string \<times> Node) list \<Rightarrow> ('w, unit) op" where
  "point_to desired managed = go_modify (\<lambda>s. s\<lparr>st_heap := map_of (desired @ managed)\<rparr>)"

definition desired_nodes :: "'w env \<Rightarrow> Plan \<Rightarrow> ('w, NodeResolutionResult option \<times> string list option) op" where
  "desired_nodes E plan = (case NodeSelector (Spec plan) of
     Some sel \<Rightarrow>
       if NodeSnapshotTaken (Status plan) then
         go_bind (go_map_err (Wrapped ''resolving snapshot nodes'') (resolveSnapshotNodes E (ResolvedNodes (Status plan))))
           (\<lambda>r. go_ret (Some r, None))
       else
         go_bind (go_map_err (Wrapped ''resolving selector nodes'') (resolveSelectorNodes E sel))
           (\<lambda>r. go_ret (Some r, Some (map node_Name (rr_Nodes r))))
   | None \<Rightarrow>
       go_bind (go_map_err (Wrapped ''resolving desired nodes'') (ResolveNodes E plan)) (\<lambda>r. go_ret (r, None)))"

definition ComputeOwnershipResolution :: "'w env \<Rightarrow> ('w, OwnershipResolution) op" where
  "ComputeOwnershipResolution E = go_bind get_plan (\<lambda>plan.
     go_bind (desired_nodes E plan) (\<lambda>(result, snapshotNodes).
       let desired = (case result of None \<Rightarrow> [] | Some r \<Rightarrow> by_name (rr_Nodes r))
       in go_bind (go_map_err (Wrapped ''resolving owned nodes'') (ResolveOwnedNodes E (plan_Name plan)))
            (\<lambda>managed. go_then (point_to desired managed)
               (go_ret ((ComputeOwnership E desired managed (plan_Name plan))\<lparr>SnapshotNodes := snapshotNodes\<rparr>)))))"

text \<open>Go's \<open>range\<close> over a map visits every key once, in some order.\<close>

definition range_laws :: "'w env \<Rightarrow> bool" where
  "range_laws E \<longleftrightarrow> (\<forall>site ks. mset (k_range E site ks) = mset ks)"

text \<open>
  What the rest of a pass relies on: the four lists name different objects, and their owners
  are as the names of the lists say. With \<open>range_laws\<close> the resolution has it.
\<close>

definition resolution_ok :: "string \<Rightarrow> (string \<Rightarrow> Node option) \<Rightarrow> OwnershipResolution \<Rightarrow> bool" where
  "resolution_ok planName heap res \<longleftrightarrow>
     distinct (ToAdopt res @ Stable res @ Conflicting res @ ToRelease res) \<and>
     mset (res_All res) = mset (ToAdopt res) + mset (Stable res) + mset (Conflicting res) \<and>
     (\<forall>a \<in> set (ToAdopt res). \<exists>n. heap a = Some n \<and> owner_of n = '''') \<and>
     (\<forall>a \<in> set (Stable res). \<exists>n. heap a = Some n \<and> owner_of n = planName) \<and>
     (\<forall>a \<in> set (Conflicting res). \<exists>n. heap a = Some n \<and> owner_of n \<noteq> '''' \<and> owner_of n \<noteq> planName) \<and>
     (\<forall>a \<in> set (ToRelease res). \<exists>n. heap a = Some n \<and> owner_of n = planName)"

section \<open>Lemmas\<close>

lemma by_name_distinct: "distinct (map fst (by_name nodes))"
proof -
  have "distinct (map fst m) \<Longrightarrow> distinct (map fst (fold (\<lambda>node m. AList.update (node_Name node) node m) nodes m))" for m
    by (induction nodes arbitrary: m) (auto simp: distinct_update)
  then show ?thesis by (simp add: by_name_def)
qed

lemma by_name_keyed: "map_of (by_name nodes) k = Some n \<Longrightarrow> n \<in> set nodes \<and> node_Name n = k"
proof -
  have "map_of (fold (\<lambda>node m. AList.update (node_Name node) node m) nodes m) k = Some n \<Longrightarrow>
      (n \<in> set nodes \<and> node_Name n = k) \<or> map_of m k = Some n" for m
    by (induction nodes arbitrary: m) (force simp: update_conv split: if_splits)+
  from this [of "[]"] show "map_of (by_name nodes) k = Some n \<Longrightarrow> n \<in> set nodes \<and> node_Name n = k"
    by (simp add: by_name_def)
qed

lemma by_name_dom: "set (map fst (by_name nodes)) = node_Name ` set nodes"
proof -
  have "fst ` set (fold (\<lambda>node m. AList.update (node_Name node) node m) nodes m) = node_Name ` set nodes \<union> fst ` set m" for m
    by (induction nodes arbitrary: m) (auto simp: dom_update)
  then show ?thesis by (simp add: by_name_def)
qed

lemma range_set: "range_laws E \<Longrightarrow> set (k_range E site ks) = set ks"
  by (metis range_laws_def mset_eq_setD)

lemma range_distinct: "range_laws E \<Longrightarrow> distinct (k_range E site ks) = distinct ks"
  by (metis range_laws_def mset_eq_imp_distinct_iff)

text \<open>The two loops are filters of the order of iteration.\<close>

definition desired_owner :: "(string \<times> Node) list \<Rightarrow> string \<Rightarrow> string option" where
  "desired_owner desired nm = map_option owner_of (map_of desired nm)"

lemma own_step_owner:
  "own_step desired planName nm res = (case desired_owner desired nm of
     None \<Rightarrow> res
   | Some owner \<Rightarrow>
       (if owner = '''' then res\<lparr>ToAdopt := ToAdopt res @ [nm], res_All := res_All res @ [nm]\<rparr>
        else if owner = planName then res\<lparr>Stable := Stable res @ [nm], res_All := res_All res @ [nm]\<rparr>
        else res\<lparr>Conflicting := Conflicting res @ [nm], res_All := res_All res @ [nm]\<rparr>))"
  by (auto simp: own_step_def desired_owner_def owner_of_def Let_def split: option.splits)

lemma own_loop:
  "fold (own_step desired planName) nms res =
     res\<lparr>ToAdopt := ToAdopt res @ filter (\<lambda>nm. desired_owner desired nm = Some '''') nms,
         Stable := Stable res @ filter (\<lambda>nm. desired_owner desired nm = Some planName \<and> planName \<noteq> '''') nms,
         Conflicting := Conflicting res @ filter (\<lambda>nm. \<exists>ow. desired_owner desired nm = Some ow \<and> ow \<noteq> '''' \<and> ow \<noteq> planName) nms,
         res_All := res_All res @ filter (\<lambda>nm. desired_owner desired nm \<noteq> None) nms\<rparr>"
proof (induction nms arbitrary: res)
  case Nil
  show ?case by simp
next
  case (Cons nm nms)
  show ?case
    by (cases "desired_owner desired nm")
      (simp_all add: Cons.IH own_step_owner [of desired planName nm res])
qed

lemma release_loop:
  "fold (release_step desired) nms res =
     res\<lparr>ToRelease := ToRelease res @ filter (\<lambda>nm. map_of desired nm = None) nms\<rparr>"
  by (induction nms arbitrary: res) (auto simp: release_step_def)

lemma ComputeOwnership_lists:
  "ToAdopt (ComputeOwnership E desired managed p) =
     filter (\<lambda>nm. desired_owner desired nm = Some '''') (k_range E ''desired'' (map fst desired))"
  "Stable (ComputeOwnership E desired managed p) =
     filter (\<lambda>nm. desired_owner desired nm = Some p \<and> p \<noteq> '''') (k_range E ''desired'' (map fst desired))"
  "Conflicting (ComputeOwnership E desired managed p) =
     filter (\<lambda>nm. \<exists>ow. desired_owner desired nm = Some ow \<and> ow \<noteq> '''' \<and> ow \<noteq> p) (k_range E ''desired'' (map fst desired))"
  "res_All (ComputeOwnership E desired managed p) =
     filter (\<lambda>nm. desired_owner desired nm \<noteq> None) (k_range E ''desired'' (map fst desired))"
  "ToRelease (ComputeOwnership E desired managed p) =
     filter (\<lambda>nm. map_of desired nm = None) (k_range E ''managed'' (map fst managed))"
  by (simp_all add: ComputeOwnership_def own_loop release_loop empty_resolution_def)

lemma mset_by_owner:
  "mset (filter (\<lambda>nm. f nm \<noteq> None) nms) = mset (filter (\<lambda>nm. f nm = Some a) nms) +
     mset (filter (\<lambda>nm. f nm = Some b \<and> b \<noteq> a) nms) +
     mset (filter (\<lambda>nm. \<exists>ow. f nm = Some ow \<and> ow \<noteq> a \<and> ow \<noteq> b) nms)"
proof (induction nms)
  case Nil
  show ?case by simp
next
  case (Cons nm nms)
  then show ?case by (cases "f nm") auto
qed

section \<open>Properties\<close>

text \<open>
  C28. Whatever order Go ranges over the maps in, the resolution sorts the desired nodes by
  their mark (unmarked, ours, somebody else's), each exactly once, and releases exactly the
  nodes that carry our mark and are not desired.
\<close>

theorem ComputeOwnership_partition:
  assumes range: "range_laws E"
    and res: "res = ComputeOwnership E desired managed p" and p: "p \<noteq> ''''"
  shows "mset (res_All res) = mset (map fst desired) \<and>
    mset (res_All res) = mset (ToAdopt res) + mset (Stable res) + mset (Conflicting res) \<and>
    set (ToAdopt res) = {nm. desired_owner desired nm = Some ''''} \<and>
    set (Stable res) = {nm. desired_owner desired nm = Some p} \<and>
    set (Conflicting res) = {nm. \<exists>ow. desired_owner desired nm = Some ow \<and> ow \<noteq> '''' \<and> ow \<noteq> p} \<and>
    set (ToRelease res) = set (map fst managed) - set (map fst desired)"
proof -
  let ?order = "k_range E ''desired'' (map fst desired)"
  have dom: "desired_owner desired nm \<noteq> None \<longleftrightarrow> nm \<in> set (map fst desired)" for nm
    by (simp add: desired_owner_def map_of_eq_None_iff)
  have "filter (\<lambda>nm. desired_owner desired nm \<noteq> None) ?order = ?order"
    by (rule filter_True) (use dom range_set [OF range] in blast)
  then have all: "mset (res_All res) = mset (map fst desired)"
    using range by (simp add: res ComputeOwnership_lists range_laws_def)
  have in_order: "nm \<in> set ?order \<longleftrightarrow> nm \<in> set (map fst desired)" for nm
    using range_set [OF range] by blast
  have sets: "set (ToAdopt res) = {nm. desired_owner desired nm = Some ''''}"
    "set (Stable res) = {nm. desired_owner desired nm = Some p}"
    "set (Conflicting res) = {nm. \<exists>ow. desired_owner desired nm = Some ow \<and> ow \<noteq> '''' \<and> ow \<noteq> p}"
    unfolding res ComputeOwnership_lists set_filter in_order using dom p by blast+
  have "set (ToRelease res) = set (map fst managed) - set (map fst desired)"
    unfolding res ComputeOwnership_lists set_filter range_set [OF range] by (auto simp: map_of_eq_None_iff)
  moreover have "mset (res_All res) = mset (ToAdopt res) + mset (Stable res) + mset (Conflicting res)"
    unfolding res ComputeOwnership_lists by (rule mset_by_owner)
  ultimately show ?thesis using all sets by blast
qed

theorem ComputeOwnership_partition_witness:
  "set (ToAdopt (ComputeOwnership memory_env [(''a'', example_node ''a'')] [(''b'', example_node ''b'')] ''p'')) = {''a''} \<and>
   set (ToRelease (ComputeOwnership memory_env [(''a'', example_node ''a'')] [(''b'', example_node ''b'')] ''p'')) = {''b''}"
proof -
  have "range_laws memory_env" by (simp add: range_laws_def)
  then show ?thesis
    using ComputeOwnership_partition [of memory_env _ "[(''a'', example_node ''a'')]" "[(''b'', example_node ''b'')]" "''p''"]
    by (auto simp: desired_owner_def owner_of_def example_node_def)
qed

section \<open>What the rest of a pass relies on\<close>

lemma resolution_ok_ComputeOwnership:
  assumes range: "range_laws E" and d: "distinct (map fst desired)" and m: "distinct (map fst managed)"
    and owned: "\<And>nm n. map_of managed nm = Some n \<Longrightarrow> owner_of n = p"
  shows "resolution_ok p (map_of (desired @ managed)) ((ComputeOwnership E desired managed p)\<lparr>SnapshotNodes := sn\<rparr>)"
proof -
  let ?d = "k_range E ''desired'' (map fst desired)" and ?m = "k_range E ''managed'' (map fst managed)"
  let ?res = "ComputeOwnership E desired managed p"
  have dd: "distinct ?d" "distinct ?m" using range_distinct [OF range] d m by blast+
  have look: "map_of (desired @ managed) nm = map_of desired nm" if "map_of desired nm \<noteq> None" for nm
    using that by (auto simp: map_add_def split: option.splits)
  have lookm: "map_of (desired @ managed) nm = map_of managed nm" if "map_of desired nm = None" for nm
    using that by (auto simp: map_add_def split: option.splits)
  have dist: "distinct (ToAdopt ?res @ Stable ?res @ Conflicting ?res @ ToRelease ?res)"
    unfolding ComputeOwnership_lists using dd
    by (auto simp: desired_owner_def)
  have all: "mset (res_All ?res) = mset (ToAdopt ?res) + mset (Stable ?res) + mset (Conflicting ?res)"
    unfolding ComputeOwnership_lists by (rule mset_by_owner)
  have own: "\<exists>n. map_of (desired @ managed) a = Some n \<and> owner_of n = ow" if "desired_owner desired a = Some ow" for a ow
    using that look [of a] by (auto simp: desired_owner_def)
  have adopt: "\<exists>n. map_of (desired @ managed) a = Some n \<and> owner_of n = ''''" if "a \<in> set (ToAdopt ?res)" for a
    by (rule own) (use that in \<open>simp add: ComputeOwnership_lists\<close>)
  have stable: "\<exists>n. map_of (desired @ managed) a = Some n \<and> owner_of n = p" if "a \<in> set (Stable ?res)" for a
    by (rule own) (use that in \<open>simp add: ComputeOwnership_lists\<close>)
  have conflict: "\<exists>n. map_of (desired @ managed) a = Some n \<and> owner_of n \<noteq> '''' \<and> owner_of n \<noteq> p"
    if "a \<in> set (Conflicting ?res)" for a
  proof -
    from that obtain ow where "desired_owner desired a = Some ow" "ow \<noteq> ''''" "ow \<noteq> p"
      by (auto simp: ComputeOwnership_lists)
    with own [of a ow] show ?thesis by blast
  qed
  have rel: "\<exists>n. map_of (desired @ managed) a = Some n \<and> owner_of n = p" if "a \<in> set (ToRelease ?res)" for a
  proof -
    from that have "map_of desired a = None" "a \<in> set (map fst managed)"
      unfolding ComputeOwnership_lists using range_set [OF range] by auto
    moreover from this(2) obtain n where "map_of managed a = Some n"
      by (metis map_of_eq_None_iff not_Some_eq set_map)
    ultimately show ?thesis using lookm owned by auto
  qed
  have fields: "ToAdopt (?res\<lparr>SnapshotNodes := sn\<rparr>) = ToAdopt ?res" "Stable (?res\<lparr>SnapshotNodes := sn\<rparr>) = Stable ?res"
    "Conflicting (?res\<lparr>SnapshotNodes := sn\<rparr>) = Conflicting ?res" "ToRelease (?res\<lparr>SnapshotNodes := sn\<rparr>) = ToRelease ?res"
    "res_All (?res\<lparr>SnapshotNodes := sn\<rparr>) = res_All ?res"
    by simp_all
  show ?thesis
    unfolding resolution_ok_def fields
    by (intro conjI ballI dist all adopt stable conflict rel)
qed

lemma by_name_owned: "map_of (by_name (filter (\<lambda>n. mget (Annotations n) ManagedByAnnotation = p) ns)) nm = Some n \<Longrightarrow> owner_of n = p"
  using by_name_keyed by (fastforce simp: owner_of_def)

text \<open>Nothing of the resolution writes to a node, so it may follow any safe trace.\<close>

lemma triple_of_effects:
  fixes m :: "('w, 'a) op"
  assumes "obeys same_pass m" "obeys (trace_within (safe_call p)) m"
  shows "triple (patches_safe p) m (\<lambda>_. patches_safe p) (patches_safe p)"
  unfolding triple_def
proof (intro allI impI)
  fix s :: "'w st"
  assume s: "patches_safe p s"
  obtain r t where rt: "m s = (r, t)" by force
  have "same_pass s t" "trace_within (safe_call p) s t" using assms rt by (auto dest: obeysD)
  with s have "patches_safe p t" by (auto simp: patches_safe_def same_pass_def trace_within_def list_all_iff)
  with rt show "case m s of (Inl e, t) \<Rightarrow> patches_safe p t | (Inr x, t) \<Rightarrow> patches_safe p t"
    by (simp split: sum.splits)
qed

lemma get_node_effects: "obeys same_pass (get_node E nm)" "ok (GetNode nm) \<Longrightarrow> obeys (trace_within ok) (get_node E nm)"
  by (simp_all add: get_node_def own_client_call tr_client_call)

lemma desired_nodes_effects:
  "obeys same_pass (desired_nodes E plan)" "obeys (trace_within (safe_call p)) (desired_nodes E plan)"
  unfolding desired_nodes_def ResolveNodes_def resolveExplicitNodes_def resolveSnapshotNodes_def resolveSelectorNodes_def
  by (intro own.obeys_intros own_prims get_node_effects, intro tr.obeys_intros tr_prims get_node_effects) simp_all

lemma ResolveOwnedNodes_effects:
  "obeys same_pass (ResolveOwnedNodes E nm)" "obeys (trace_within (safe_call p)) (ResolveOwnedNodes E nm)"
  unfolding ResolveOwnedNodes_def
  by (intro own.obeys_intros own_prims, intro tr.obeys_intros tr_prims) simp

lemma ResolveOwnedNodes_result:
  "ResolveOwnedNodes E nm s = (Inr owned, t) \<Longrightarrow>
     distinct (map fst owned) \<and> (\<forall>a n. map_of owned a = Some n \<longrightarrow> owner_of n = nm)"
  by (auto simp: ResolveOwnedNodes_def go_Inr go_ret_def by_name_distinct dest: by_name_owned)

lemma triple_resolve_owned:
  "triple (\<lambda>s. patches_safe p s) (ResolveOwnedNodes E nm)
     (\<lambda>owned s. patches_safe p s \<and> distinct (map fst owned) \<and> (\<forall>a n. map_of owned a = Some n \<longrightarrow> owner_of n = nm))
     (patches_safe p)"
  using triple_of_effects [OF ResolveOwnedNodes_effects(1) ResolveOwnedNodes_effects(2), of p E nm]
    ResolveOwnedNodes_result [of E nm]
  by (fastforce simp: triple_def split: prod.splits sum.splits)

end
