(* ===== verification/Drift.thy ===== *)
theory Drift
  imports Schedule Ownership
begin

text \<open>
  \<open>internal/maintenance/drift.go\<close> and \<open>reconcile_drift.go\<close>: when a node the plan owns has been
  cordoned or uncordoned behind the operator's back, and what the operator does about it.
\<close>

section \<open>Definitions\<close>

abbreviation "DriftReasonManualUncordon \<equiv> ''ManualUncordon''"
abbreviation "DriftReasonExternalCordon \<equiv> ''ExternalCordon''"
abbreviation "DriftReasonMaintenanceComplete \<equiv> ''MaintenanceComplete''"

definition DetectNodeDrift :: "Node \<Rightarrow> Plan \<Rightarrow> bool \<times> string" where
  "DetectNodeDrift node plan =
     (if Annotations node = None then (False, '''')
      else if mget (Annotations node) ManagedByAnnotation \<noteq> plan_Name plan then (False, '''')
      else let operatorCordoned = (mget (Annotations node) CordonedAnnotation = ''true'') in
        if cordonEnabled plan \<and> operatorCordoned \<and> \<not> Unschedulable node then
          (if list_ex (\<lambda>ns. ns_Name ns = node_Name node \<and> ReadyForMaintenance ns) (status_Nodes (Status plan))
           then (True, DriftReasonMaintenanceComplete)
           else (True, DriftReasonManualUncordon))
        else if \<not> cordonEnabled plan \<and> \<not> operatorCordoned \<and> Unschedulable node then
          (True, DriftReasonExternalCordon)
        else (False, ''''))"

definition find_status :: "Plan \<Rightarrow> string \<Rightarrow> NodeStatus option" where
  "find_status plan nodeName = find (\<lambda>ns. ns_Name ns = nodeName) (status_Nodes (Status plan))"

definition GetNodeDriftState :: "Plan \<Rightarrow> string \<Rightarrow> bool \<times> string" where
  "GetNodeDriftState plan nodeName = (case find_status plan nodeName of
     None \<Rightarrow> (False, '''') | Some ns \<Rightarrow> (ns_Drifted ns, DriftReason ns))"

definition nodeCompletedMaintenance :: "Plan \<Rightarrow> string \<Rightarrow> bool" where
  "nodeCompletedMaintenance plan nodeName = (case find_status plan nodeName of
     None \<Rightarrow> False | Some ns \<Rightarrow> ReadyForMaintenance ns)"

definition drift_node :: "'w env \<Rightarrow> Plan \<Rightarrow> string \<Rightarrow> ('w, unit) op" where
  "drift_node E plan a = go_bind (load_node a) (\<lambda>node.
     case DetectNodeDrift node plan of (drifted, reason) \<Rightarrow>
       if \<not> drifted then go_ret ()
       else if reason = DriftReasonMaintenanceComplete then
         go_then (Eventf (Some (node_Name node)) EventTypeNormal ''MaintenanceComplete'' ''ReleaseNode''
           ''node %q returned to service after maintenance: ownership released'' [AStr (node_Name node)])
         (go_map_err (Wrapped (''releasing maintenance-complete node '' @ go_quote (node_Name node))) (ReleaseNode E a))
       else if reason = DriftReasonManualUncordon then
         go_then (Eventf (Some (node_Name node)) EventTypeWarning ''DriftDetected'' ''ReleaseNode''
           ''node %q drifted (%s): ownership released. Remove and re-add the node to the plan spec to resume management.''
           [AStr (node_Name node), AStr reason])
         (go_map_err (Wrapped (''releasing drifted node '' @ go_quote (node_Name node))) (ReleaseNode E a))
       else if reason = DriftReasonExternalCordon then
         Eventf (Some (node_Name node)) EventTypeWarning ''DriftDetected'' ''ObserveNode''
           ''node %q drifted (%s): externally cordoned while cordon is disabled, operator will not interfere''
           [AStr (node_Name node), AStr reason]
       else go_ret ())"

definition ReconcileDrift :: "'w env \<Rightarrow> OwnershipResolution \<Rightarrow> ('w, unit) op" where
  "ReconcileDrift E res = go_bind get_plan (\<lambda>plan. go_for (Stable res) (drift_node E plan))"

text \<open>The three situations, in the words of the documentation.\<close>

definition operator_cordoned :: "Node \<Rightarrow> bool" where
  "operator_cordoned node \<longleftrightarrow> mget (Annotations node) CordonedAnnotation = ''true''"

definition was_uncordoned :: "Plan \<Rightarrow> Node \<Rightarrow> bool" where
  "was_uncordoned plan node \<longleftrightarrow> cordonEnabled plan \<and> operator_cordoned node \<and> \<not> Unschedulable node"

definition was_cordoned_externally :: "Plan \<Rightarrow> Node \<Rightarrow> bool" where
  "was_cordoned_externally plan node \<longleftrightarrow> \<not> cordonEnabled plan \<and> \<not> operator_cordoned node \<and> Unschedulable node"

definition reported_ready :: "Plan \<Rightarrow> string \<Rightarrow> bool" where
  "reported_ready plan nm \<longleftrightarrow> (\<exists>ns \<in> set (status_Nodes (Status plan)). ns_Name ns = nm \<and> ReadyForMaintenance ns)"

section \<open>Lemmas\<close>

lemma DetectNodeDrift_unowned:
  "owner_of node \<noteq> plan_Name plan \<Longrightarrow> DetectNodeDrift node plan = (False, '''')"
  by (simp add: DetectNodeDrift_def owner_of_def)

lemma DetectNodeDrift_owned:
  assumes "owner_of node = plan_Name plan" "plan_Name plan \<noteq> ''''"
  shows "DetectNodeDrift node plan =
    (if was_uncordoned plan node then
       (True, if reported_ready plan (node_Name node) then DriftReasonMaintenanceComplete else DriftReasonManualUncordon)
     else if was_cordoned_externally plan node then (True, DriftReasonExternalCordon)
     else (False, ''''))"
  using assms
  by (auto simp: DetectNodeDrift_def owner_of_def was_uncordoned_def was_cordoned_externally_def
      operator_cordoned_def reported_ready_def list_ex_iff Let_def)

lemma find_status_Some: "find_status plan nm = Some ns \<Longrightarrow> ns \<in> set (status_Nodes (Status plan)) \<and> ns_Name ns = nm"
  by (auto simp: find_status_def find_Some_iff)

lemma drift_node_safe:
  assumes "a \<notin> B"
  shows "triple (\<lambda>s. patches_safe p s \<and> available p B s) (drift_node E plan a)
    (\<lambda>_ s. patches_safe p s \<and> available p B s) (patches_safe p)"
proof -
  have load: "triple (\<lambda>s. patches_safe p s \<and> available p B s) (load_node a)
      (\<lambda>_ s. patches_safe p s \<and> available p B s) (patches_safe p)"
    by (rule triple_weaken [OF safe_load]) auto
  have release: "triple (\<lambda>s. patches_safe p s \<and> available p B s)
      (go_then (Eventf r ty re ac no ar) (go_map_err f (ReleaseNode E a)))
      (\<lambda>_ s. patches_safe p s \<and> available p B s) (patches_safe p)" for r ty re ac no ar f
    by (rule triple_then [OF Eventf_safe], rule triple_map_err, rule ReleaseNode_safe [OF assms])
  have body: "triple (\<lambda>s. patches_safe p s \<and> available p B s)
      (case x of (drifted, reason) \<Rightarrow> if \<not> drifted then go_ret () else k reason)
      (\<lambda>_ s. patches_safe p s \<and> available p B s) (patches_safe p)"
    if "\<And>reason. triple (\<lambda>s. patches_safe p s \<and> available p B s) (k reason)
      (\<lambda>_ s. patches_safe p s \<and> available p B s) (patches_safe p)" for x :: "bool \<times> string" and k
    using that by (cases x) (auto intro!: triple_if triple_ret)
  show ?thesis unfolding drift_node_def
    by (rule triple_bind [OF load], rule body)
      (intro triple_if release Eventf_safe triple_ret; simp)
qed

lemma ReconcileDrift_safe:
  assumes "set (Stable res) \<inter> B = {}"
  shows "triple (\<lambda>s. patches_safe p s \<and> available p B s) (ReconcileDrift E res)
    (\<lambda>_ s. patches_safe p s \<and> available p B s) (patches_safe p)"
  unfolding ReconcileDrift_def
  by (rule triple_bind, rule triple_get_plan, assumption, rule triple_for)
    (use assms in \<open>auto intro!: drift_node_safe\<close>)

section \<open>Properties\<close>

text \<open>
  Drift of an owned node is one of three things: uncordoned after it was reported ready
  (maintenance complete), uncordoned before (manual uncordon), or cordoned by somebody else
  while the plan does not cordon; in every other state, and for every node the plan does not
  own, there is none.
\<close>

theorem DetectNodeDrift_cases:
  assumes "plan_Name plan \<noteq> ''''"
  shows "DetectNodeDrift node plan =
    (if owner_of node = plan_Name plan \<and> was_uncordoned plan node \<and> reported_ready plan (node_Name node)
       then (True, DriftReasonMaintenanceComplete)
     else if owner_of node = plan_Name plan \<and> was_uncordoned plan node then (True, DriftReasonManualUncordon)
     else if owner_of node = plan_Name plan \<and> was_cordoned_externally plan node then (True, DriftReasonExternalCordon)
     else (False, ''''))"
  using assms by (cases "owner_of node = plan_Name plan") (simp_all add: DetectNodeDrift_owned DetectNodeDrift_unowned)

theorem DetectNodeDrift_cases_witness:
  "DetectNodeDrift (adopt_change (example_plan ''p'' [''n1'']) True (example_node ''n1'')\<lparr>Unschedulable := False\<rparr>)
     (example_plan ''p'' [''n1'']) = (True, DriftReasonManualUncordon)"
proof -
  let ?n = "adopt_change (example_plan ''p'' [''n1'']) True (example_node ''n1'')\<lparr>Unschedulable := False\<rparr>"
  have "plan_Name (example_plan ''p'' [''n1'']) \<noteq> ''''" by (simp add: example_plan_def)
  note d = DetectNodeDrift_cases [OF this, of ?n]
  have "owner_of ?n = ''p''"
    using adopt_owner [of "example_plan ''p'' [''n1'']" True "example_node ''n1''"]
    by (simp add: owner_of_def example_plan_def)
  moreover have "operator_cordoned ?n" by (simp add: operator_cordoned_def)
  ultimately show ?thesis
    using d by (simp add: was_uncordoned_def cordonEnabled_def reported_ready_def example_plan_def example_spec_def empty_status_def)
qed

end
