(* ===== verification/Reconcile_Ops.thy ===== *)
theory Reconcile_Ops
  imports Drift
begin

text \<open>
  \<open>internal/maintenance/reconcile.go\<close> and \<open>CleanUp\<close> of \<open>cleanup.go\<close>: adopting the nodes nobody
  owns, keeping the cordon of the owned ones as the plan says, giving back the nodes that left
  the plan, and giving everything back when the plan is deleted. Each operation is shown to
  patch only nodes that are unowned or owned by this plan.
\<close>

section \<open>Definitions\<close>

definition conflict_event :: "string \<Rightarrow> ('w, unit) op" where
  "conflict_event a = go_bind (load_node a) (\<lambda>node.
     Eventf (Some (node_Name node)) EventTypeWarning ''OwnershipConflict'' ''SkipNode''
       ''node %q already managed by another plan'' [AStr (node_Name node)])"

definition adopt_one :: "'w env \<Rightarrow> Plan \<Rightarrow> bool \<Rightarrow> string \<Rightarrow> ('w, unit) op" where
  "adopt_one E plan cordonNow a = go_bind (load_node a) (\<lambda>node.
     if fst (GetNodeDriftState plan (node_Name node)) then go_ret ()
     else if nodeCompletedMaintenance plan (node_Name node) then go_ret ()
     else go_map_err (Wrapped (''adopting node '' @ go_quote (node_Name node)))
            (AdoptNode E a (cordonEnabled plan \<and> cordonNow)))"

definition ReconcileOwnership :: "'w env \<Rightarrow> OwnershipResolution \<Rightarrow> bool \<Rightarrow> ('w, unit) op" where
  "ReconcileOwnership E res cordonNow =
     go_then (go_for (Conflicting res) conflict_event)
       (go_bind get_plan (\<lambda>plan. go_for (ToAdopt res) (adopt_one E plan cordonNow)))"

definition cordon_stable :: "'w env \<Rightarrow> Plan \<Rightarrow> string \<Rightarrow> ('w, unit) op" where
  "cordon_stable E plan a = go_bind (load_node a) (\<lambda>node.
     if mget (Annotations node) ManagedByAnnotation \<noteq> plan_Name plan then go_ret ()
     else if cordonEnabled plan then
       go_bind (go_map_err (Wrapped (''cordoning node '' @ go_quote (node_Name node))) (CordonNode E a)) (\<lambda>changed.
         go_when changed (go_bind (load_node a) (\<lambda>n.
           Eventf (Some (node_Name n)) EventTypeNormal ''NodeCordoned'' ''CordonNode'' ''node %q cordoned'' [AStr (node_Name n)])))
     else if Unschedulable node \<and> mget (Annotations node) CordonedAnnotation \<noteq> ''true'' then go_ret ()
     else
       go_bind (go_map_err (Wrapped (''uncordoning node '' @ go_quote (node_Name node))) (UncordonNode E a)) (\<lambda>changed.
         go_when changed (go_bind (load_node a) (\<lambda>n.
           Eventf (Some (node_Name n)) EventTypeNormal ''NodeUncordoned'' ''UncordonNode'' ''node %q uncordoned'' [AStr (node_Name n)]))))"

definition give_back :: "'w env \<Rightarrow> string \<Rightarrow> string \<Rightarrow> string \<Rightarrow> string \<Rightarrow> ('w, unit) op" where
  "give_back E uncordoning releasing note a = go_bind (load_node a) (\<lambda>node.
     go_then (go_map_err (Wrapped uncordoning) (UncordonNode E a))
     (go_then (go_map_err (Wrapped releasing) (ReleaseNode E a))
     (go_bind (load_node a) (\<lambda>n.
        Eventf (Some (node_Name n)) EventTypeNormal ''NodeReleased'' ''ReleaseNode'' note [AStr (node_Name n)]))))"

definition release_one :: "'w env \<Rightarrow> string \<Rightarrow> ('w, unit) op" where
  "release_one E a = go_bind (load_node a) (\<lambda>node.
     give_back E (''uncordoning node '' @ go_quote (node_Name node)) (''releasing node '' @ go_quote (node_Name node))
       ''node %q removed from plan spec, uncordoned and released'' a)"

definition ReconcileCordon :: "'w env \<Rightarrow> OwnershipResolution \<Rightarrow> ('w, unit) op" where
  "ReconcileCordon E res = go_bind get_plan (\<lambda>plan.
     go_then (go_for (Stable res) (cordon_stable E plan)) (go_for (ToRelease res) (release_one E)))"

definition clean_one :: "'w env \<Rightarrow> string \<Rightarrow> ('w, unit) op" where
  "clean_one E a = go_bind (load_node a) (\<lambda>node.
     give_back E (''uncordoning node '' @ go_quote (node_Name node) @ '' during cleanup'')
       (''releasing node '' @ go_quote (node_Name node) @ '' during cleanup'')
       ''node %q uncordoned and released as part of plan deletion'' a)"

definition CleanUp :: "'w env \<Rightarrow> ('w, unit) op" where
  "CleanUp E = go_bind get_plan (\<lambda>plan.
     go_bind (go_map_err (Wrapped ''resolving owned nodes'') (ResolveOwnedNodes E (plan_Name plan))) (\<lambda>owned.
       go_then (point_to [] owned)
         (go_for (k_range E ''owned'' (map fst owned)) (clean_one E))))"

section \<open>Lemmas\<close>

text \<open>
  The shape all the safety lemmas have: the operation works on the object at \<open>a\<close>, the
  objects in \<open>B\<close> stay available.
\<close>

abbreviation (input) safe_on :: "string \<Rightarrow> string set \<Rightarrow> 'w st \<Rightarrow> bool" where
  "safe_on p B s \<equiv> patches_safe p s \<and> available p B s"

lemma triple_load_safe:
  "triple (\<lambda>s. safe_on p B s) (load_node a) (\<lambda>_ s. safe_on p B s) (patches_safe p)"
  by (rule triple_weaken [OF safe_load]) auto

lemma triple_load_owned:
  "triple (\<lambda>s. safe_on p B s) (load_node a) (\<lambda>n s. safe_on p (if unclaimed_by_others p n then insert a B else B) s) (patches_safe p)"
  by (rule triple_load_node) (auto simp: available_def)

lemma conflict_event_safe: "triple (\<lambda>s. safe_on p B s) (conflict_event a) (\<lambda>_ s. safe_on p B s) (patches_safe p)"
  unfolding conflict_event_def by (rule triple_bind [OF triple_load_safe], rule Eventf_safe)

lemma adopt_one_safe:
  assumes "a \<notin> B"
  shows "triple (\<lambda>s. safe_on p (insert a B) s) (adopt_one E plan now a) (\<lambda>_ s. safe_on p B s) (patches_safe p)"
  unfolding adopt_one_def
  by (rule triple_bind [OF triple_load_safe], intro triple_if triple_ret triple_map_err AdoptNode_safe [OF assms])
    (auto simp: available_def)

lemma triple_for_each_available:
  assumes "\<And>a B. a \<in> set xs \<Longrightarrow> a \<notin> B \<Longrightarrow> triple (\<lambda>s. safe_on p (insert a B) s) (f a) (\<lambda>_ s. safe_on p B s) (patches_safe p)"
    and "distinct xs" and "set xs \<inter> B = {}"
  shows "triple (\<lambda>s. safe_on p (set xs \<union> B) s) (go_for xs f) (\<lambda>_ s. safe_on p B s) (patches_safe p)"
  using assms
proof (induction xs)
  case Nil
  show ?case unfolding go_for.simps by (rule triple_ret) simp
next
  case (Cons x xs)
  have "triple (\<lambda>s. safe_on p (insert x (set xs \<union> B)) s) (f x) (\<lambda>_ s. safe_on p (set xs \<union> B) s) (patches_safe p)"
    using Cons.prems by (intro Cons.prems(1)) auto
  moreover have "triple (\<lambda>s. safe_on p (set xs \<union> B) s) (go_for xs f) (\<lambda>_ s. safe_on p B s) (patches_safe p)"
    by (rule Cons.IH) (use Cons.prems in auto)
  ultimately show ?case unfolding go_for.simps by (auto intro: triple_then)
qed

lemma ReconcileOwnership_safe:
  assumes "distinct (ToAdopt res)" "set (ToAdopt res) \<inter> B = {}"
  shows "triple (\<lambda>s. safe_on p (set (ToAdopt res) \<union> B) s) (ReconcileOwnership E res now)
    (\<lambda>_ s. safe_on p B s) (patches_safe p)"
  unfolding ReconcileOwnership_def
  by (rule triple_then, rule triple_for, rule conflict_event_safe, rule triple_bind, rule triple_get_plan, assumption,
      rule triple_for_each_available [OF adopt_one_safe assms])

lemma give_back_safe:
  assumes "a \<notin> B"
  shows "triple (\<lambda>s. safe_on p (insert a B) s) (give_back E u r n a) (\<lambda>_ s. safe_on p B s) (patches_safe p)"
  unfolding give_back_def
  by (rule triple_bind [OF triple_load_safe], rule triple_then [OF triple_map_err [OF UncordonNode_safe [OF assms]]],
      rule triple_then [OF triple_map_err [OF ReleaseNode_safe [OF assms]]],
      rule triple_bind [OF triple_load_safe], rule Eventf_safe)

lemma release_one_safe:
  "a \<notin> B \<Longrightarrow> triple (\<lambda>s. safe_on p (insert a B) s) (release_one E a) (\<lambda>_ s. safe_on p B s) (patches_safe p)"
  unfolding release_one_def by (rule triple_bind [OF triple_load_safe], rule give_back_safe)

lemma clean_one_safe:
  "a \<notin> B \<Longrightarrow> triple (\<lambda>s. safe_on p (insert a B) s) (clean_one E a) (\<lambda>_ s. safe_on p B s) (patches_safe p)"
  unfolding clean_one_def by (rule triple_bind [OF triple_load_safe], rule give_back_safe)

lemma event_when_safe:
  "triple (\<lambda>s. safe_on p B s) (go_when c (go_bind (load_node a) (\<lambda>n. Eventf (r n) ty re ac no (ar n))))
     (\<lambda>_ s. safe_on p B s) (patches_safe p)"
  by (rule triple_when, rule triple_bind [OF triple_load_safe], rule Eventf_safe)

text \<open>The branch of a node that is not the plan's, and of one that is.\<close>

lemma safe_unowned:
  "triple (\<lambda>s. safe_on p (if c then insert a B else B) s) (go_ret ()) (\<lambda>_ s. safe_on p B s) X"
  by (rule triple_ret) (auto simp: available_def split: if_splits)

lemma safe_owned:
  "c \<Longrightarrow> triple (\<lambda>s. safe_on p (insert a B) s) m Q X \<Longrightarrow>
   triple (\<lambda>s. safe_on p (if c then insert a B else B) s) m Q X"
  by simp

lemma cordon_stable_safe:
  assumes a: "a \<notin> B" and plan: "plan_Name plan = p"
  shows "triple (\<lambda>s. safe_on p B s) (cordon_stable E plan a) (\<lambda>_ s. safe_on p B s) (patches_safe p)"
  unfolding cordon_stable_def
proof (rule triple_bind [OF triple_load_owned], intro triple_if safe_unowned)
  fix node :: Node assume "\<not> mget (Annotations node) ManagedByAnnotation \<noteq> plan_Name plan"
  then have "unclaimed_by_others p node" using plan by (simp add: unclaimed_by_others_def owner_of_def)
  note owned = safe_owned [OF this]
  show "triple (\<lambda>s. safe_on p (if unclaimed_by_others p node then insert a B else B) s)
    (go_bind (go_map_err (Wrapped (''cordoning node '' @ go_quote (node_Name node))) (CordonNode E a)) (\<lambda>changed.
         go_when changed (go_bind (load_node a) (\<lambda>n.
           Eventf (Some (node_Name n)) EventTypeNormal ''NodeCordoned'' ''CordonNode'' ''node %q cordoned'' [AStr (node_Name n)]))))
    (\<lambda>_ s. safe_on p B s) (patches_safe p)"
    by (rule owned, rule triple_bind [OF triple_map_err [OF CordonNode_safe [OF a]]], rule event_when_safe)
  show "triple (\<lambda>s. safe_on p (if unclaimed_by_others p node then insert a B else B) s)
    (go_bind (go_map_err (Wrapped (''uncordoning node '' @ go_quote (node_Name node))) (UncordonNode E a)) (\<lambda>changed.
         go_when changed (go_bind (load_node a) (\<lambda>n.
           Eventf (Some (node_Name n)) EventTypeNormal ''NodeUncordoned'' ''UncordonNode'' ''node %q uncordoned'' [AStr (node_Name n)]))))
    (\<lambda>_ s. safe_on p B s) (patches_safe p)"
    by (rule owned, rule triple_bind [OF triple_map_err [OF UncordonNode_safe [OF a]]], rule event_when_safe)
qed

lemma ReconcileCordon_safe:
  assumes "distinct (ToRelease res)" "set (Stable res) \<inter> set (ToRelease res) = {}"
  shows "triple (\<lambda>s. safe_on p (set (ToRelease res)) s) (ReconcileCordon E res)
    (\<lambda>_. patches_safe p) (patches_safe p)"
proof -
  have plan: "triple (\<lambda>s. safe_on p (set (ToRelease res)) s) get_plan
      (\<lambda>plan s. safe_on p (set (ToRelease res)) s \<and> plan_Name plan = p) (patches_safe p)"
    by (rule triple_get_plan) (simp add: patches_safe_def)
  have stable: "triple (\<lambda>s. safe_on p (set (ToRelease res)) s \<and> plan_Name plan = p) (go_for (Stable res) (cordon_stable E plan))
      (\<lambda>_ s. safe_on p (set (ToRelease res)) s) (patches_safe p)" for plan
  proof (cases "plan_Name plan = p")
    case True
    have "triple (\<lambda>s. safe_on p (set (ToRelease res)) s) (go_for (Stable res) (cordon_stable E plan))
        (\<lambda>_ s. safe_on p (set (ToRelease res)) s) (patches_safe p)"
      by (rule triple_for, rule cordon_stable_safe) (use assms True in auto)
    then show ?thesis by (rule triple_weaken) auto
  qed (simp add: triple_def)
  have rel: "triple (\<lambda>s. safe_on p (set (ToRelease res)) s) (go_for (ToRelease res) (release_one E))
      (\<lambda>_ s. safe_on p {} s) (patches_safe p)"
    using triple_for_each_available [OF release_one_safe assms(1), of "{}"] by simp
  show ?thesis unfolding ReconcileCordon_def
    by (rule triple_bind [OF plan], rule triple_then [OF stable], rule triple_weaken [OF rel]) auto
qed

lemma CleanUp_safe:
  assumes "range_laws E"
  shows "triple (patches_safe p) (CleanUp E) (\<lambda>_. patches_safe p) (patches_safe p)"
proof -
  have plan: "triple (patches_safe p) get_plan (\<lambda>plan s. patches_safe p s \<and> plan_Name plan = p) (patches_safe p)"
    by (rule triple_get_plan) (simp add: patches_safe_def)
  have owned: "triple (\<lambda>s. patches_safe p s \<and> plan_Name plan = p)
      (go_map_err f (ResolveOwnedNodes E (plan_Name plan)))
      (\<lambda>owned s. patches_safe p s \<and> distinct (map fst owned) \<and> (\<forall>a n. map_of owned a = Some n \<longrightarrow> owner_of n = p))
      (patches_safe p)" for plan f
  proof (rule triple_map_err, cases "plan_Name plan = p")
    case True
    show "triple (\<lambda>s. patches_safe p s \<and> plan_Name plan = p) (ResolveOwnedNodes E (plan_Name plan))
        (\<lambda>owned s. patches_safe p s \<and> distinct (map fst owned) \<and> (\<forall>a n. map_of owned a = Some n \<longrightarrow> owner_of n = p))
        (patches_safe p)"
      unfolding True by (rule triple_weaken [OF triple_resolve_owned]) auto
  qed (simp add: triple_def)
  have point: "triple (\<lambda>s. patches_safe p s \<and> distinct (map fst owned) \<and> (\<forall>a n. map_of owned a = Some n \<longrightarrow> owner_of n = p))
      (point_to [] owned)
      (\<lambda>_ s. safe_on p (set (k_range E ''owned'' (map fst owned)) \<union> {}) s \<and> distinct (k_range E ''owned'' (map fst owned)))
      (patches_safe p)" for owned
    unfolding point_to_def
    by (rule triple_modify) (use range_distinct [OF assms] in \<open>auto simp: patches_safe_def available_def unclaimed_by_others_def\<close>)
  have clean: "triple (\<lambda>s. safe_on p (set xs \<union> {}) s \<and> distinct xs) (go_for xs (clean_one E))
      (\<lambda>_ s. safe_on p {} s) (patches_safe p)" for xs
  proof (cases "distinct xs")
    case True
    then show ?thesis
      by (intro triple_weaken [OF triple_for_each_available [OF clean_one_safe, of xs "{}"]]) auto
  qed (simp add: triple_def)
  show ?thesis unfolding CleanUp_def
    by (rule triple_bind [OF plan], rule triple_bind [OF owned], rule triple_then [OF point], rule triple_weaken [OF clean]) auto
qed

end
