(* ===== verification/Drain_Filters.thy ===== *)
theory Drain_Filters
  imports Api_Types
begin

text \<open>
  \<open>internal/maintenance/drain_filters.go\<close>: sorting the pods of a node into five buckets. The
  classification of one pod is restated as \<open>pod_class\<close>, a decision list; the loop of the code
  is shown to be the five filters of that class.
\<close>

section \<open>Definitions\<close>

record drainConfig =
  IgnoreDaemonSets :: bool
  DeleteEmptyDirData :: bool
  Force :: bool
  PodTerminationGracePeriodSeconds :: "int option"
  RespectPodDisruptionBudgets :: bool

record drainFilterResult =
  fr_Evictable :: "Pod list"
  fr_Blocked :: "Pod list"
  fr_Terminating :: "Pod list"
  fr_StuckTerminating :: "Pod list"
  fr_Skipped :: "Pod list"

definition empty_filter_result :: drainFilterResult where
  "empty_filter_result = \<lparr>fr_Evictable = [], fr_Blocked = [], fr_Terminating = [],
     fr_StuckTerminating = [], fr_Skipped = []\<rparr>"

definition MirrorPodAnnotationKey :: string where
  "MirrorPodAnnotationKey = ''kubernetes.io/config.mirror''"

definition stuckTerminatingBuffer :: duration where
  "stuckTerminatingBuffer = 60 * second"

definition isDaemonSetPod :: "Pod \<Rightarrow> bool" where
  "isDaemonSetPod pod = list_ex (\<lambda>owner. Kind owner = ''DaemonSet'') (OwnerReferences pod)"

definition hasController :: "Pod \<Rightarrow> bool" where
  "hasController pod = list_ex (\<lambda>owner. Controller owner = Some True) (OwnerReferences pod)"

definition hasEmptyDir :: "Pod \<Rightarrow> bool" where
  "hasEmptyDir pod = list_ex (\<lambda>vol. vol) (Volumes_EmptyDir pod)"

text \<open>The deadline of a terminating pod: the duration is computed in 64 bits.\<close>

definition terminating_deadline :: "Pod \<Rightarrow> time \<Rightarrow> time" where
  "terminating_deadline pod deleted =
     (let gracePeriod = (case TerminationGracePeriodSeconds pod of None \<Rightarrow> 30 | Some g \<Rightarrow> g)
      in deleted + i64 (i64 (gracePeriod * second) + stuckTerminatingBuffer))"

text \<open>The body of the loop: the result so far, with the pod appended to one bucket.\<close>

definition classify_step :: "drainConfig \<Rightarrow> time \<Rightarrow> Pod \<Rightarrow> drainFilterResult \<Rightarrow> drainFilterResult" where
  "classify_step cfg now pod result =
     (if mhas (pod_Annotations pod) MirrorPodAnnotationKey then
        result\<lparr>fr_Skipped := fr_Skipped result @ [pod]\<rparr>
      else case pod_DeletionTimestamp pod of
        Some deleted \<Rightarrow>
          if terminating_deadline pod deleted < now then
            result\<lparr>fr_StuckTerminating := fr_StuckTerminating result @ [pod]\<rparr>
          else result\<lparr>fr_Terminating := fr_Terminating result @ [pod]\<rparr>
      | None \<Rightarrow>
          if pod_Phase pod = ''Succeeded'' \<or> pod_Phase pod = ''Failed'' then
            result\<lparr>fr_Skipped := fr_Skipped result @ [pod]\<rparr>
          else if isDaemonSetPod pod then
            (if IgnoreDaemonSets cfg then result\<lparr>fr_Skipped := fr_Skipped result @ [pod]\<rparr>
             else result\<lparr>fr_Blocked := fr_Blocked result @ [pod]\<rparr>)
          else if \<not> hasController pod \<and> \<not> Force cfg then
            result\<lparr>fr_Blocked := fr_Blocked result @ [pod]\<rparr>
          else if hasEmptyDir pod \<and> \<not> DeleteEmptyDirData cfg then
            result\<lparr>fr_Blocked := fr_Blocked result @ [pod]\<rparr>
          else result\<lparr>fr_Evictable := fr_Evictable result @ [pod]\<rparr>)"

fun classify_loop :: "drainConfig \<Rightarrow> time \<Rightarrow> Pod list \<Rightarrow> drainFilterResult \<Rightarrow> drainFilterResult" where
  "classify_loop cfg now [] result = result"
| "classify_loop cfg now (pod # pods) result = classify_loop cfg now pods (classify_step cfg now pod result)"

definition classifyPods :: "Pod list \<Rightarrow> drainConfig \<Rightarrow> time \<Rightarrow> drainFilterResult" where
  "classifyPods pods cfg now = classify_loop cfg now pods empty_filter_result"

definition filterPodsForDrain :: "'w env \<Rightarrow> Node \<Rightarrow> drainConfig \<Rightarrow> ('w, drainFilterResult) op" where
  "filterPodsForDrain E node cfg =
     go_bind (go_map_err (Wrapped (''listing pods on node '' @ node_Name node))
               (client_call (ListPods (node_Name node)) (k_listPods E (node_Name node))))
       (\<lambda>items. go_bind (read_clock (k_clockNow E)) (\<lambda>now. go_ret (classifyPods items cfg now)))"

text \<open>The classes, as the documentation states them.\<close>

datatype pod_bucket = BSkipped | BTerminating | BStuck | BBlocked | BEvictable

definition completed :: "Pod \<Rightarrow> bool" where
  "completed pod \<longleftrightarrow> pod_Phase pod \<in> {''Succeeded'', ''Failed''}"

definition mirror :: "Pod \<Rightarrow> bool" where
  "mirror pod \<longleftrightarrow> mhas (pod_Annotations pod) MirrorPodAnnotationKey"

definition pod_class :: "drainConfig \<Rightarrow> time \<Rightarrow> Pod \<Rightarrow> pod_bucket" where
  "pod_class cfg now pod =
     (if mirror pod then BSkipped
      else case pod_DeletionTimestamp pod of
        Some d \<Rightarrow> if terminating_deadline pod d < now then BStuck else BTerminating
      | None \<Rightarrow>
          if completed pod \<or> (isDaemonSetPod pod \<and> IgnoreDaemonSets cfg) then BSkipped
          else if isDaemonSetPod pod \<or> (\<not> hasController pod \<and> \<not> Force cfg) \<or>
                  (hasEmptyDir pod \<and> \<not> DeleteEmptyDirData cfg) then BBlocked
          else BEvictable)"

definition bucket_of :: "pod_bucket \<Rightarrow> drainFilterResult \<Rightarrow> Pod list" where
  "bucket_of b r = (case b of BSkipped \<Rightarrow> fr_Skipped r | BTerminating \<Rightarrow> fr_Terminating r
     | BStuck \<Rightarrow> fr_StuckTerminating r | BBlocked \<Rightarrow> fr_Blocked r | BEvictable \<Rightarrow> fr_Evictable r)"

section \<open>Lemmas\<close>

lemma classify_step_bucket:
  "bucket_of b (classify_step cfg now pod r) =
     bucket_of b r @ (if pod_class cfg now pod = b then [pod] else [])"
  by (cases b)
    (auto simp: classify_step_def pod_class_def bucket_of_def mirror_def completed_def
      split: option.splits)

lemma classify_loop_bucket:
  "bucket_of b (classify_loop cfg now pods r) =
     bucket_of b r @ filter (\<lambda>pod. pod_class cfg now pod = b) pods"
  by (induction pods arbitrary: r) (auto simp: classify_step_bucket)

lemma classifyPods_bucket:
  "bucket_of b (classifyPods pods cfg now) = filter (\<lambda>pod. pod_class cfg now pod = b) pods"
  by (cases b) (simp_all add: classifyPods_def classify_loop_bucket, simp_all add: bucket_of_def empty_filter_result_def)

lemma classifyPods_filters:
  "fr_Skipped (classifyPods pods cfg now) = filter (\<lambda>pod. pod_class cfg now pod = BSkipped) pods"
  "fr_Terminating (classifyPods pods cfg now) = filter (\<lambda>pod. pod_class cfg now pod = BTerminating) pods"
  "fr_StuckTerminating (classifyPods pods cfg now) = filter (\<lambda>pod. pod_class cfg now pod = BStuck) pods"
  "fr_Blocked (classifyPods pods cfg now) = filter (\<lambda>pod. pod_class cfg now pod = BBlocked) pods"
  "fr_Evictable (classifyPods pods cfg now) = filter (\<lambda>pod. pod_class cfg now pod = BEvictable) pods"
  using classifyPods_bucket [of BSkipped] classifyPods_bucket [of BTerminating]
    classifyPods_bucket [of BStuck] classifyPods_bucket [of BBlocked] classifyPods_bucket [of BEvictable]
  by (simp_all add: bucket_of_def)

lemma mset_by_class:
  "mset pods = mset (filter (\<lambda>x. f x = BEvictable) pods) + mset (filter (\<lambda>x. f x = BBlocked) pods) +
     mset (filter (\<lambda>x. f x = BTerminating) pods) + mset (filter (\<lambda>x. f x = BStuck) pods) +
     mset (filter (\<lambda>x. f x = BSkipped) pods)"
proof (induction pods)
  case Nil
  then show ?case by simp
next
  case (Cons x xs)
  then show ?case by (cases "f x") simp_all
qed

lemma classify_sizes:
  "length (fr_Evictable (classifyPods pods cfg now)) + length (fr_Blocked (classifyPods pods cfg now)) +
   length (fr_Terminating (classifyPods pods cfg now)) + length (fr_StuckTerminating (classifyPods pods cfg now)) +
   length (fr_Skipped (classifyPods pods cfg now)) = length pods"
  using arg_cong [OF mset_by_class [of pods "pod_class cfg now"], of size]
  by (simp add: classifyPods_filters del: mset_filter)

lemma pod_class_evictable:
  "pod_class cfg now pod = BEvictable \<longleftrightarrow>
     \<not> mirror pod \<and> pod_DeletionTimestamp pod = None \<and> \<not> completed pod \<and> \<not> isDaemonSetPod pod \<and>
     (hasController pod \<or> Force cfg) \<and> \<not> (hasEmptyDir pod \<and> \<not> DeleteEmptyDirData cfg)"
  by (auto simp: pod_class_def split: option.splits)

lemma classifyPods_evictable_only:
  "pod \<in> set (fr_Evictable (classifyPods pods cfg now)) \<Longrightarrow>
     \<not> mirror pod \<and> pod_DeletionTimestamp pod = None \<and> \<not> completed pod \<and> \<not> isDaemonSetPod pod \<and>
     (hasController pod \<or> Force cfg) \<and> \<not> (hasEmptyDir pod \<and> \<not> DeleteEmptyDirData cfg)"
  by (simp add: classifyPods_filters pod_class_evictable)

lemma triple_filterPods:
  assumes "\<And>s x w. P s \<Longrightarrow> k_listPods E (node_Name node) (st_world s) = (Inr x, w) \<Longrightarrow>
      Q x (s\<lparr>st_world := w, st_trace := st_trace s @ [ListPods (node_Name node)]\<rparr>)"
    and "\<And>s e w. P s \<Longrightarrow> k_listPods E (node_Name node) (st_world s) = (Inl e, w) \<Longrightarrow>
      X (s\<lparr>st_world := w, st_trace := st_trace s @ [ListPods (node_Name node)]\<rparr>)"
    and "\<And>s w x. Q x s \<Longrightarrow> Q x (s\<lparr>st_world := w\<rparr>)"
  shows "triple P (filterPodsForDrain E node cfg)
    (\<lambda>r s. \<exists>items now. r = classifyPods items cfg now \<and> Q items s) X"
  unfolding filterPodsForDrain_def
  by (rule triple_bind, rule triple_map_err, rule triple_client_call, erule (1) assms(1), erule (1) assms(2),
      rule triple_bind, rule triple_read_clock, erule assms(3), rule triple_ret) blast

section \<open>Properties\<close>

text \<open>
  C29. The five buckets partition the pods of the node: every pod of the list is in exactly one
  bucket as often as it is listed, and each bucket keeps the order of the list.
\<close>

theorem classifyPods_partition:
  "mset pods = mset (fr_Evictable (classifyPods pods cfg now)) + mset (fr_Blocked (classifyPods pods cfg now)) +
     mset (fr_Terminating (classifyPods pods cfg now)) + mset (fr_StuckTerminating (classifyPods pods cfg now)) +
     mset (fr_Skipped (classifyPods pods cfg now)) \<and>
   (\<forall>b. bucket_of b (classifyPods pods cfg now) = filter (\<lambda>pod. pod_class cfg now pod = b) pods)"
  using mset_by_class [of pods "pod_class cfg now"]
  by (simp add: classifyPods_bucket classifyPods_filters del: mset_filter)

text \<open>
  Exactly the pods the settings allow are evictable: never a mirror pod, a terminating pod,
  a completed pod or a DaemonSet pod; one without a controller only under \<open>force\<close>; one with an
  emptyDir volume only under \<open>deleteEmptyDirData\<close>. And nothing else is held back.
\<close>

theorem classifyPods_evictable_iff:
  "pod \<in> set (fr_Evictable (classifyPods pods cfg now)) \<longleftrightarrow>
     pod \<in> set pods \<and> \<not> mirror pod \<and> pod_DeletionTimestamp pod = None \<and> \<not> completed pod \<and>
     \<not> isDaemonSetPod pod \<and> (hasController pod \<or> Force cfg) \<and> \<not> (hasEmptyDir pod \<and> \<not> DeleteEmptyDirData cfg)"
  by (auto simp: classifyPods_filters pod_class_evictable)

end
