(* ===== verification/Drain_Node.thy ===== *)
theory Drain_Node
  imports Drain_Filters Memory_Cluster
begin

text \<open>
  \<open>internal/maintenance/drain_node.go\<close>: one drain pass over one node. The pods are classified
  once, an eviction is requested for each evictable pod, and the counters and the error are
  handed to the caller. \<open>drainNode\<close> never waits: what it asks of the cluster is one list
  and at most two calls per evictable pod.
\<close>

section \<open>Definitions\<close>

record drainOutcome =
  Evicted :: int
  Total :: int
  Evictable :: int
  Terminating :: int
  StuckTerminating :: int
  StuckPods :: "Pod list"

definition zero_outcome :: drainOutcome where
  "zero_outcome = \<lparr>Evicted = 0, Total = 0, Evictable = 0, Terminating = 0, StuckTerminating = 0, StuckPods = []\<rparr>"

fun error_text :: "go_error \<Rightarrow> string" where
  "error_text (drainBlockedError n pods pdb) =
     (if pdb then ''node '' @ n @ '': drain blocked by PDB on '' @ show_int (int (length pods)) @ '' pod(s)''
      else ''node '' @ n @ '': drain blocked by '' @ show_int (int (length pods)) @ '' unevictable pod(s)'')"
| "error_text (nodeNotReadyError n t) = ''node '' @ n @ '' is NotReady''"
| "error_text (Wrapped s e) = s @ '': '' @ error_text e"
| "error_text (NewError s) = s"
| "error_text (ApiError r) = (case r of ReasonNotFound \<Rightarrow> ''NotFound'' | ReasonTooManyRequests \<Rightarrow> ''TooManyRequests''
     | ReasonAlreadyExists \<Rightarrow> ''AlreadyExists'' | ReasonOther s \<Rightarrow> s)"

definition getDrainConfig :: "Plan \<Rightarrow> drainConfig option" where
  "getDrainConfig plan = (case Drain (Spec plan) of
     None \<Rightarrow> None
   | Some d \<Rightarrow>
       if \<not> drain_Enabled d then None
       else case drain_Options d of
         None \<Rightarrow> Some \<lparr>IgnoreDaemonSets = True, DeleteEmptyDirData = False, Force = False,
                        PodTerminationGracePeriodSeconds = None, RespectPodDisruptionBudgets = True\<rparr>
       | Some opts \<Rightarrow> Some \<lparr>IgnoreDaemonSets = opt_IgnoreDaemonSets opts,
                             DeleteEmptyDirData = opt_DeleteEmptyDirData opts,
                             Force = opt_Force opts,
                             PodTerminationGracePeriodSeconds = opt_PodTerminationGracePeriodSeconds opts,
                             RespectPodDisruptionBudgets = opt_RespectPodDisruptionBudgets opts\<rparr>)"

definition evictPod :: "'w env \<Rightarrow> Pod \<Rightarrow> int option \<Rightarrow> ('w, unit) op" where
  "evictPod E pod gracePeriodSeconds =
     client_call (EvictPod pod gracePeriodSeconds) (k_evictPod E pod gracePeriodSeconds)"

definition pod_path :: "Pod \<Rightarrow> string" where
  "pod_path pod = pod_Namespace pod @ ''/'' @ pod_Name pod"

text \<open>
  The loop over the evictable pods, with its two locals: the outcome (whose \<open>Evicted\<close> it
  counts up) and the pods a budget refused. A return in the middle gives the outcome so far
  and the error.
\<close>

fun evict_loop :: "'w env \<Rightarrow> drainConfig \<Rightarrow> Pod list \<Rightarrow> drainOutcome \<Rightarrow> Pod list
    \<Rightarrow> ('w, drainOutcome \<times> go_error option \<times> Pod list) op" where
  "evict_loop E cfg [] outcome pdbBlocked = go_ret (outcome, None, pdbBlocked)"
| "evict_loop E cfg (pod # pods) outcome pdbBlocked =
     go_bind (go_try (evictPod E pod (PodTerminationGracePeriodSeconds cfg))) (\<lambda>r. case r of
       Inr _ \<Rightarrow> evict_loop E cfg pods (outcome\<lparr>Evicted := i32 (Evicted outcome + 1)\<rparr>) pdbBlocked
     | Inl err \<Rightarrow>
         if IsTooManyRequests err then
           (if \<not> RespectPodDisruptionBudgets cfg then
              go_bind (go_try (client_call (DeletePod pod) (k_deletePod E pod))) (\<lambda>d. case d of
                Inl delErr \<Rightarrow>
                  if \<not> IsNotFound delErr then
                    go_ret (outcome, Some (Wrapped (''force-deleting PDB-blocked pod '' @ pod_path pod) delErr), pdbBlocked)
                  else evict_loop E cfg pods (outcome\<lparr>Evicted := i32 (Evicted outcome + 1)\<rparr>) pdbBlocked
              | Inr _ \<Rightarrow> evict_loop E cfg pods (outcome\<lparr>Evicted := i32 (Evicted outcome + 1)\<rparr>) pdbBlocked)
            else evict_loop E cfg pods outcome (pdbBlocked @ [pod]))
         else if IsNotFound err then evict_loop E cfg pods outcome pdbBlocked
         else go_ret (outcome, Some (Wrapped (''evicting pod '' @ pod_path pod) err), pdbBlocked))"

definition initial_outcome :: "drainFilterResult \<Rightarrow> drainOutcome" where
  "initial_outcome result = \<lparr>Evicted = 0,
     Total = i32 (int (length (fr_Evictable result) + length (fr_Blocked result) +
                       length (fr_Terminating result) + length (fr_StuckTerminating result))),
     Evictable = len32 (fr_Evictable result),
     Terminating = len32 (fr_Terminating result),
     StuckTerminating = len32 (fr_StuckTerminating result),
     StuckPods = fr_StuckTerminating result\<rparr>"

text \<open>Go's pair of results \<open>(drainOutcome, error)\<close>: both are always there.\<close>

definition drainNode :: "'w env \<Rightarrow> Plan \<Rightarrow> Node \<Rightarrow> ('w, drainOutcome \<times> go_error option) op" where
  "drainNode E plan node = (case getDrainConfig plan of
     None \<Rightarrow> go_ret (zero_outcome, Some (NewError (''drain not enabled for plan '' @ plan_Namespace plan @ ''/'' @ plan_Name plan)))
   | Some cfg \<Rightarrow>
       go_bind (go_try (filterPodsForDrain E node cfg)) (\<lambda>r. case r of
         Inl err \<Rightarrow> go_ret (zero_outcome, Some err)
       | Inr result \<Rightarrow>
           go_bind (evict_loop E cfg (fr_Evictable result) (initial_outcome result) [])
             (\<lambda>(outcome, err, pdbBlocked). go_ret (outcome,
                case err of Some e \<Rightarrow> Some e
                | None \<Rightarrow>
                    if fr_Blocked result \<noteq> [] then Some (drainBlockedError (node_Name node) (fr_Blocked result) False)
                    else if pdbBlocked \<noteq> [] then Some (drainBlockedError (node_Name node) pdbBlocked True)
                    else None))))"

text \<open>The calls a drain pass may make: it reads, evicts and deletes pods of one node.\<close>

fun drain_call_ok :: "string \<Rightarrow> drainConfig \<Rightarrow> (Pod \<Rightarrow> bool) \<Rightarrow> call \<Rightarrow> bool" where
  "drain_call_ok nm cfg ok (ListPods x) = (x = nm)"
| "drain_call_ok nm cfg ok (EvictPod pod g) = (ok pod \<and> g = PodTerminationGracePeriodSeconds cfg)"
| "drain_call_ok nm cfg ok (DeletePod pod) = (ok pod \<and> \<not> RespectPodDisruptionBudgets cfg)"
| "drain_call_ok nm cfg ok _ = False"

text \<open>The pods whose eviction a list of calls requests, in order.\<close>

fun evict_requests :: "call list \<Rightarrow> Pod list" where
  "evict_requests [] = []"
| "evict_requests (EvictPod pod g # cs) = pod # evict_requests cs"
| "evict_requests (_ # cs) = evict_requests cs"

section \<open>Lemmas\<close>

lemma filterPods_tr: "ok (ListPods (node_Name node)) \<Longrightarrow> obeys (trace_within ok) (filterPodsForDrain E node cfg)"
  unfolding filterPodsForDrain_def by (intro tr.obeys_intros tr_prims)

lemma filterPods_own: "obeys same_pass (filterPodsForDrain E node cfg)"
  unfolding filterPodsForDrain_def by (intro own.obeys_intros own_prims)

lemma evict_loop_tr:
  "set pods \<subseteq> P \<Longrightarrow> obeys (trace_within (drain_call_ok nm cfg (\<lambda>p. p \<in> P))) (evict_loop E cfg pods outcome pdb)"
proof (induction pods arbitrary: outcome pdb)
  case Nil
  show ?case unfolding evict_loop.simps by (rule tr.obeys_ret)
next
  case (Cons pod pods)
  then show ?case
    by (auto simp: evictPod_def intro!: tr.obeys_intros tr_client_call)
qed

lemma evict_loop_own: "obeys same_pass (evict_loop E cfg pods outcome pdb)"
proof (induction pods arbitrary: outcome pdb)
  case Nil
  show ?case unfolding evict_loop.simps by (rule own.obeys_ret)
next
  case (Cons pod pods)
  then show ?case by (auto simp: evictPod_def intro!: own.obeys_intros own_prims)
qed

lemma drainNode_own: "obeys same_pass (drainNode E plan node)"
  unfolding drainNode_def
  by (intro own.obeys_intros filterPods_own evict_loop_own)

text \<open>Which pods the settings allow to be evicted (the time plays no part).\<close>

definition pod_evictable :: "drainConfig \<Rightarrow> Pod \<Rightarrow> bool" where
  "pod_evictable cfg pod \<longleftrightarrow> \<not> mirror pod \<and> pod_DeletionTimestamp pod = None \<and> \<not> completed pod \<and>
     \<not> isDaemonSetPod pod \<and> (hasController pod \<or> Force cfg) \<and> (\<not> hasEmptyDir pod \<or> DeleteEmptyDirData cfg)"

lemma filterPods_result:
  "filterPodsForDrain E node cfg s = (Inr result, t) \<Longrightarrow> \<exists>items now. result = classifyPods items cfg now"
  by (auto simp: filterPodsForDrain_def go_Inr go_ret_def)

lemma filterPods_evictable:
  assumes "filterPodsForDrain E node cfg s = (Inr result, t)"
  shows "set (fr_Evictable result) \<subseteq> Collect (pod_evictable cfg)"
  using filterPods_result [OF assms] classifyPods_evictable_only by (auto simp: pod_evictable_def)

text \<open>One round of the loop: it stops, or goes on having requested one eviction.\<close>

definition evict_round :: "'w env \<Rightarrow> drainConfig \<Rightarrow> Pod \<Rightarrow> Pod list \<Rightarrow> drainOutcome \<Rightarrow> Pod list \<Rightarrow> 'w st
    \<Rightarrow> (go_error + drainOutcome \<times> go_error option \<times> Pod list) \<Rightarrow> 'w st \<Rightarrow> bool" where
  "evict_round E cfg pod pods out pdb s r t \<longleftrightarrow>
    (\<exists>e p cs. r = Inr (out, Some (Wrapped p e), pdb) \<and> st_trace t = st_trace s @ cs \<and> evict_requests cs = [pod]) \<or>
    (\<exists>out2 pdb2 s2 cs. evict_loop E cfg pods out2 pdb2 s2 = (r, t) \<and> st_trace s2 = st_trace s @ cs \<and>
       evict_requests cs = [pod] \<and>
       (out2 = out\<lparr>Evicted := i32 (Evicted out + 1)\<rparr> \<and> pdb2 = pdb \<or> out2 = out \<and> pdb2 = pdb \<or>
        out2 = out \<and> pdb2 = pdb @ [pod] \<and> RespectPodDisruptionBudgets cfg))"

lemma evict_round_stop:
  "r = Inr (out, Some (Wrapped p e), pdb) \<Longrightarrow> st_trace t = st_trace s @ cs \<Longrightarrow> evict_requests cs = [pod] \<Longrightarrow>
   evict_round E cfg pod pods out pdb s r t"
  by (auto simp: evict_round_def)

lemma evict_round_on:
  assumes "st_trace s2 = st_trace s @ cs" "evict_requests cs = [pod]"
  shows "evict_loop E cfg pods (out\<lparr>Evicted := i32 (Evicted out + 1)\<rparr>) pdb s2 = (r, t) \<Longrightarrow>
      evict_round E cfg pod pods out pdb s r t"
    and "evict_loop E cfg pods out pdb s2 = (r, t) \<Longrightarrow> evict_round E cfg pod pods out pdb s r t"
    and "RespectPodDisruptionBudgets cfg \<Longrightarrow> evict_loop E cfg pods out (pdb @ [pod]) s2 = (r, t) \<Longrightarrow>
      evict_round E cfg pod pods out pdb s r t"
  unfolding evict_round_def using assms by blast+

lemma evict_roundE [consumes 1, case_names stop on]:
  assumes "evict_round E cfg pod pods out pdb s r t"
  obtains e p cs where "r = Inr (out, Some (Wrapped p e), pdb)" "st_trace t = st_trace s @ cs" "evict_requests cs = [pod]"
  | out2 pdb2 s2 cs where "evict_loop E cfg pods out2 pdb2 s2 = (r, t)" "st_trace s2 = st_trace s @ cs"
      "evict_requests cs = [pod]" "out2\<lparr>Evicted := 0\<rparr> = out\<lparr>Evicted := 0\<rparr>" "set pdb2 \<subseteq> set pdb \<union> {pod}"
      "pdb2 = pdb \<or> RespectPodDisruptionBudgets cfg"
  using assms unfolding evict_round_def
proof (elim disjE exE conjE, goal_cases)
  case 1
  then show ?case by blast
next
  case (2 out2 pdb2 s2 cs)
  from 2(2) [OF 2(3-5)] 2(6,7) show ?case by auto
next
  case (3 out2 pdb2 s2 cs)
  from 3(2) [OF 3(3-5)] 3(6,7) show ?case by auto
next
  case (4 out2 pdb2 s2 cs)
  from 4(2) [OF 4(3-5)] 4(6-8) show ?case by simp
qed

lemma evict_loop_round:
  assumes "evict_loop E cfg (pod # pods) out pdb s = (r, t)"
  shows "evict_round E cfg pod pods out pdb s r t"
proof -
  let ?g = "PodTerminationGracePeriodSeconds cfg"
  obtain x w where ev: "k_evictPod E pod ?g (st_world s) = (x, w)" by force
  define s1 where "s1 = s\<lparr>st_world := w, st_trace := st_trace s @ [EvictPod pod ?g]\<rparr>"
  have tr1: "st_trace s1 = st_trace s @ [EvictPod pod ?g]" by (simp add: s1_def)
  have run: "go_try (evictPod E pod ?g) s = (Inr x, s1)"
    by (simp add: evictPod_def client_call_def go_try_def ev s1_def)
  note r = assms [unfolded evict_loop.simps go_bind_run(2) [of "go_try (evictPod E pod ?g)", OF run]]
  note on = evict_round_on [OF tr1] evict_round_stop [where cs = "[EvictPod pod ?g]"]
  show ?thesis
  proof (cases "\<exists>e. x = Inl e \<and> IsTooManyRequests e \<and> \<not> RespectPodDisruptionBudgets cfg")
    case False
    with r tr1 show ?thesis
      by (auto simp: go_ret_def split: sum.splits if_splits intro: on)
  next
    case True
    then obtain e where e: "x = Inl e" "IsTooManyRequests e" "\<not> RespectPodDisruptionBudgets cfg" by blast
    obtain d w2 where del: "k_deletePod E pod (st_world s1) = (d, w2)" by force
    define s2 where "s2 = s1\<lparr>st_world := w2, st_trace := st_trace s1 @ [DeletePod pod]\<rparr>"
    have tr2: "st_trace s2 = st_trace s @ [EvictPod pod ?g, DeletePod pod]" by (simp add: s2_def tr1)
    have run2: "go_try (client_call (DeletePod pod) (k_deletePod E pod)) s1 = (Inr d, s2)"
      by (simp add: client_call_def go_try_def del s2_def)
    note on2 = evict_round_on [OF tr2] evict_round_stop [where cs = "[EvictPod pod ?g, DeletePod pod]"]
    from r e show ?thesis
      apply (simp only: sum.case if_True simp_thms go_bind_run(2) [of "go_try (client_call (DeletePod pod) (k_deletePod E pod))", OF run2])
      using tr2 by (auto simp: go_ret_def split: sum.splits if_splits intro: on2)
  qed
qed

lemma evict_requests_append [simp]: "evict_requests (cs @ ds) = evict_requests cs @ evict_requests ds"
  by (induction cs rule: evict_requests.induct) auto

text \<open>
  The whole loop: it requests the evictions of a prefix of the pods, of all of them unless an
  error stopped it; only the counter of the outcome moves; refused pods are remembered only
  when budgets are respected.
\<close>

lemma evict_loop_spec:
  assumes "evict_loop E cfg pods out pdb s = (r, t)"
  shows "\<exists>out' err pdb' cs k. r = Inr (out', err, pdb') \<and> st_trace t = st_trace s @ cs \<and>
    evict_requests cs = take k pods \<and> (err = None \<longrightarrow> k = length pods) \<and>
    (\<forall>e. err = Some e \<longrightarrow> (\<exists>p e'. e = Wrapped p e')) \<and>
    out'\<lparr>Evicted := 0\<rparr> = out\<lparr>Evicted := 0\<rparr> \<and> set pdb' \<subseteq> set pdb \<union> set pods \<and>
    (pdb' = pdb \<or> RespectPodDisruptionBudgets cfg)"
  using assms
proof (induction pods arbitrary: out pdb s)
  case Nil
  then show ?case by (auto simp: go_ret_def)
next
  case (Cons pod pods)
  from evict_loop_round [OF Cons.prems] show ?case
  proof (cases rule: evict_roundE)
    case (stop e p cs)
    then show ?thesis by (auto intro!: exI [of _ "1 :: nat"])
  next
    case (on out2 pdb2 s2 cs)
    from Cons.IH [OF on(1)]
    obtain out' err pdb' cs' k where *: "r = Inr (out', err, pdb')" "st_trace t = st_trace s2 @ cs'"
      "evict_requests cs' = take k pods" "err = None \<longrightarrow> k = length pods"
      "\<forall>e. err = Some e \<longrightarrow> (\<exists>p e'. e = Wrapped p e')" "out'\<lparr>Evicted := 0\<rparr> = out2\<lparr>Evicted := 0\<rparr>"
      "set pdb' \<subseteq> set pdb2 \<union> set pods" "pdb' = pdb2 \<or> RespectPodDisruptionBudgets cfg"
      by blast
    have "evict_requests (cs @ cs') = take (Suc k) (pod # pods)" "st_trace t = st_trace s @ (cs @ cs')"
      using * on by simp_all
    moreover have "err = None \<longrightarrow> Suc k = length (pod # pods)" using * by simp
    moreover have "out'\<lparr>Evicted := 0\<rparr> = out\<lparr>Evicted := 0\<rparr>" using * on by simp
    moreover have "set pdb' \<subseteq> set pdb \<union> set (pod # pods)" using * on by auto
    moreover have "pdb' = pdb \<or> RespectPodDisruptionBudgets cfg" using * on by auto
    ultimately show ?thesis using *(1,5) by blast
  qed
qed

section \<open>Properties\<close>

text \<open>
  A drain pass over a node only reads the pods of that node, only evicts (with the
  configured grace period) pods the settings allow to be evicted, and deletes a pod outright
  only when budgets are not to be respected; it makes no other call to the API server. This
  holds whatever the API server answers.
\<close>

theorem drainNode_calls:
  assumes "getDrainConfig plan = Some cfg"
  shows "obeys (trace_within (drain_call_ok (node_Name node) cfg (pod_evictable cfg))) (drainNode E plan node)"
proof -
  have loop: "obeys (trace_within (drain_call_ok (node_Name node) cfg (pod_evictable cfg)))
      (evict_loop E cfg (fr_Evictable result) out pdb)"
    if "set (fr_Evictable result) \<subseteq> Collect (pod_evictable cfg)" for result out pdb
    using evict_loop_tr [OF that, of "node_Name node"] by simp
  have post: "\<forall>result. x = Inr result \<longrightarrow> set (fr_Evictable result) \<subseteq> Collect (pod_evictable cfg)"
    if "go_try (filterPodsForDrain E node cfg) s = (Inr x, t)" for x s t
    using that by (auto simp: go_try_def split: prod.splits dest!: filterPods_evictable)
  show ?thesis
    unfolding drainNode_def assms option.case
    by (rule tr.obeys_bind_post [OF tr.obeys_try [OF filterPods_tr] post])
      (auto intro!: tr.obeys_sum tr.obeys_ret tr.obeys_bind [OF loop] tr.obeys_prod)
qed

theorem drainNode_calls_witness:
  "obeys (trace_within (drain_call_ok ''n1''
      \<lparr>IgnoreDaemonSets = True, DeleteEmptyDirData = False, Force = False,
       PodTerminationGracePeriodSeconds = None, RespectPodDisruptionBudgets = True\<rparr>
      (pod_evictable \<lparr>IgnoreDaemonSets = True, DeleteEmptyDirData = False, Force = False,
       PodTerminationGracePeriodSeconds = None, RespectPodDisruptionBudgets = True\<rparr>)))
    (drainNode memory_env (example_plan ''p'' [''n1'']) (example_node ''n1''))"
  using drainNode_calls [of "example_plan ''p'' [''n1'']" _ "example_node ''n1''" memory_env]
  by (simp add: getDrainConfig_def example_plan_def example_spec_def example_node_def)

text \<open>The run of a pass whose list succeeds.\<close>

lemma drainNode_run:
  assumes "getDrainConfig plan = Some cfg"
    and "k_listPods E (node_Name node) (st_world s) = (Inr items, w)" and "k_clockNow E w = (now, w')"
    and "result = classifyPods items cfg now"
    and "s1 = s\<lparr>st_world := w', st_trace := st_trace s @ [ListPods (node_Name node)]\<rparr>"
  shows "drainNode E plan node s =
    go_bind (evict_loop E cfg (fr_Evictable result) (initial_outcome result) [])
      (\<lambda>(outcome, err, pdbBlocked). go_ret (outcome,
         case err of Some e \<Rightarrow> Some e
         | None \<Rightarrow>
             if fr_Blocked result \<noteq> [] then Some (drainBlockedError (node_Name node) (fr_Blocked result) False)
             else if pdbBlocked \<noteq> [] then Some (drainBlockedError (node_Name node) pdbBlocked True)
             else None)) s1"
proof -
  have "filterPodsForDrain E node cfg s = (Inr result, s1)"
    using assms(2-) by (simp add: filterPodsForDrain_def go_bind_def go_map_err_def client_call_def read_clock_def go_ret_def)
  then have "go_try (filterPodsForDrain E node cfg) s = (Inr (Inr result), s1)" by (simp add: go_try_def)
  then show ?thesis
    unfolding drainNode_def assms(1) option.case by (simp only: go_bind_run(2) sum.case)
qed



end
