(* ===== verification/Node_Entries.thy ===== *)
theory Node_Entries
  imports Drift Drain_Node
begin

text \<open>
  The writers of one \<open>NodeStatus\<close> entry: \<open>updateNodeDrainStatus\<close>, \<open>setNodeIssues\<close> and
  \<open>markNodeReadyForMaintenance\<close> of \<open>drain_reconcile.go\<close> and \<open>setNodePreview\<close> of
  \<open>reconcile_preview.go\<close>. All look for the first entry of the node and change it in place;
  \<open>entry_write\<close> is the contract of such a change, and its lemmas say what the whole list keeps.
\<close>

section \<open>Definitions\<close>

text \<open>The shared loop: find the first entry of the name, change it, return.\<close>

fun update_named :: "string \<Rightarrow> (NodeStatus \<Rightarrow> NodeStatus) \<Rightarrow> NodeStatus list \<Rightarrow> NodeStatus list" where
  "update_named nm upd [] = []"
| "update_named nm upd (ns # nss) = (if ns_Name ns = nm then upd ns # nss else ns # update_named nm upd nss)"

definition update_entry :: "string \<Rightarrow> (NodeStatus \<Rightarrow> NodeStatus) \<Rightarrow> Plan \<Rightarrow> Plan" where
  "update_entry nm upd plan =
     plan\<lparr>Status := (Status plan)\<lparr>status_Nodes := update_named nm upd (status_Nodes (Status plan))\<rparr>\<rparr>"

definition drain_entry :: "drainOutcome \<Rightarrow> NodeIssue list \<Rightarrow> NodeStatus \<Rightarrow> NodeStatus" where
  "drain_entry outcome issues ns =
     (let ns1 = (if InitialPodCount ns = 0 \<and> 0 < Total outcome then ns\<lparr>InitialPodCount := Total outcome\<rparr> else ns);
          ns2 = ns1\<lparr>TotalPods := Total outcome, EvictablePods := Evictable outcome,
                    BlockedPods := i32 (i32 (Total outcome - Evictable outcome) - Terminating outcome),
                    EvictedTotal := i32 (EvictedTotal ns1 + Evicted outcome), ns_Issues := issues\<rparr>
      in if 0 < InitialPodCount ns2 then
           (let remaining = min (Total outcome) (InitialPodCount ns2)
            in ns2\<lparr>ns_DrainProgress := go_div (i32 (i32 (InitialPodCount ns2 - remaining) * 100)) (InitialPodCount ns2)\<rparr>)
         else ns2)"

definition updateNodeDrainStatus :: "string \<Rightarrow> drainOutcome \<Rightarrow> NodeIssue list \<Rightarrow> Plan \<Rightarrow> Plan" where
  "updateNodeDrainStatus nodeName outcome issues plan = update_entry nodeName (drain_entry outcome issues) plan"

definition issues_entry :: "NodeIssue list \<Rightarrow> NodeStatus \<Rightarrow> NodeStatus" where
  "issues_entry issues ns = ns\<lparr>ns_Issues := issues\<rparr>"

definition setNodeIssues :: "string \<Rightarrow> NodeIssue list \<Rightarrow> Plan \<Rightarrow> Plan" where
  "setNodeIssues nodeName issues plan = update_entry nodeName (issues_entry issues) plan"

definition ready_entry :: "NodeStatus \<Rightarrow> NodeStatus" where
  "ready_entry ns = ns\<lparr>ReadyForMaintenance := True, ns_DrainProgress := 100\<rparr>"

definition markNodeReadyForMaintenance :: "string \<Rightarrow> Plan \<Rightarrow> Plan \<times> bool" where
  "markNodeReadyForMaintenance nodeName plan = (case find_status plan nodeName of
     None \<Rightarrow> (plan, False)
   | Some ns \<Rightarrow> if \<not> Cordoned ns \<or> ReadyForMaintenance ns then (plan, False)
               else (update_entry nodeName ready_entry plan, True))"

definition preview_entry :: "NodeDrainPreview \<Rightarrow> NodeStatus \<Rightarrow> NodeStatus" where
  "preview_entry preview ns = ns\<lparr>DrainPreview := Some preview\<rparr>"

definition setNodePreview :: "string \<Rightarrow> NodeDrainPreview \<Rightarrow> Plan \<Rightarrow> Plan" where
  "setNodePreview nodeName preview plan = update_entry nodeName (preview_entry preview) plan"

definition wasNodeDraining :: "Plan \<Rightarrow> string \<Rightarrow> bool" where
  "wasNodeDraining plan nodeName = (case find_status plan nodeName of
     None \<Rightarrow> False | Some ns \<Rightarrow> 0 < InitialPodCount ns \<and> ns_DrainProgress ns < 100)"

definition allNodesReady :: "Plan \<Rightarrow> bool" where
  "allNodesReady plan = (if status_Nodes (Status plan) = [] then False
     else list_all ReadyForMaintenance (status_Nodes (Status plan)))"

definition blockedPodIssues :: "Pod list \<Rightarrow> bool \<Rightarrow> NodeIssue list" where
  "blockedPodIssues pods pdbBlocked = map (\<lambda>pod.
     \<lparr>issue_Type = (if pdbBlocked then ''PDBBlocked'' else ''ConfigBlocked''),
      issue_Message = (if pdbBlocked then ''pod eviction rejected by PodDisruptionBudget''
        else ''pod cannot be evicted: set force=true or deleteEmptyDirData=true to proceed''),
      PodRef = Some \<lparr>ref_Namespace = pod_Namespace pod, ref_Name = pod_Name pod\<rparr>\<rparr>) pods"

definition stuckTerminatingIssues :: "Pod list \<Rightarrow> NodeIssue list" where
  "stuckTerminatingIssues pods = map (\<lambda>pod.
     \<lparr>issue_Type = ''StuckTerminating'',
      issue_Message = ''pod has not terminated after exceeding its grace period'',
      PodRef = Some \<lparr>ref_Namespace = pod_Namespace pod, ref_Name = pod_Name pod\<rparr>\<rparr>) pods"

text \<open>
  What a drain outcome promises: the buckets fit into the total. \<open>max_pods\<close> is where the
  percentage would leave 32 bits; a node runs a few hundred pods at most.
\<close>

definition max_pods :: int where "max_pods = 21474836"

definition outcome_ok :: "drainOutcome \<Rightarrow> bool" where
  "outcome_ok out \<longleftrightarrow> 0 \<le> Evicted out \<and> Evicted out \<le> Evictable out \<and> 0 \<le> Terminating out \<and>
     0 \<le> StuckTerminating out \<and> StuckTerminating out = len32 (StuckPods out) \<and>
     Evictable out + Terminating out + StuckTerminating out \<le> Total out \<and> Total out \<le> max_pods"

text \<open>The invariant of an entry's counters.\<close>

definition entry_ok :: "NodeStatus \<Rightarrow> bool" where
  "entry_ok ns \<longleftrightarrow> 0 \<le> InitialPodCount ns \<and> InitialPodCount ns \<le> max_pods \<and>
     0 \<le> ns_DrainProgress ns \<and> ns_DrainProgress ns \<le> 100 \<and>
     0 \<le> EvictablePods ns \<and> 0 \<le> BlockedPods ns \<and> EvictablePods ns + BlockedPods ns \<le> TotalPods ns"

text \<open>What every writer leaves alone: identity, cordon, drift, and what is set once stays set.\<close>

definition entry_frame :: "NodeStatus \<Rightarrow> NodeStatus \<Rightarrow> bool" where
  "entry_frame a b \<longleftrightarrow> ns_Name b = ns_Name a \<and> Cordoned b = Cordoned a \<and> CordonedAt b = CordonedAt a \<and>
     ns_Drifted b = ns_Drifted a \<and> DriftReason b = DriftReason a \<and> NotReadySince b = NotReadySince a \<and>
     (ReadyForMaintenance a \<longrightarrow> ReadyForMaintenance b) \<and>
     (InitialPodCount a \<noteq> 0 \<longrightarrow> InitialPodCount b = InitialPodCount a)"

abbreviation entries_ok :: "Plan \<Rightarrow> bool" where
  "entries_ok plan \<equiv> list_all entry_ok (status_Nodes (Status plan))"

section \<open>The contract of a writer\<close>

lemma entry_frame_refl: "entry_frame ns ns"
  by (simp add: entry_frame_def)

lemma entry_frame_trans: "entry_frame a b \<Longrightarrow> entry_frame b c \<Longrightarrow> entry_frame a c"
  by (auto simp: entry_frame_def)

locale entry_write =
  fixes upd :: "NodeStatus \<Rightarrow> NodeStatus"
  assumes upd_frame: "entry_frame ns (upd ns)"
begin

lemma upd_name: "ns_Name (upd ns) = ns_Name ns"
  using upd_frame [of ns] by (simp add: entry_frame_def)

lemma names: "map ns_Name (update_named nm upd nss) = map ns_Name nss"
  by (induction nss) (auto simp: upd_name)

lemma frames: "list_all2 entry_frame nss (update_named nm upd nss)"
  by (induction nss) (auto simp: upd_frame entry_frame_refl list_all2_refl)

lemma find_after:
  "find_status (update_entry nm upd plan) nm' =
     (if nm' = nm then map_option upd (find_status plan nm) else find_status plan nm')"
proof -
  have "find (\<lambda>ns. ns_Name ns = nm') (update_named nm upd nss) =
      (if nm' = nm then map_option upd (find (\<lambda>ns. ns_Name ns = nm) nss) else find (\<lambda>ns. ns_Name ns = nm') nss)" for nss
    by (induction nss) (auto simp: upd_name)
  then show ?thesis by (simp add: find_status_def update_entry_def)
qed

lemma frame_plan:
  "list_all2 entry_frame (status_Nodes (Status plan)) (status_Nodes (Status (update_entry nm upd plan)))"
  by (simp add: update_entry_def frames)

end

text \<open>A writer that keeps the counters in order, given legal input.\<close>

locale counting_write = entry_write +
  fixes legal :: bool
  assumes upd_ok: "legal \<Longrightarrow> entry_ok ns \<Longrightarrow> entry_ok (upd ns)"
begin

lemma entries_ok_after: "legal \<Longrightarrow> entries_ok plan \<Longrightarrow> entries_ok (update_entry nm upd plan)"
proof -
  have "legal \<Longrightarrow> list_all entry_ok nss \<Longrightarrow> list_all entry_ok (update_named nm upd nss)" for nss
    by (induction nss) (auto intro: upd_ok)
  then show "legal \<Longrightarrow> entries_ok plan \<Longrightarrow> entries_ok (update_entry nm upd plan)"
    by (simp add: update_entry_def)
qed

end

section \<open>Arithmetic of the counters\<close>

lemma progress_bounds:
  assumes "0 < (i :: int)" "0 \<le> r" "r \<le> i"
  shows "0 \<le> (i - r) * 100 div i" "(i - r) * 100 div i \<le> 100" "(i - r) * 100 div i = 100 \<longleftrightarrow> r = 0"
proof -
  show nn: "0 \<le> (i - r) * 100 div i" using assms by (simp add: pos_imp_zdiv_nonneg_iff)
  have "(i - r) * 100 div i \<le> i * 100 div i" by (rule zdiv_mono1) (use assms in auto)
  then show le: "(i - r) * 100 div i \<le> 100" using assms by simp
  show "(i - r) * 100 div i = 100 \<longleftrightarrow> r = 0"
  proof
    assume "(i - r) * 100 div i = 100"
    then have "100 * i + (i - r) * 100 mod i = (i - r) * 100"
      by (metis div_mult_mod_eq)
    moreover have "0 \<le> (i - r) * 100 mod i" by (rule pos_mod_sign) (rule assms)
    ultimately show "r = 0" using assms by simp
  next
    assume "r = 0" then show "(i - r) * 100 div i = 100" using assms by simp
  qed
qed

lemma drain_entry_fields [simp]:
  "ns_Name (drain_entry out iss ns) = ns_Name ns" "Cordoned (drain_entry out iss ns) = Cordoned ns"
  "CordonedAt (drain_entry out iss ns) = CordonedAt ns" "ns_Drifted (drain_entry out iss ns) = ns_Drifted ns"
  "DriftReason (drain_entry out iss ns) = DriftReason ns" "NotReadySince (drain_entry out iss ns) = NotReadySince ns"
  "ReadyForMaintenance (drain_entry out iss ns) = ReadyForMaintenance ns"
  "TotalPods (drain_entry out iss ns) = Total out" "EvictablePods (drain_entry out iss ns) = Evictable out"
  "ns_Issues (drain_entry out iss ns) = iss"
  "EvictedTotal (drain_entry out iss ns) = i32 (EvictedTotal ns + Evicted out)"
  "InitialPodCount (drain_entry out iss ns) =
     (if InitialPodCount ns = 0 \<and> 0 < Total out then Total out else InitialPodCount ns)"
  by (simp_all add: drain_entry_def Let_def)

lemma drain_entry_blocked:
  "outcome_ok out \<Longrightarrow> BlockedPods (drain_entry out iss ns) = Total out - Evictable out - Terminating out"
  by (simp add: drain_entry_def Let_def outcome_ok_def max_pods_def)

lemma drain_entry_progress:
  assumes "outcome_ok out" "entry_ok ns"
  shows "ns_DrainProgress (drain_entry out iss ns) =
    (let i = InitialPodCount (drain_entry out iss ns) in
     if 0 < i then (i - min (Total out) i) * 100 div i else ns_DrainProgress ns)"
  using assms
  by (simp add: drain_entry_def Let_def outcome_ok_def entry_ok_def max_pods_def go_div_nonneg min_def)

lemma drain_entry_ok:
  assumes out: "outcome_ok out" and ns: "entry_ok ns"
  shows "entry_ok (drain_entry out iss ns)"
proof -
  let ?i = "InitialPodCount (drain_entry out iss ns)"
  have i: "0 \<le> ?i" "?i \<le> max_pods" "0 \<le> Total out" using out ns by (auto simp: outcome_ok_def entry_ok_def)
  have "0 \<le> ns_DrainProgress (drain_entry out iss ns) \<and> ns_DrainProgress (drain_entry out iss ns) \<le> 100"
  proof (cases "0 < ?i")
    case True
    then show ?thesis
      using progress_bounds [of ?i "min (Total out) ?i"] i
      by (simp only: drain_entry_progress [OF out ns] Let_def if_True)
  next
    case False
    then show ?thesis using ns by (simp only: drain_entry_progress [OF out ns] Let_def if_False) (simp add: entry_ok_def)
  qed
  moreover have "0 \<le> BlockedPods (drain_entry out iss ns)"
    "EvictablePods (drain_entry out iss ns) + BlockedPods (drain_entry out iss ns) \<le> TotalPods (drain_entry out iss ns)"
    "0 \<le> EvictablePods (drain_entry out iss ns)"
    using out by (auto simp: drain_entry_blocked outcome_ok_def)
  ultimately show ?thesis using i unfolding entry_ok_def by blast
qed

section \<open>The four writers keep the contract\<close>

interpretation drain_write: counting_write "drain_entry outcome issues" "outcome_ok outcome" for outcome issues
  by unfold_locales (simp_all add: entry_frame_def drain_entry_ok)

interpretation issues_write: counting_write "issues_entry issues" True for issues
  by unfold_locales (simp_all add: entry_frame_def issues_entry_def entry_ok_def)

interpretation ready_write: counting_write ready_entry True
  by unfold_locales (simp_all add: entry_frame_def ready_entry_def entry_ok_def)

interpretation preview_write: counting_write "preview_entry preview" True for preview
  by unfold_locales (simp_all add: entry_frame_def preview_entry_def entry_ok_def)

section \<open>Properties\<close>

text \<open>
  C32. Writing the outcome of a drain pass keeps an entry's counters in order: the initial count
  is set by the first pass that sees pods and never changes, the blocked pods are what is
  neither evictable nor terminating, the progress is a percentage, and it is 100 exactly when
  no pod is left (once there were some).
\<close>

theorem drain_entry_counts:
  assumes out: "outcome_ok out" and ns: "entry_ok ns"
  shows "entry_ok (drain_entry out iss ns) \<and>
    (InitialPodCount ns \<noteq> 0 \<longrightarrow> InitialPodCount (drain_entry out iss ns) = InitialPodCount ns) \<and>
    BlockedPods (drain_entry out iss ns) = Total out - Evictable out - Terminating out \<and>
    (InitialPodCount (drain_entry out iss ns) \<noteq> 0 \<longrightarrow>
       (ns_DrainProgress (drain_entry out iss ns) = 100 \<longleftrightarrow> Total out = 0))"
proof -
  let ?i = "InitialPodCount (drain_entry out iss ns)"
  have "ns_DrainProgress (drain_entry out iss ns) = 100 \<longleftrightarrow> Total out = 0" if "?i \<noteq> 0"
  proof -
    have i: "0 < ?i" "0 \<le> Total out" using that out ns by (auto simp: outcome_ok_def entry_ok_def)
    then have "ns_DrainProgress (drain_entry out iss ns) = (?i - min (Total out) ?i) * 100 div ?i"
      by (simp only: drain_entry_progress [OF out ns] Let_def if_True)
    then show ?thesis
      using progress_bounds(3) [of ?i "min (Total out) ?i"] i by (simp add: min_def del: drain_entry_fields)
  qed
  then show ?thesis using drain_entry_ok [OF out ns] drain_entry_blocked [OF out] by simp
qed

theorem drain_entry_counts_witness:
  "let ns = drain_entry (zero_outcome\<lparr>Total := 4, Evictable := 3\<rparr>) [] zero_NodeStatus in
     entry_ok ns \<and> BlockedPods ns = 1 \<and> ns_DrainProgress ns \<noteq> 100"
  using drain_entry_counts [of "zero_outcome\<lparr>Total := 4, Evictable := 3\<rparr>" zero_NodeStatus "[]"]
  by (simp add: outcome_ok_def entry_ok_def zero_outcome_def zero_NodeStatus_def max_pods_def)

text \<open>
  While pods only go away, the reported progress of a node never goes down.
\<close>

theorem drain_progress_monotone:
  assumes out1: "outcome_ok out1" and out2: "outcome_ok out2" and ns: "entry_ok ns"
    and fewer: "Total out2 \<le> Total out1"
  shows "ns_DrainProgress (drain_entry out1 iss1 ns) \<le> ns_DrainProgress (drain_entry out2 iss2 (drain_entry out1 iss1 ns))"
proof -
  let ?a = "drain_entry out1 iss1 ns" and ?b = "drain_entry out2 iss2 (drain_entry out1 iss1 ns)"
  have a: "entry_ok ?a" by (rule drain_entry_ok [OF out1 ns])
  have i: "InitialPodCount ?b = InitialPodCount ?a"
    using fewer out2 by (auto simp: outcome_ok_def)
  show ?thesis
  proof (cases "0 < InitialPodCount ?a")
    case True
    have "(InitialPodCount ?a - min (Total out1) (InitialPodCount ?a)) * 100 div InitialPodCount ?a
        \<le> (InitialPodCount ?a - min (Total out2) (InitialPodCount ?a)) * 100 div InitialPodCount ?a"
      by (rule zdiv_mono1) (use fewer True in \<open>auto simp: min_def\<close>)
    then show ?thesis
      using True by (simp only: drain_entry_progress [OF out1 ns] drain_entry_progress [OF out2 a] i Let_def if_True)
  next
    case False
    then show ?thesis by (simp only: drain_entry_progress [OF out2 a] i Let_def if_False order_refl)
  qed
qed

theorem drain_progress_monotone_witness:
  "ns_DrainProgress (drain_entry (zero_outcome\<lparr>Total := 4, Evictable := 4\<rparr>) [] zero_NodeStatus)
     \<le> ns_DrainProgress (drain_entry (zero_outcome\<lparr>Total := 1, Terminating := 1\<rparr>) []
         (drain_entry (zero_outcome\<lparr>Total := 4, Evictable := 4\<rparr>) [] zero_NodeStatus))"
  by (rule drain_progress_monotone)
    (simp_all add: outcome_ok_def entry_ok_def zero_outcome_def zero_NodeStatus_def max_pods_def)

text \<open>
  A node is marked ready at most once, and only when its entry is cordoned; the call
  reports the transition, and then the node counts as having completed maintenance.
\<close>

theorem markNodeReady_once:
  assumes mark: "markNodeReadyForMaintenance nm plan = (plan', changed)"
  shows "(changed \<longleftrightarrow> (\<exists>ns. find_status plan nm = Some ns \<and> Cordoned ns \<and> \<not> ReadyForMaintenance ns)) \<and>
    (\<not> changed \<longrightarrow> plan' = plan) \<and>
    (changed \<longrightarrow> nodeCompletedMaintenance plan' nm \<and> (\<forall>nm'. nm' \<noteq> nm \<longrightarrow> find_status plan' nm' = find_status plan nm')) \<and>
    snd (markNodeReadyForMaintenance nm plan') = False"
proof (cases "\<exists>ns. find_status plan nm = Some ns \<and> Cordoned ns \<and> \<not> ReadyForMaintenance ns")
  case True
  then obtain ns where ns: "find_status plan nm = Some ns" "Cordoned ns" "\<not> ReadyForMaintenance ns" by blast
  with mark have p: "plan' = update_entry nm ready_entry plan" "changed"
    by (auto simp: markNodeReadyForMaintenance_def)
  have "find_status plan' nm = Some (ready_entry ns)"
    using ns by (simp add: p(1) ready_write.find_after)
  moreover have "find_status plan' nm' = find_status plan nm'" if "nm' \<noteq> nm" for nm'
    using that by (simp add: p(1) ready_write.find_after)
  ultimately show ?thesis
    using ns p(2) by (simp add: markNodeReadyForMaintenance_def nodeCompletedMaintenance_def ready_entry_def)
next
  case False
  with mark have "plan' = plan" "\<not> changed"
    by (auto simp: markNodeReadyForMaintenance_def split: option.splits if_splits)
  with False show ?thesis
    by (auto simp: markNodeReadyForMaintenance_def split: option.splits)
qed

theorem markNodeReady_once_witness:
  "let plan = (example_plan ''p'' [''n''])\<lparr>Status := empty_status\<lparr>status_Nodes :=
       [zero_NodeStatus\<lparr>ns_Name := ''n'', Cordoned := True\<rparr>]\<rparr>\<rparr> in
     snd (markNodeReadyForMaintenance ''n'' plan) \<and>
     \<not> snd (markNodeReadyForMaintenance ''n'' (fst (markNodeReadyForMaintenance ''n'' plan)))"
proof -
  let ?plan = "(example_plan ''p'' [''n''])\<lparr>Status := empty_status\<lparr>status_Nodes :=
       [zero_NodeStatus\<lparr>ns_Name := ''n'', Cordoned := True\<rparr>]\<rparr>\<rparr>"
  have "find_status ?plan ''n'' = Some (zero_NodeStatus\<lparr>ns_Name := ''n'', Cordoned := True\<rparr>)"
    by (simp add: find_status_def)
  then show ?thesis
    using markNodeReady_once [of "''n''" ?plan "fst (markNodeReadyForMaintenance ''n'' ?plan)"
        "snd (markNodeReadyForMaintenance ''n'' ?plan)"]
    by (simp add: Let_def zero_NodeStatus_def)
qed

end
