(* ===== verification/Drain_Pool.thy ===== *)
theory Drain_Pool
  imports Node_Entries
begin

text \<open>
  \<open>drainNodes\<close> of \<open>drain_reconcile.go\<close>: one goroutine per node, at most \<open>maxParallel\<close> of them
  past the semaphore. A goroutine is a state machine whose turns are single requests to the
  API server, so that the requests of different nodes interleave in every way the scheduler
  allows; \<open>pool_step\<close> is the relation of all schedules, \<open>pool_loop\<close> the run of the one that
  \<open>k_pick\<close> chooses. Run alone, a goroutine is \<open>drainNode\<close>.
\<close>

section \<open>Definitions\<close>

record drainNodeResult =
  NodeName :: string
  Outcome :: drainOutcome
  Err :: "go_error option"

definition zero_result :: drainNodeResult where
  "zero_result = \<lparr>NodeName = '''', Outcome = zero_outcome, Err = None\<rparr>"

text \<open>
  Before the semaphore; past it, before the list of pods; before the eviction of the next pod;
  before the deletion of a pod a budget protects; \<open>drainNode\<close> has returned; the result is
  written and the semaphore released.
\<close>

datatype drain_thread =
    Waiting
  | Started
  | Evicting drainConfig drainFilterResult "Pod list" drainOutcome "Pod list"
  | Deleting drainConfig drainFilterResult Pod "Pod list" drainOutcome "Pod list"
  | Returned drainOutcome "go_error option"
  | Exited drainNodeResult

definition final_error :: "Node \<Rightarrow> drainFilterResult \<Rightarrow> Pod list \<Rightarrow> go_error option" where
  "final_error node result pdbBlocked =
     (if fr_Blocked result \<noteq> [] then Some (drainBlockedError (node_Name node) (fr_Blocked result) False)
      else if pdbBlocked \<noteq> [] then Some (drainBlockedError (node_Name node) pdbBlocked True)
      else None)"

definition one_more :: "drainOutcome \<Rightarrow> drainOutcome" where
  "one_more outcome = outcome\<lparr>Evicted := i32 (Evicted outcome + 1)\<rparr>"

fun drain_turn :: "'w env \<Rightarrow> Plan \<Rightarrow> Node \<Rightarrow> drain_thread \<Rightarrow> ('w, drain_thread) op" where
  "drain_turn E plan node Started = (case getDrainConfig plan of
     None \<Rightarrow> go_ret (Returned zero_outcome
       (Some (NewError (''drain not enabled for plan '' @ plan_Namespace plan @ ''/'' @ plan_Name plan))))
   | Some cfg \<Rightarrow>
       go_bind (go_try (filterPodsForDrain E node cfg)) (\<lambda>r. case r of
         Inl err \<Rightarrow> go_ret (Returned zero_outcome (Some err))
       | Inr result \<Rightarrow> go_ret (Evicting cfg result (fr_Evictable result) (initial_outcome result) [])))"
| "drain_turn E plan node (Evicting cfg result [] outcome pdbBlocked) =
     go_ret (Returned outcome (final_error node result pdbBlocked))"
| "drain_turn E plan node (Evicting cfg result (pod # pods) outcome pdbBlocked) =
     go_bind (go_try (evictPod E pod (PodTerminationGracePeriodSeconds cfg))) (\<lambda>r. case r of
       Inr _ \<Rightarrow> go_ret (Evicting cfg result pods (one_more outcome) pdbBlocked)
     | Inl err \<Rightarrow>
         if IsTooManyRequests err then
           (if \<not> RespectPodDisruptionBudgets cfg then go_ret (Deleting cfg result pod pods outcome pdbBlocked)
            else go_ret (Evicting cfg result pods outcome (pdbBlocked @ [pod])))
         else if IsNotFound err then go_ret (Evicting cfg result pods outcome pdbBlocked)
         else go_ret (Returned outcome (Some (Wrapped (''evicting pod '' @ pod_path pod) err))))"
| "drain_turn E plan node (Deleting cfg result pod pods outcome pdbBlocked) =
     go_bind (go_try (client_call (DeletePod pod) (k_deletePod E pod))) (\<lambda>d. case d of
       Inl delErr \<Rightarrow>
         if \<not> IsNotFound delErr
         then go_ret (Returned outcome (Some (Wrapped (''force-deleting PDB-blocked pod '' @ pod_path pod) delErr)))
         else go_ret (Evicting cfg result pods (one_more outcome) pdbBlocked)
     | Inr _ \<Rightarrow> go_ret (Evicting cfg result pods (one_more outcome) pdbBlocked))"
| "drain_turn E plan node th = go_ret th"

record pool =
  sem :: nat
  threads :: "drain_thread list"

definition start_pool :: "nat \<Rightarrow> pool" where
  "start_pool n = \<lparr>sem = 0, threads = replicate n Waiting\<rparr>"

text \<open>A send on the semaphore's channel blocks while its buffer is full.\<close>

definition can_move :: "nat \<Rightarrow> pool \<Rightarrow> nat \<Rightarrow> bool" where
  "can_move maxParallel P i = (case threads P ! i of
     Waiting \<Rightarrow> sem P < maxParallel | Exited _ \<Rightarrow> False | _ \<Rightarrow> True)"

definition enabled :: "nat \<Rightarrow> pool \<Rightarrow> nat list" where
  "enabled maxParallel P = filter (can_move maxParallel P) [0..<length (threads P)]"

definition pool_turn :: "'w env \<Rightarrow> Plan \<Rightarrow> Node list \<Rightarrow> nat \<Rightarrow> pool \<Rightarrow> ('w, pool) op" where
  "pool_turn E plan nodes i P = (case threads P ! i of
     Waiting \<Rightarrow> go_ret (P\<lparr>sem := sem P + 1, threads := (threads P)[i := Started]\<rparr>)
   | Returned outcome err \<Rightarrow> go_ret (P\<lparr>sem := sem P - 1, threads := (threads P)[i :=
       Exited \<lparr>NodeName = node_Name (nodes ! i), Outcome = outcome, Err = err\<rparr>]\<rparr>)
   | th \<Rightarrow> go_bind (drain_turn E plan (nodes ! i) th) (\<lambda>th'.
       go_ret (P\<lparr>threads := (threads P)[i := th']\<rparr>)))"

inductive pool_step :: "'w env \<Rightarrow> Plan \<Rightarrow> Node list \<Rightarrow> nat \<Rightarrow> pool \<times> 'w st \<Rightarrow> pool \<times> 'w st \<Rightarrow> bool"
  for E plan nodes maxParallel where
  turn: "i \<in> set (enabled maxParallel P) \<Longrightarrow> pool_turn E plan nodes i P s = (Inr P', t) \<Longrightarrow>
    pool_step E plan nodes maxParallel (P, s) (P', t)"

text \<open>The scheduler's choice among the goroutines that can move, whatever \<open>k_pick\<close> answers.\<close>

definition pick :: "'w env \<Rightarrow> nat \<Rightarrow> nat list \<Rightarrow> nat" where
  "pick E n ready = (if k_pick E n ready \<in> set ready then k_pick E n ready else hd ready)"

text \<open>How far a goroutine is from its end: the decrease of this ends the loop.\<close>

definition unlisted :: "drain_thread \<Rightarrow> nat" where
  "unlisted th = (case th of Waiting \<Rightarrow> 2 | Started \<Rightarrow> 1 | _ \<Rightarrow> 0)"

definition turns_left :: "drain_thread \<Rightarrow> nat" where
  "turns_left th = (case th of
     Evicting _ _ pods _ _ \<Rightarrow> 2 * length pods + 2
   | Deleting _ _ _ pods _ _ \<Rightarrow> 2 * length pods + 3
   | Returned _ _ \<Rightarrow> 1
   | _ \<Rightarrow> 0)"

lemma enabled_iff: "i \<in> set (enabled k P) \<longleftrightarrow> i < length (threads P) \<and> can_move k P i"
  by (auto simp: enabled_def)

lemma drain_turn_decreases:
  assumes "drain_turn E plan node th s = (Inr th', t)" "\<forall>o1 e. th \<noteq> Returned o1 e" "th \<noteq> Waiting" "\<forall>r. th \<noteq> Exited r"
  shows "unlisted th' < unlisted th \<or> unlisted th' = unlisted th \<and> turns_left th' < turns_left th"
  using assms
  by (cases "(E, plan, node, th)" rule: drain_turn.cases)
    (auto simp: go_try_bind go_ret_def unlisted_def turns_left_def split: option.split_asm sum.split_asm if_split_asm)

lemma sum_list_update_less:
  fixes f :: "'a \<Rightarrow> nat"
  assumes "i < length xs" "f y < f (xs ! i)"
  shows "sum_list (map f (xs[i := y])) < sum_list (map f xs)"
proof -
  have "sum_list (map f (xs[i := y])) + f (xs ! i) = sum_list (map f xs) + f y"
    using assms(1) by (induction xs arbitrary: i) (auto split: nat.splits)
  with assms(2) show ?thesis by linarith
qed

lemma sum_list_update_same:
  fixes f :: "'a \<Rightarrow> nat"
  assumes "i < length xs" "f y = f (xs ! i)"
  shows "sum_list (map f (xs[i := y])) = sum_list (map f xs)"
  using assms by (induction xs arbitrary: i) (auto split: nat.splits)

definition pool_measure :: "pool \<Rightarrow> nat \<times> nat" where
  "pool_measure P = (sum_list (map unlisted (threads P)), sum_list (map turns_left (threads P)))"

text \<open>A turn changes the thread it gives the turn to, and brings it nearer its end.\<close>

lemma pool_turn_thread:
  assumes "i \<in> set (enabled k P)" "pool_turn E plan nodes i P s = (Inr P', t)"
  shows "\<exists>th. threads P' = (threads P)[i := th] \<and>
    (unlisted th < unlisted (threads P ! i) \<or>
     unlisted th = unlisted (threads P ! i) \<and> turns_left th < turns_left (threads P ! i))"
proof (cases "threads P ! i = Waiting \<or> (\<exists>o1 e. threads P ! i = Returned o1 e)")
  case True
  then show ?thesis
  proof (elim disjE exE)
    assume "threads P ! i = Waiting"
    with assms(2) show ?thesis
      by (intro exI [of _ Started]) (auto simp: pool_turn_def go_ret_def unlisted_def)
  next
    fix o1 e assume r: "threads P ! i = Returned o1 e"
    with assms(2) show ?thesis
      by (intro exI [of _ "Exited \<lparr>NodeName = node_Name (nodes ! i), Outcome = o1, Err = e\<rparr>"])
        (auto simp: pool_turn_def go_ret_def unlisted_def turns_left_def)
  qed
next
  case False
  moreover have "\<forall>r. threads P ! i \<noteq> Exited r"
    using assms(1) by (auto simp: enabled_iff can_move_def)
  ultimately obtain th where "drain_turn E plan (nodes ! i) (threads P ! i) s = (Inr th, t)"
      "P' = P\<lparr>threads := (threads P)[i := th]\<rparr>"
    using assms(2) by (cases "threads P ! i") (auto simp: pool_turn_def go_bind_Inr go_ret_def)
  then show ?thesis
    using drain_turn_decreases [of E plan "nodes ! i" "threads P ! i" s th t] False
      \<open>\<forall>r. threads P ! i \<noteq> Exited r\<close> by auto
qed

lemma pool_turn_decreases:
  assumes "i \<in> set (enabled k P)" "pool_turn E plan nodes i P s = (Inr P', t)"
  shows "(pool_measure P', pool_measure P) \<in> less_than <*lex*> less_than"
proof -
  have i: "i < length (threads P)" using assms(1) by (simp add: enabled_iff)
  obtain th where th: "threads P' = (threads P)[i := th]"
    "unlisted th < unlisted (threads P ! i) \<or>
     unlisted th = unlisted (threads P ! i) \<and> turns_left th < turns_left (threads P ! i)"
    using pool_turn_thread [OF assms] by blast
  from th(2) show ?thesis
    unfolding pool_measure_def th(1) in_lex_prod less_than_iff
    using sum_list_update_less [OF i, of unlisted th] sum_list_update_same [OF i, of unlisted th]
      sum_list_update_less [OF i, of turns_left th] by blast
qed

lemma pick_in: "ready \<noteq> [] \<Longrightarrow> pick E n ready \<in> set ready"
  by (simp add: pick_def)

function pool_loop :: "'w env \<Rightarrow> Plan \<Rightarrow> Node list \<Rightarrow> nat \<Rightarrow> nat \<Rightarrow> pool \<Rightarrow> ('w, pool) op" where
  "pool_loop E plan nodes maxParallel n P s =
     (if enabled maxParallel P = [] then (Inr P, s)
      else case pool_turn E plan nodes (pick E n (enabled maxParallel P)) P s of
          (Inl err, t) \<Rightarrow> (Inl err, t)
        | (Inr P', t) \<Rightarrow> pool_loop E plan nodes maxParallel (Suc n) P' t)"
  by pat_completeness auto

termination
proof (relation "inv_image (less_than <*lex*> less_than) (\<lambda>(E, plan, nodes, maxParallel, n, P, s). pool_measure P)", goal_cases)
  case 1
  show ?case by (intro wf_inv_image wf_lex_prod wf_less_than)
next
  case 2
  then show ?case by simp (erule pool_turn_decreases [OF pick_in, OF _ sym], assumption)
qed

declare pool_loop.simps [simp del]

definition result_of :: "drain_thread \<Rightarrow> drainNodeResult" where
  "result_of th = (case th of Exited r \<Rightarrow> r | _ \<Rightarrow> zero_result)"

definition drainNodes :: "'w env \<Rightarrow> Plan \<Rightarrow> Node list \<Rightarrow> nat \<Rightarrow> ('w, drainNodeResult list) op" where
  "drainNodes E plan nodes maxParallel =
     go_bind (pool_loop E plan nodes maxParallel 0 (start_pool (length nodes))) (\<lambda>P.
       go_ret (map result_of (threads P)))"

section \<open>A goroutine's turn\<close>

text \<open>No turn fails: what goes wrong is a value in the thread.\<close>

lemma drain_turn_returns: "\<exists>th' t. drain_turn E plan node th s = (Inr th', t)"
  by (cases "(E, plan, node, th)" rule: drain_turn.cases)
    (auto simp: go_try_bind go_ret_def split: option.split sum.split)

lemma drain_turn_own: "obeys same_pass (drain_turn E plan node th)"
  by (cases "(E, plan, node, th)" rule: drain_turn.cases)
    (auto simp: evictPod_def intro!: own.obeys_intros own_prims filterPods_own)

text \<open>What a thread may still evict, and that its counters fit.\<close>

definition counted :: "bool \<Rightarrow> Pod list \<Rightarrow> drainOutcome \<Rightarrow> bool" where
  "counted small pods out \<longleftrightarrow> (small \<longrightarrow> outcome_ok out \<and> Evicted out + int (length pods) \<le> Evictable out)"

fun thread_ok :: "bool \<Rightarrow> drainConfig \<Rightarrow> drain_thread \<Rightarrow> bool" where
  "thread_ok small cfg (Evicting c result pods out pdb) =
     (c = cfg \<and> set pods \<subseteq> Collect (pod_evictable cfg) \<and> counted small pods out)"
| "thread_ok small cfg (Deleting c result pod pods out pdb) =
     (c = cfg \<and> set (pod # pods) \<subseteq> Collect (pod_evictable cfg) \<and> counted small (pod # pods) out \<and>
      \<not> RespectPodDisruptionBudgets cfg)"
| "thread_ok small cfg (Returned out err) = (small \<longrightarrow> outcome_ok out)"
| "thread_ok small cfg (Exited r) = (small \<longrightarrow> outcome_ok (Outcome r))"
| "thread_ok small cfg _ = True"

text \<open>No node lists more pods than \<open>max_pods\<close>.\<close>

definition small_lists :: "'w env \<Rightarrow> bool" where
  "small_lists E \<longleftrightarrow> (\<forall>nm w items w'. k_listPods E nm w = (Inr items, w') \<longrightarrow> int (length items) \<le> max_pods)"

lemma zero_outcome_ok: "outcome_ok zero_outcome"
  by (simp add: outcome_ok_def zero_outcome_def max_pods_def)

lemma initial_outcome_ok:
  assumes "small \<longrightarrow> int (length items) \<le> max_pods"
  shows "counted small (fr_Evictable (classifyPods items cfg now)) (initial_outcome (classifyPods items cfg now))"
proof -
  let ?r = "classifyPods items cfg now"
  have "length (fr_Evictable ?r) + length (fr_Blocked ?r) + length (fr_Terminating ?r) + length (fr_StuckTerminating ?r) \<le> length items"
    using classify_sizes [of items cfg now] by linarith
  with assms show ?thesis
    by (cases small) (simp_all add: counted_def outcome_ok_def initial_outcome_def len32_def max_pods_def)
qed

lemma filterPods_counted:
  assumes "small \<longrightarrow> small_lists E" "filterPodsForDrain E node cfg s = (Inr result, t)"
  shows "counted small (fr_Evictable result) (initial_outcome result)"
proof -
  obtain items now where "result = classifyPods items cfg now" "small \<longrightarrow> int (length items) \<le> max_pods"
    using assms(2) assms(1) [unfolded small_lists_def]
    by (simp add: filterPodsForDrain_def go_Inr go_ret_def client_call_Inr) blast
  then show ?thesis using initial_outcome_ok by simp
qed

lemma counted_one_more: "counted small (pod # pods) out \<Longrightarrow> counted small pods (one_more out)"
  by (auto simp: counted_def one_more_def outcome_ok_def max_pods_def)

lemma counted_skip: "counted small (pod # pods) out \<Longrightarrow> counted small pods out"
  by (auto simp: counted_def)

lemma counted_ok: "counted small pods out \<Longrightarrow> small \<Longrightarrow> outcome_ok out"
  by (simp add: counted_def)

lemma drain_turn_ok:
  assumes "getDrainConfig plan = Some cfg" "small \<longrightarrow> small_lists E" "thread_ok small cfg th"
    and turn: "drain_turn E plan node th s = (Inr th', t)"
  shows "thread_ok small cfg th'"
proof (cases th)
  case Started
  have "r = Inr result \<longrightarrow> set (fr_Evictable result) \<subseteq> Collect (pod_evictable cfg) \<and>
      counted small (fr_Evictable result) (initial_outcome result)"
    if "filterPodsForDrain E node cfg s = (r, t')" for r result t'
    using that filterPods_evictable filterPods_counted [OF assms(2)] by blast
  then show ?thesis
    using turn assms(1) Started zero_outcome_ok
    by (cases "filterPodsForDrain E node cfg s") (auto simp: go_try_bind go_ret_def split: sum.split_asm)
next
  case (Evicting c result pods out pdb)
  then show ?thesis
    using turn assms(3)
    by (cases pods) (auto simp: go_try_bind go_ret_def split: sum.split_asm if_split_asm
        dest: counted_one_more counted_skip counted_ok)
next
  case (Deleting c result pod pods out pdb)
  then show ?thesis
    using turn assms(3)
    by (auto simp: go_try_bind go_ret_def split: sum.split_asm if_split_asm
        dest: counted_one_more counted_skip counted_ok)
qed (use turn assms(3) in \<open>auto simp: go_ret_def\<close>)

lemma drain_turn_calls:
  assumes "getDrainConfig plan = Some cfg" "thread_ok small cfg th"
  shows "obeys (trace_within (drain_call_ok (node_Name node) cfg (pod_evictable cfg))) (drain_turn E plan node th)"
  using assms
  by (cases "(E, plan, node, th)" rule: drain_turn.cases)
    (auto simp: evictPod_def intro!: tr.obeys_intros tr_client_call filterPods_tr)

section \<open>A goroutine alone is drainNode\<close>

fun drain_turns :: "nat \<Rightarrow> 'w env \<Rightarrow> Plan \<Rightarrow> Node \<Rightarrow> drain_thread \<Rightarrow> ('w, drain_thread) op" where
  "drain_turns 0 E plan node th = go_ret th"
| "drain_turns (Suc n) E plan node th = go_bind (drain_turn E plan node th) (drain_turns n E plan node)"

lemma drain_turns_Suc:
  "drain_turn E plan node th s = (Inr th', t) \<Longrightarrow> drain_turns n E plan node th' t = (Inr x, u) \<Longrightarrow>
   drain_turns (Suc n) E plan node th s = (Inr x, u)"
  by (simp add: go_bind_def)

definition loop_result :: "Node \<Rightarrow> drainFilterResult \<Rightarrow> drainOutcome \<times> go_error option \<times> Pod list \<Rightarrow> drain_thread" where
  "loop_result node result x = (case x of (out, err, pdb) \<Rightarrow>
     Returned out (case err of Some e \<Rightarrow> Some e | None \<Rightarrow> final_error node result pdb))"

lemma drain_turns_loop:
  assumes "evict_loop E cfg pods out pdb s = (Inr x, t)"
  shows "\<exists>n. drain_turns n E plan node (Evicting cfg result pods out pdb) s = (Inr (loop_result node result x), t)"
  using assms
proof (induction pods arbitrary: out pdb s)
  case Nil
  then have "x = (out, None, pdb)" "t = s" by (simp_all add: go_ret_def)
  then have "drain_turns (Suc 0) E plan node (Evicting cfg result [] out pdb) s = (Inr (loop_result node result x), t)"
    by (simp add: go_bind_def go_ret_def loop_result_def)
  then show ?case by blast
next
  case (Cons pod pods)
  let ?th = "Evicting cfg result (pod # pods) out pdb"
  obtain r s1 where ev: "evictPod E pod (PodTerminationGracePeriodSeconds cfg) s = (r, s1)" by force
  have on: "\<exists>n. drain_turns n E plan node ?th s = (Inr (loop_result node result x), t)"
    if "drain_turn E plan node ?th s = (Inr (Evicting cfg result pods out' pdb'), s')"
      "evict_loop E cfg pods out' pdb' s' = (Inr x, t)" for out' pdb' s'
    using Cons.IH [OF that(2)] drain_turns_Suc [OF that(1)] by blast
  have stop: "\<exists>n. drain_turns n E plan node ?th s = (Inr (loop_result node result x), t)"
    if "drain_turn E plan node ?th s = (Inr (loop_result node result x), t)"
    by (rule exI, rule drain_turns_Suc [OF that, of 0]) (simp add: go_ret_def)
  note loop = Cons.prems [unfolded evict_loop.simps go_try_bind ev fst_conv snd_conv]
  show ?case
  proof (cases "\<exists>e. r = Inl e \<and> IsTooManyRequests e \<and> \<not> RespectPodDisruptionBudgets cfg")
    case False
    consider "r = Inr ()" | e where "r = Inl e" "IsTooManyRequests e" "RespectPodDisruptionBudgets cfg"
      | e where "r = Inl e" "\<not> IsTooManyRequests e" "IsNotFound e"
      | e where "r = Inl e" "\<not> IsTooManyRequests e" "\<not> IsNotFound e"
      using False by (cases r) auto
    then show ?thesis
    proof cases
      case 1
      then show ?thesis using loop
        by (intro on [where out' = "one_more out" and pdb' = pdb]) (simp_all add: go_try_bind ev go_ret_def one_more_def)
    next
      case 2
      then show ?thesis using loop
        by (intro on [where out' = out and pdb' = "pdb @ [pod]"]) (simp_all add: go_try_bind ev go_ret_def)
    next
      case 3
      then show ?thesis using loop
        by (intro on [where out' = out and pdb' = pdb]) (simp_all add: go_try_bind ev go_ret_def)
    next
      case 4
      then show ?thesis using loop
        by (intro stop) (auto simp: go_try_bind ev go_ret_def loop_result_def)
    qed
  next
    case True
    then obtain e where e: "r = Inl e" "IsTooManyRequests e" "\<not> RespectPodDisruptionBudgets cfg" by blast
    let ?del = "Deleting cfg result pod pods out pdb"
    have first: "drain_turn E plan node ?th s = (Inr ?del, s1)" using e by (simp add: go_try_bind ev go_ret_def)
    obtain d s2 where del: "client_call (DeletePod pod) (k_deletePod E pod) s1 = (d, s2)" by force
    from loop e have loop2: "(case d of
        Inl delErr \<Rightarrow>
          if \<not> IsNotFound delErr then
            go_ret (out, Some (Wrapped (''force-deleting PDB-blocked pod '' @ pod_path pod) delErr), pdb)
          else evict_loop E cfg pods (one_more out) pdb
      | Inr _ \<Rightarrow> evict_loop E cfg pods (one_more out) pdb) s2 = (Inr x, t)"
      unfolding one_more_def by (simp add: go_try_bind del)
    have "\<exists>n. drain_turns n E plan node ?del s1 = (Inr (loop_result node result x), t)"
    proof (cases "\<exists>delErr. d = Inl delErr \<and> \<not> IsNotFound delErr")
      case True
      with loop2 have "drain_turn E plan node ?del s1 = (Inr (loop_result node result x), t)"
        by (auto simp: go_try_bind del go_ret_def loop_result_def)
      show ?thesis by (rule exI, rule drain_turns_Suc [OF \<open>drain_turn E plan node ?del s1 = _\<close>, of 0]) (simp add: go_ret_def)
    next
      case False
      with loop2 have "evict_loop E cfg pods (one_more out) pdb s2 = (Inr x, t)"
        by (auto split: sum.split_asm if_split_asm)
      moreover from False have "drain_turn E plan node ?del s1 = (Inr (Evicting cfg result pods (one_more out) pdb), s2)"
        by (auto simp: go_try_bind del go_ret_def split: sum.split)
      ultimately show ?thesis using Cons.IH drain_turns_Suc by blast
    qed
    then show ?thesis using drain_turns_Suc [OF first] by blast
  qed
qed

lemma drainNode_turns:
  assumes "drainNode E plan node s = (Inr (out, err), t)"
  shows "\<exists>n. drain_turns n E plan node Started s = (Inr (Returned out err), t)"
proof (cases "getDrainConfig plan")
  case None
  with assms have "drain_turn E plan node Started s = (Inr (Returned out err), t)"
    by (simp add: drainNode_def go_ret_def)
  then show ?thesis by (intro exI, rule drain_turns_Suc [where n = 0]) (simp_all add: go_ret_def)
next
  case (Some cfg)
  obtain r s1 where f: "filterPodsForDrain E node cfg s = (r, s1)" by force
  show ?thesis
  proof (cases r)
    case (Inl e)
    with assms Some have "drain_turn E plan node Started s = (Inr (Returned out err), t)"
      by (simp add: drainNode_def go_try_bind f go_ret_def)
    then show ?thesis by (intro exI, rule drain_turns_Suc [where n = 0]) (simp_all add: go_ret_def)
  next
    case (Inr result)
    have first: "drain_turn E plan node Started s =
        (Inr (Evicting cfg result (fr_Evictable result) (initial_outcome result) []), s1)"
      by (simp add: Some go_try_bind f Inr go_ret_def)
    obtain r' t' where loop: "evict_loop E cfg (fr_Evictable result) (initial_outcome result) [] s1 = (r', t')" by force
    from evict_loop_spec [OF loop] obtain o1 e1 pdb where r': "r' = Inr (o1, e1, pdb)" by blast
    have "t' = t" "Returned out err = loop_result node result (o1, e1, pdb)"
      using assms unfolding loop_result_def final_error_def
      by (auto simp add: drainNode_def Some go_try_bind f Inr 
          go_bind_run(2) [of "evict_loop E cfg (fr_Evictable result) (initial_outcome result) []", OF loop [unfolded r']] go_ret_def)
    with loop r' obtain x where x: "evict_loop E cfg (fr_Evictable result) (initial_outcome result) [] s1 = (Inr x, t)"
      and "Returned out err = loop_result node result x" by blast
    then show ?thesis using drain_turns_loop [OF x, of plan node result] drain_turns_Suc [OF first] by metis
  qed
qed

section \<open>The pool\<close>

definition holding :: "drain_thread \<Rightarrow> bool" where
  "holding th \<longleftrightarrow> (case th of Waiting \<Rightarrow> False | Exited _ \<Rightarrow> False | _ \<Rightarrow> True)"

definition in_drain :: "pool \<Rightarrow> nat" where
  "in_drain P = length (filter holding (threads P))"

text \<open>The semaphore counts the goroutines past it, and every result names its node.\<close>

definition pool_inv :: "Node list \<Rightarrow> nat \<Rightarrow> pool \<Rightarrow> bool" where
  "pool_inv nodes maxParallel P \<longleftrightarrow> length (threads P) = length nodes \<and> sem P = in_drain P \<and> sem P \<le> maxParallel \<and>
     (\<forall>i r. i < length nodes \<longrightarrow> threads P ! i = Exited r \<longrightarrow> NodeName r = node_Name (nodes ! i))"

lemma count_update:
  assumes "i < length xs"
  shows "length (filter p (xs[i := y])) + (if p (xs ! i) then 1 else 0) = length (filter p xs) + (if p y then 1 else 0)"
  using assms
proof (induction xs arbitrary: i)
  case (Cons x xs)
  then show ?case using Cons.IH [of "i - 1"] by (cases i) auto
qed simp

lemma pool_turn_returns: "\<exists>P' t. pool_turn E plan nodes i P s = (Inr P', t)"
proof -
  have "\<exists>P' t. go_bind (drain_turn E plan (nodes ! i) th) (\<lambda>th'. go_ret (f th')) s = (Inr P', t)" for th and f :: "drain_thread \<Rightarrow> pool"
    using drain_turn_returns [of E plan "nodes ! i" th s] by (auto simp: go_bind_def go_ret_def)
  then show ?thesis
    by (cases "threads P ! i") (auto simp: pool_turn_def go_ret_def simp del: drain_turn.simps)
qed

text \<open>Three kinds of turns: into the semaphore, out of it, and in between.\<close>

lemma pool_turn_cases:
  assumes "pool_turn E plan nodes i P s = (Inr P', t)" "i \<in> set (enabled k P)"
  obtains (enter) "threads P ! i = Waiting" "sem P < k" "P' = P\<lparr>sem := sem P + 1, threads := (threads P)[i := Started]\<rparr>" "t = s"
  | (leave) out err where "threads P ! i = Returned out err" "t = s"
      "P' = P\<lparr>sem := sem P - 1, threads := (threads P)[i := Exited \<lparr>NodeName = node_Name (nodes ! i), Outcome = out, Err = err\<rparr>]\<rparr>"
  | (work) th where "drain_turn E plan (nodes ! i) (threads P ! i) s = (Inr th, t)"
      "P' = P\<lparr>threads := (threads P)[i := th]\<rparr>" "holding (threads P ! i)" "\<forall>o1 e. threads P ! i \<noteq> Returned o1 e"
proof (cases "threads P ! i")
  case Waiting
  with assms enter show ?thesis by (auto simp: pool_turn_def go_ret_def enabled_iff can_move_def)
next
  case (Returned out err)
  with assms leave show ?thesis by (auto simp: pool_turn_def go_ret_def)
next
  case (Exited r)
  with assms show ?thesis by (simp add: enabled_iff can_move_def)
qed (use assms work in \<open>auto simp: pool_turn_def go_bind_Inr go_ret_def holding_def\<close>)

lemma drain_turn_holding:
  "drain_turn E plan node th s = (Inr th', t) \<Longrightarrow> holding th \<Longrightarrow> holding th'"
  by (cases "(E, plan, node, th)" rule: drain_turn.cases)
    (auto simp: go_try_bind go_ret_def holding_def split: option.split_asm sum.split_asm if_split_asm)

lemma drain_turn_no_exit:
  "drain_turn E plan node th s = (Inr th', t) \<Longrightarrow> holding th \<Longrightarrow> \<forall>r. th' \<noteq> Exited r"
  using drain_turn_holding [of E plan node th s th' t] by (auto simp: holding_def)

lemma pool_inv_start: "pool_inv nodes k (start_pool (length nodes))"
  by (simp add: pool_inv_def start_pool_def in_drain_def holding_def)

lemma pool_inv_turn:
  assumes inv: "pool_inv nodes k P" and en: "i \<in> set (enabled k P)"
    and turn: "pool_turn E plan nodes i P s = (Inr P', t)"
  shows "pool_inv nodes k P'"
proof -
  have i: "i < length (threads P)" using en by (simp add: enabled_iff)
  note count = count_update [OF i, of holding]
  from turn en show ?thesis
  proof (cases rule: pool_turn_cases)
    case enter
    then show ?thesis using inv count [of Started] i
      by (auto simp: pool_inv_def in_drain_def holding_def nth_list_update)
  next
    case (leave out err)
    then show ?thesis
      using inv count [of "Exited \<lparr>NodeName = node_Name (nodes ! i), Outcome = out, Err = err\<rparr>"] i
      by (auto simp: pool_inv_def in_drain_def holding_def nth_list_update)
  next
    case (work th)
    then show ?thesis
      using inv count [of th] i drain_turn_holding [OF work(1,3)] drain_turn_no_exit [OF work(1,3)]
      by (auto simp: pool_inv_def in_drain_def nth_list_update)
  qed
qed

inductive_cases pool_stepE: "pool_step E plan nodes k (P, s) (P', t)"

lemma pool_inv_reachable:
  assumes "(pool_step E plan nodes k)\<^sup>*\<^sup>* x y" "pool_inv nodes k (fst x)"
  shows "pool_inv nodes k (fst y)"
  using assms
proof (induction rule: rtranclp_induct)
  case (step y z)
  then show ?case by (cases y; cases z) (auto elim!: pool_stepE intro: pool_inv_turn)
qed simp

text \<open>Every run of the loop is a run of the relation, to a pool in which nobody can move.\<close>

lemma pool_loop_run:
  "\<exists>P' t. pool_loop E plan nodes k n P s = (Inr P', t) \<and> (pool_step E plan nodes k)\<^sup>*\<^sup>* (P, s) (P', t) \<and> enabled k P' = []"
proof (induction E plan nodes k n P s rule: pool_loop.induct)
  case (1 E plan nodes k n P s)
  show ?case
  proof (cases "enabled k P = []")
    case True
    then show ?thesis by (simp add: pool_loop.simps [of E plan nodes k n P s])
  next
    case False
    obtain P1 t1 where turn: "pool_turn E plan nodes (pick E n (enabled k P)) P s = (Inr P1, t1)"
      using pool_turn_returns by blast
    from "1.IH" [OF False turn [symmetric] refl] obtain P' t where IH:
      "pool_loop E plan nodes k (Suc n) P1 t1 = (Inr P', t)" "(pool_step E plan nodes k)\<^sup>*\<^sup>* (P1, t1) (P', t)" "enabled k P' = []"
      by blast
    have "pool_step E plan nodes k (P, s) (P1, t1)" by (rule pool_step.turn [OF pick_in [OF False] turn])
    then have "(pool_step E plan nodes k)\<^sup>*\<^sup>* (P, s) (P', t)" using IH(2) by (rule converse_rtranclp_into_rtranclp)
    moreover have "pool_loop E plan nodes k n P s = (Inr P', t)"
      using False turn IH(1) by (simp add: pool_loop.simps [of E plan nodes k n P s])
    ultimately show ?thesis using IH(3) by blast
  qed
qed

text \<open>With room for one goroutine nobody waits for ever: a pool that cannot move has finished.\<close>

lemma pool_finished:
  assumes "pool_inv nodes k P" "0 < k" "enabled k P = []" "i < length nodes"
  shows "\<exists>r. threads P ! i = Exited r \<and> NodeName r = node_Name (nodes ! i)"
proof -
  have stuck: "\<not> can_move k P j" if "j < length (threads P)" for j
    using assms(3) that enabled_iff [of j k P] by simp
  have none: "\<not> holding th" if th: "th \<in> set (threads P)" for th
  proof -
    obtain j where "j < length (threads P)" "threads P ! j = th" using th by (auto simp: in_set_conv_nth)
    with stuck [of j] show ?thesis by (auto simp: can_move_def holding_def split: drain_thread.splits)
  qed
  then have "in_drain P = 0" by (simp add: in_drain_def filter_empty_conv)
  with assms(1,2) have "sem P < k" by (simp add: pool_inv_def)
  moreover have i: "i < length (threads P)" using assms(1,4) by (simp add: pool_inv_def)
  ultimately show ?thesis
    using stuck [OF i] none [OF nth_mem [OF i]] assms(1,4)
    by (cases "threads P ! i") (auto simp: can_move_def holding_def pool_inv_def)
qed

text \<open>What the requests of a pool are, and that it touches nothing of the pass.\<close>

definition pool_call_ok :: "Node list \<Rightarrow> drainConfig \<Rightarrow> call \<Rightarrow> bool" where
  "pool_call_ok nodes cfg c \<longleftrightarrow> (\<exists>node \<in> set nodes. drain_call_ok (node_Name node) cfg (pod_evictable cfg) c)"

lemma pool_turn_effects:
  assumes cfg: "getDrainConfig plan = Some cfg" and small: "small \<longrightarrow> small_lists E"
    and len: "length (threads P) = length nodes" and ok: "list_all (thread_ok small cfg) (threads P)"
    and en: "i \<in> set (enabled k P)" and turn: "pool_turn E plan nodes i P s = (Inr P', t)"
  shows "length (threads P') = length nodes \<and> list_all (thread_ok small cfg) (threads P') \<and>
    same_pass s t \<and> trace_within (pool_call_ok nodes cfg) s t"
proof -
  have i: "i < length nodes" using en len by (simp add: enabled_iff)
  have th: "thread_ok small cfg (threads P ! i)" using ok i len by (simp add: list_all_length)
  have upd: "list_all (thread_ok small cfg) ((threads P)[i := th'])" if "thread_ok small cfg th'" for th'
    using ok that by (auto simp: list_all_iff dest: set_update_subset_insert [THEN subsetD])
  from turn en show ?thesis
  proof (cases rule: pool_turn_cases)
    case enter
    then show ?thesis using len upd by (simp add: own.R_refl tr.R_refl)
  next
    case (leave out err)
    then show ?thesis using len th upd by (simp add: own.R_refl tr.R_refl)
  next
    case (work th')
    have "same_pass s t" using obeysD [OF drain_turn_own work(1)] .
    moreover have "trace_within (pool_call_ok nodes cfg) s t"
      by (rule trace_within_mono [OF obeysD [OF drain_turn_calls [OF cfg th] work(1)]])
        (use i in \<open>auto simp: pool_call_ok_def\<close>)
    ultimately show ?thesis using drain_turn_ok [OF cfg small th work(1)] work(2) len upd by simp
  qed
qed

lemma pool_effects:
  assumes run: "(pool_step E plan nodes k)\<^sup>*\<^sup>* x y"
    and cfg: "getDrainConfig plan = Some cfg" and small: "small \<longrightarrow> small_lists E"
    and start: "length (threads (fst x)) = length nodes" "list_all (thread_ok small cfg) (threads (fst x))"
  shows "length (threads (fst y)) = length nodes \<and> list_all (thread_ok small cfg) (threads (fst y)) \<and>
    same_pass (snd x) (snd y) \<and> trace_within (pool_call_ok nodes cfg) (snd x) (snd y)"
  using run
proof (induction rule: rtranclp_induct)
  case base
  show ?case using start by (simp add: own.R_refl tr.R_refl)
next
  case (step y z)
  obtain P s P' t where yz: "y = (P, s)" "z = (P', t)" by (cases y; cases z)
  from step(2) obtain i where i: "i \<in> set (enabled k P)" "pool_turn E plan nodes i P s = (Inr P', t)"
    unfolding yz by (rule pool_stepE)
  show ?case
    using pool_turn_effects [OF cfg small _ _ i] step.IH unfolding yz
    by (auto intro: own.R_trans tr.R_trans)
qed

lemma start_pool_ok: "list_all (thread_ok small cfg) (threads (start_pool n))"
  by (simp add: start_pool_def list_all_length)

text \<open>All of it, for \<open>drainNodes\<close>.\<close>

lemma drainNodes_run:
  assumes k: "0 < k" and cfg: "getDrainConfig plan = Some cfg"
  shows "\<exists>results t. drainNodes E plan nodes k s = (Inr results, t) \<and> map NodeName results = map node_Name nodes \<and>
    same_pass s t \<and> trace_within (pool_call_ok nodes cfg) s t \<and>
    (small_lists E \<longrightarrow> (\<forall>r \<in> set results. outcome_ok (Outcome r)))"
proof -
  obtain P t where run: "pool_loop E plan nodes k 0 (start_pool (length nodes)) s = (Inr P, t)"
      "(pool_step E plan nodes k)\<^sup>*\<^sup>* (start_pool (length nodes), s) (P, t)" "enabled k P = []"
    using pool_loop_run by blast
  have inv: "pool_inv nodes k P" using pool_inv_reachable [OF run(2)] pool_inv_start by simp
  have eff: "length (threads P) = length nodes" "list_all (thread_ok (small_lists E) cfg) (threads P)"
      "same_pass s t" "trace_within (pool_call_ok nodes cfg) s t"
    using pool_effects [OF run(2) cfg, of "small_lists E"] start_pool_ok by (auto simp: start_pool_def)
  have exit: "\<exists>r. threads P ! i = Exited r \<and> NodeName r = node_Name (nodes ! i)" if "i < length nodes" for i
    by (rule pool_finished [OF inv k run(3) that])
  let ?results = "map result_of (threads P)"
  have "map NodeName ?results = map node_Name nodes"
  proof (rule nth_equalityI)
    fix i assume "i < length (map NodeName ?results)"
    then have i: "i < length nodes" using eff(1) by simp
    then obtain r where "threads P ! i = Exited r" "NodeName r = node_Name (nodes ! i)" using exit by blast
    then show "map NodeName ?results ! i = map node_Name nodes ! i" using i eff(1) by (simp add: result_of_def)
  qed (simp add: eff(1))
  moreover have "small_lists E \<longrightarrow> (\<forall>r \<in> set ?results. outcome_ok (Outcome r))"
  proof (intro impI ballI)
    fix r assume "small_lists E" "r \<in> set ?results"
    then obtain i where i: "i < length nodes" "r = result_of (threads P ! i)" using eff(1) by (auto simp: in_set_conv_nth)
    with exit obtain r' where "threads P ! i = Exited r'" by blast
    moreover have "thread_ok (small_lists E) cfg (threads P ! i)" using eff(1,2) i(1) by (simp add: list_all_length)
    ultimately show "outcome_ok (Outcome r)" using i(2) \<open>small_lists E\<close> by (simp add: result_of_def)
  qed
  moreover have "drainNodes E plan nodes k s = (Inr ?results, t)"
    by (simp add: drainNodes_def go_bind_def run(1) go_ret_def)
  ultimately show ?thesis using eff(3,4) by blast
qed

section \<open>Properties\<close>



text \<open>
  C12. \<open>drainNodes\<close> returns, whatever the scheduler and the API server do: one result per node,
  in the order of the nodes, with counters that fit; in between it only lists, evicts and
  deletes pods the settings allow, of these nodes, and touches nothing of the pass.
\<close>

theorem drainNodes_complete:
  assumes "0 < maxParallel" "getDrainConfig plan = Some cfg"
  shows "\<exists>results t. drainNodes E plan nodes maxParallel s = (Inr results, t) \<and>
    map NodeName results = map node_Name nodes \<and> same_pass s t \<and>
    trace_within (pool_call_ok nodes cfg) s t \<and>
    (small_lists E \<longrightarrow> (\<forall>r \<in> set results. outcome_ok (Outcome r)))"
  by (rule drainNodes_run [OF assms])

theorem drainNodes_complete_witness:
  "\<exists>results t. drainNodes memory_env (example_plan ''p'' [''a'']) [example_node ''a''] 2
     (start_state (example_plan ''p'' [''a'']) empty_cluster) = (Inr results, t) \<and> map NodeName results = [''a'']"
proof -
  have "getDrainConfig (example_plan ''p'' [''a'']) = Some
      \<lparr>IgnoreDaemonSets = True, DeleteEmptyDirData = False, Force = False,
       PodTerminationGracePeriodSeconds = None, RespectPodDisruptionBudgets = True\<rparr>"
    by (simp add: getDrainConfig_def example_plan_def example_spec_def)
  from drainNodes_complete [OF _ this, of 2 memory_env "[example_node ''a'']" "start_state (example_plan ''p'' [''a'']) empty_cluster"]
  show ?thesis by (auto simp: example_node_def)
qed

text \<open>
  C22. A goroutine that runs without interruption does exactly what \<open>drainNode\<close> does: some
  number of turns takes it to the same outcome, the same error and the same state.
\<close>

theorem goroutine_is_drainNode:
  assumes "drainNode E plan node s = (Inr (out, err), t)"
  shows "\<exists>n. drain_turns n E plan node Started s = (Inr (Returned out err), t)"
  by (rule drainNode_turns [OF assms])

theorem goroutine_is_drainNode_witness:
  "\<exists>n out err t. drain_turns n memory_env (example_plan ''p'' [''a'']) (example_node ''a'') Started
     (start_state (example_plan ''p'' [''a'']) empty_cluster) = (Inr (Returned out err), t)"
proof -
  have "drainNode memory_env (example_plan ''p'' [''a'']) (example_node ''a'') (start_state (example_plan ''p'' [''a'']) empty_cluster)
      = (Inr (zero_outcome, None), (start_state (example_plan ''p'' [''a'']) empty_cluster)\<lparr>st_trace := [ListPods ''a'']\<rparr>)"
    by (simp add: drainNode_def getDrainConfig_def example_plan_def example_spec_def filterPodsForDrain_def go_bind_def
        go_try_def go_map_err_def client_call_def read_clock_def go_ret_def start_state_def empty_cluster_def
        classifyPods_def empty_filter_result_def initial_outcome_def zero_outcome_def example_node_def len32_def)
  from goroutine_is_drainNode [OF this] show ?thesis by blast
qed

end
