(* ===== verification/Status.thy ===== *)
theory Status
  imports Node_Entries
begin

text \<open>
  \<open>internal/maintenance/status.go\<close>: the per-node status, the plan's conditions and the
  summaries. \<open>UpdateStatus\<close> runs once per pass, before drift is acted on; what it sends to
  the API server is characterised condition by condition.
\<close>

section \<open>Definitions\<close>

record summary =
  sum_ready :: int
  sum_draining :: int
  sum_blocked :: int
  sum_progress :: int
  sum_drifted :: bool

definition summary_step :: "NodeStatus \<Rightarrow> summary \<Rightarrow> summary" where
  "summary_step ns c =
     (let c1 = c\<lparr>sum_progress := i32 (sum_progress c + ns_DrainProgress ns)\<rparr>;
          c2 = (if ReadyForMaintenance ns then c1\<lparr>sum_ready := i32 (sum_ready c1 + 1)\<rparr>
                else if 0 < TotalPods ns \<and> BlockedPods ns < TotalPods ns
                then c1\<lparr>sum_draining := i32 (sum_draining c1 + 1)\<rparr> else c1);
          c3 = (if 0 < BlockedPods ns \<and> BlockedPods ns = TotalPods ns
                then c2\<lparr>sum_blocked := i32 (sum_blocked c2 + 1)\<rparr> else c2)
      in if ns_Drifted ns then c3\<lparr>sum_drifted := True\<rparr> else c3)"

definition summarise :: "NodeStatus list \<Rightarrow> summary" where
  "summarise nodes = fold summary_step nodes
     \<lparr>sum_ready = 0, sum_draining = 0, sum_blocked = 0, sum_progress = 0, sum_drifted = False\<rparr>"

definition computePhase :: "'w env \<Rightarrow> Plan \<Rightarrow> string" where
  "computePhase E plan =
     (if isConditionTrue E plan ConditionDrainTimedOut then PhaseTimedOut
      else if isConditionTrue E plan ConditionConflict then PhaseConflict
      else if AllNodesReadyForMaintenance (Status plan) then PhaseReady
      else if isConditionTrue E plan ConditionDrainBlocked then PhaseBlocked
      else if isConditionTrue E plan ConditionDrainInProgress then PhaseDraining
      else if isConditionTrue E plan ConditionCordoned then PhaseCordoned
      else if isConditionTrue E plan ConditionScheduled then PhaseScheduled
      else if isConditionTrue E plan ConditionNodesSelected then PhaseAdopted
      else PhasePending)"

definition of_total :: "int \<Rightarrow> int \<Rightarrow> string" where
  "of_total n nn = show_int n @ ''/'' @ show_int nn"

definition recomputePlanSummaries :: "'w env \<Rightarrow> Plan \<Rightarrow> Plan" where
  "recomputePlanSummaries E plan =
     (let nodes = status_Nodes (Status plan); c = summarise nodes; nn = len32 nodes;
          plan1 = plan\<lparr>Status := (Status plan)\<lparr>
            ReadySummary := of_total (sum_ready c) nn,
            DrainingNodeCount := of_total (sum_draining c) nn,
            BlockedNodeCount := of_total (sum_blocked c) nn,
            plan_Drifted := Some (sum_drifted c),
            plan_DrainProgress := (if 0 < nn then show_int (go_div (sum_progress c) nn) @ ''%'' else ''0%'')\<rparr>\<rparr>
      in plan1\<lparr>Status := (Status plan1)\<lparr>Phase := computePhase E plan1\<rparr>\<rparr>)"

definition index_nodes :: "NodeStatus list \<Rightarrow> (string \<times> NodeStatus) list" where
  "index_nodes nodes = fold (\<lambda>ns m. AList.update (ns_Name ns) ns m) nodes []"

fun load_nodes :: "string list \<Rightarrow> ('w, Node list) op" where
  "load_nodes [] = go_ret []"
| "load_nodes (a # as) = go_bind (load_node a) (\<lambda>n. go_bind (load_nodes as) (\<lambda>ns. go_ret (n # ns)))"

definition warn_disappeared :: "string list \<Rightarrow> string list \<Rightarrow> NodeStatus \<Rightarrow> ('w, unit) op" where
  "warn_disappeared allNames releaseNames ns =
     (if ns_Name ns \<in> set allNames then go_ret ()
      else if ns_Name ns \<in> set releaseNames then go_ret ()
      else go_when (0 < InitialPodCount ns \<and> ns_DrainProgress ns < 100)
        (Eventf None EventTypeWarning ''NodeDisappeared'' ''DrainNode''
          ''node %q disappeared from the cluster while drain was in progress'' [AStr (ns_Name ns)]))"

definition warnDisappearedNodes :: "'w env \<Rightarrow> (string \<times> NodeStatus) list \<Rightarrow> OwnershipResolution \<Rightarrow> ('w, unit) op" where
  "warnDisappearedNodes E existing res =
     go_bind (load_nodes (res_All res)) (\<lambda>all. go_bind (load_nodes (ToRelease res)) (\<lambda>release.
       go_for (k_range E ''existing'' (map fst existing)) (\<lambda>k. case map_of existing k of
          None \<Rightarrow> go_ret ()
        | Some ns \<Rightarrow> warn_disappeared (map node_Name all) (map node_Name release) ns)))"

definition node_status :: "(string \<times> NodeStatus) list \<Rightarrow> Plan \<Rightarrow> time \<Rightarrow> Node \<Rightarrow> NodeStatus" where
  "node_status existing plan now node =
     (let d0 = DetectNodeDrift node plan;
          d1 = (if \<not> fst d0 then GetNodeDriftState plan (node_Name node) else d0);
          d2 = (if snd d1 = DriftReasonMaintenanceComplete then (False, '''') else d1);
          ns = (case map_of existing (node_Name node) of None \<Rightarrow> zero_NodeStatus | Some ns \<Rightarrow> ns)
      in ns\<lparr>ns_Name := node_Name node, Cordoned := Unschedulable node,
            ns_Drifted := fst d2, DriftReason := snd d2,
            NotReadySince := (if \<not> isNodeReady node
               then (if NotReadySince ns = None then Some now else NotReadySince ns) else None)\<rparr>)"

definition buildNodeStatuses :: "(string \<times> NodeStatus) list \<Rightarrow> Node list \<Rightarrow> Plan \<Rightarrow> time \<Rightarrow> NodeStatus list" where
  "buildNodeStatuses existing nodes plan now = map (node_status existing plan now) nodes"

definition set_selected :: "'w env \<Rightarrow> NodeStatus list \<Rightarrow> Plan \<Rightarrow> Plan" where
  "set_selected E statuses plan =
     (if 0 < length statuses
      then setCondition E ConditionNodesSelected ''True'' ''NodesAdopted''
             (show_int (int (length statuses)) @ '' node(s) under management'') plan
      else setCondition E ConditionNodesSelected ''False'' ''NoNodes'' ''No nodes selected or all nodes released'' plan)"

fun cordon_scan :: "NodeStatus list \<Rightarrow> bool \<times> nat \<Rightarrow> bool \<times> nat" where
  "cordon_scan [] acc = acc"
| "cordon_scan (ns # nss) (allCordoned, nonDriftedCount) =
     (if ns_Drifted ns then cordon_scan nss (allCordoned, nonDriftedCount)
      else cordon_scan nss (if \<not> Cordoned ns then False else allCordoned, Suc nonDriftedCount))"

definition all_cordoned :: "Plan \<Rightarrow> NodeStatus list \<Rightarrow> bool" where
  "all_cordoned plan statuses =
     (case cordon_scan statuses (cordonEnabled plan \<and> 0 < length statuses, 0) of
        (allCordoned, nonDriftedCount) \<Rightarrow> if nonDriftedCount = 0 then False else allCordoned)"

definition set_cordoned :: "'w env \<Rightarrow> bool \<Rightarrow> Plan \<Rightarrow> Plan" where
  "set_cordoned E allCordoned plan =
     (if allCordoned then setCondition E ConditionCordoned ''True'' ''AllNodesCordoned'' ''All managed nodes are unschedulable'' plan
      else setCondition E ConditionCordoned ''False'' ''NotAllCordoned'' ''Not all managed nodes are unschedulable'' plan)"

definition set_conflict :: "'w env \<Rightarrow> OwnershipResolution \<Rightarrow> Plan \<Rightarrow> Plan" where
  "set_conflict E res plan =
     (if 0 < length (Conflicting res)
      then setCondition E ConditionConflict ''True'' ''NodeConflict''
             (show_int (int (length (Conflicting res))) @ '' node(s) already owned by another plan'') plan
      else setCondition E ConditionConflict ''False'' ''NoConflict'' ''No conflicting node ownership'' plan)"

text \<open>
  The clock is read a second time only when the conditions before it hold (\<open>&&\<close>).
\<close>

definition is_scheduled :: "'w env \<Rightarrow> bool \<Rightarrow> Plan \<Rightarrow> ('w, time option) op" where
  "is_scheduled E allCordoned plan =
     (if allCordoned \<or> \<not> cordonEnabled plan then go_ret None
      else case Option.bind (Cordon (Spec plan)) cordon_StartAt of
        None \<Rightarrow> go_ret None
      | Some t \<Rightarrow> go_bind (read_clock (k_clockNow E)) (\<lambda>now. go_ret (if now < t then Some t else None)))"

definition set_scheduled :: "'w env \<Rightarrow> time option \<Rightarrow> Plan \<Rightarrow> Plan" where
  "set_scheduled E scheduled plan = (case scheduled of
     Some t \<Rightarrow> setCondition E ConditionScheduled ''True'' ''ScheduledInFuture'' (''cordon scheduled for '' @ k_RFC3339 E t) plan
   | None \<Rightarrow> setCondition E ConditionScheduled ''False'' ''NotScheduled'' ''No pending scheduled activation'' plan)"

definition drifted_names :: "NodeStatus list \<Rightarrow> string list" where
  "drifted_names statuses = map ns_Name (filter ns_Drifted statuses)"

definition set_drift :: "'w env \<Rightarrow> NodeStatus list \<Rightarrow> Plan \<Rightarrow> Plan" where
  "set_drift E statuses plan =
     (let names = drifted_names statuses in
      if 0 < length names
      then setCondition E ConditionDriftDetected ''True'' ''NodeDrifted''
             (show_int (int (length names)) @ '' node(s) drifted: '' @ join '', '' names) plan
      else setCondition E ConditionDriftDetected ''False'' ''NoDrift'' ''No managed nodes have drifted'' plan)"

definition not_ready_node :: "'w env \<Rightarrow> bool \<Rightarrow> NodeStatus \<Rightarrow> string list \<Rightarrow> ('w, string list) op" where
  "not_ready_node E drain ns names = (case NotReadySince ns of
     None \<Rightarrow> go_ret names
   | Some since \<Rightarrow>
       go_bind (read_clock (k_clockNow E)) (\<lambda>now.
         if nodeNotReadyThreshold \<le> time_sub now since then
           go_then (go_when (\<not> drain) (Eventf None EventTypeWarning ''NodeNotReady'' ''ObserveNode''
             ''node %q has been NotReady for >%ds; Kubernetes node lifecycle controller is managing pod eviction''
             [AStr (ns_Name ns), AInt 300]))
           (go_ret (names @ [ns_Name ns]))
         else go_ret names))"

definition setNodeNotReadyCondition :: "'w env \<Rightarrow> NodeStatus list \<Rightarrow> ('w, unit) op" where
  "setNodeNotReadyCondition E statuses = go_bind get_plan (\<lambda>plan.
     go_bind (go_fold statuses [] (not_ready_node E (drainEnabled plan))) (\<lambda>names.
       modify_plan (if 0 < length names
         then setCondition E ConditionNodeNotReady ''True'' ''NodeNotReady''
                (show_int (int (length names)) @ '' node(s) NotReady beyond threshold: '' @ join '', '' names)
         else setCondition E ConditionNodeNotReady ''False'' ''AllNodesReady'' ''All managed nodes are healthy'')))"

definition set_statuses :: "NodeStatus list \<Rightarrow> Plan \<Rightarrow> Plan" where
  "set_statuses statuses plan = plan\<lparr>Status := (Status plan)\<lparr>status_Nodes := statuses,
     NodeCount := len32 statuses, ObservedGeneration := Generation plan\<rparr>\<rparr>"

definition set_snapshot :: "OwnershipResolution \<Rightarrow> Plan \<Rightarrow> Plan" where
  "set_snapshot res plan = (case SnapshotNodes res of None \<Rightarrow> plan
     | Some names \<Rightarrow> plan\<lparr>Status := (Status plan)\<lparr>ResolvedNodes := names, NodeSnapshotTaken := True\<rparr>\<rparr>)"

definition UpdateStatus :: "'w env \<Rightarrow> OwnershipResolution \<Rightarrow> ('w, unit) op" where
  "UpdateStatus E res = go_bind get_plan (\<lambda>original.
     let existing = index_nodes (status_Nodes (Status original)) in
     go_then (warnDisappearedNodes E existing res)
     (go_bind (read_clock (k_clockNow E)) (\<lambda>now.
      go_bind (load_nodes (res_All res)) (\<lambda>nodes.
      let statuses = buildNodeStatuses existing nodes original now;
          allCordoned = all_cordoned original statuses in
      go_then (modify_plan (\<lambda>plan. set_conflict E res (set_cordoned E allCordoned
                (set_selected E statuses (set_statuses statuses plan)))))
      (go_bind (is_scheduled E allCordoned original) (\<lambda>scheduled.
       go_then (modify_plan (\<lambda>plan. set_drift E statuses (set_scheduled E scheduled plan)))
       (go_then (setNodeNotReadyCondition E statuses)
       (go_then (modify_plan (\<lambda>plan. set_snapshot res (recomputePlanSummaries E plan)))
       (patch_plan_status E original)))))))))"

section \<open>Lemmas on the pure parts\<close>

lemma cordon_scan_result:
  "cordon_scan nss (b, k) = (b \<and> (\<forall>ns \<in> set nss. ns_Drifted ns \<or> Cordoned ns), k + length (filter (\<lambda>ns. \<not> ns_Drifted ns) nss))"
  by (induction nss arbitrary: b k) auto

lemma all_cordoned_iff:
  "all_cordoned plan statuses \<longleftrightarrow> cordonEnabled plan \<and> (\<exists>ns \<in> set statuses. \<not> ns_Drifted ns) \<and>
     (\<forall>ns \<in> set statuses. ns_Drifted ns \<or> Cordoned ns)"
  by (cases statuses) (auto simp: all_cordoned_def cordon_scan_result filter_empty_conv)

lemma index_nodes_map: "map_of (index_nodes nodes) nm = map_of (map (\<lambda>ns. (ns_Name ns, ns)) (rev nodes)) nm"
proof -
  have "map_of (fold (\<lambda>ns m. AList.update (ns_Name ns) ns m) nodes m) nm =
      (case map_of (map (\<lambda>ns. (ns_Name ns, ns)) (rev nodes)) nm of Some x \<Rightarrow> Some x | None \<Rightarrow> map_of m nm)" for m
    by (induction nodes arbitrary: m) (auto simp: update_conv map_add_def split: option.splits)
  from this [of "[]"] show ?thesis by (simp add: index_nodes_def split: option.splits)
qed

lemma index_nodes_Some: "map_of (index_nodes nodes) nm = Some ns \<Longrightarrow> ns \<in> set nodes \<and> ns_Name ns = nm"
  unfolding index_nodes_map by (auto dest: map_of_SomeD)

lemma index_nodes_None: "map_of (index_nodes nodes) nm = None \<longleftrightarrow> nm \<notin> ns_Name ` set nodes"
  unfolding index_nodes_map by (simp add: map_of_eq_None_iff image_image)

text \<open>Summaries touch the summary fields only, and condition writers the conditions only.\<close>

lemma recompute_frame [simp]:
  "plan_Name (recomputePlanSummaries E p) = plan_Name p" "Spec (recomputePlanSummaries E p) = Spec p"
  "Generation (recomputePlanSummaries E p) = Generation p"
  "Conditions (Status (recomputePlanSummaries E p)) = Conditions (Status p)"
  "status_Nodes (Status (recomputePlanSummaries E p)) = status_Nodes (Status p)"
  "NodeCount (Status (recomputePlanSummaries E p)) = NodeCount (Status p)"
  "DrainStartedAt (Status (recomputePlanSummaries E p)) = DrainStartedAt (Status p)"
  "ObservedGeneration (Status (recomputePlanSummaries E p)) = ObservedGeneration (Status p)"
  "AllNodesReadyForMaintenance (Status (recomputePlanSummaries E p)) = AllNodesReadyForMaintenance (Status p)"
  "ResolvedNodes (Status (recomputePlanSummaries E p)) = ResolvedNodes (Status p)"
  "NodeSnapshotTaken (Status (recomputePlanSummaries E p)) = NodeSnapshotTaken (Status p)"
  by (simp_all add: recomputePlanSummaries_def Let_def)

lemma isConditionTrue_cong:
  "Conditions (Status p) = Conditions (Status q) \<Longrightarrow> isConditionTrue E p c = isConditionTrue E q c"
  by (simp add: isConditionTrue_def)

lemma computePhase_cong:
  "Conditions (Status p) = Conditions (Status q) \<Longrightarrow>
   AllNodesReadyForMaintenance (Status p) = AllNodesReadyForMaintenance (Status q) \<Longrightarrow>
   computePhase E p = computePhase E q"
  by (simp add: computePhase_def isConditionTrue_def)

lemma plan_phase_set: "Phase (Status (p\<lparr>Status := st\<lparr>Phase := x\<rparr>\<rparr>)) = x"
  by simp

lemma recompute_condition [simp]: "isConditionTrue E' (recomputePlanSummaries E p) c = isConditionTrue E' p c"
  by (rule isConditionTrue_cong) simp

lemma recompute_phase: "Phase (Status (recomputePlanSummaries E p)) = computePhase E (recomputePlanSummaries E p)"
  unfolding recomputePlanSummaries_def Let_def plan_phase_set by (rule computePhase_cong) simp_all

lemma snapshot_frame [simp]:
  "plan_Name (set_snapshot res p) = plan_Name p" "Spec (set_snapshot res p) = Spec p"
  "Conditions (Status (set_snapshot res p)) = Conditions (Status p)"
  "status_Nodes (Status (set_snapshot res p)) = status_Nodes (Status p)"
  "NodeCount (Status (set_snapshot res p)) = NodeCount (Status p)"
  "Phase (Status (set_snapshot res p)) = Phase (Status p)"
  "DrainStartedAt (Status (set_snapshot res p)) = DrainStartedAt (Status p)"
  "ObservedGeneration (Status (set_snapshot res p)) = ObservedGeneration (Status p)"
  "AllNodesReadyForMaintenance (Status (set_snapshot res p)) = AllNodesReadyForMaintenance (Status p)"
  by (simp_all add: set_snapshot_def split: option.splits)

text \<open>The condition writers as one: the type they write, and when it is true.\<close>

definition writes_condition :: "'w env \<Rightarrow> string \<Rightarrow> bool \<Rightarrow> (Plan \<Rightarrow> Plan) \<Rightarrow> bool" where
  "writes_condition E c b f \<longleftrightarrow> (\<forall>p. \<exists>r m. f p = setCondition E c (if b then ''True'' else ''False'') r m p)"

lemma writes_condition_intros:
  "writes_condition E ConditionNodesSelected (statuses \<noteq> []) (set_selected E statuses)"
  "writes_condition E ConditionCordoned b (set_cordoned E b)"
  "writes_condition E ConditionConflict (Conflicting res \<noteq> []) (set_conflict E res)"
  "writes_condition E ConditionScheduled (sch \<noteq> None) (set_scheduled E sch)"
  "writes_condition E ConditionDriftDetected (\<exists>ns \<in> set statuses. ns_Drifted ns) (set_drift E statuses)"
  by (auto simp: writes_condition_def set_selected_def set_cordoned_def set_conflict_def set_scheduled_def
      set_drift_def drifted_names_def Let_def filter_empty_conv split: option.splits)

lemma writes_condition_true:
  assumes "writes_condition E c b f" "condition_laws E"
  shows "isConditionTrue E (f p) c' = (if c' = c then b else isConditionTrue E p c')"
proof -
  obtain r m where "f p = setCondition E c (if b then ''True'' else ''False'') r m p"
    using assms(1) unfolding writes_condition_def by blast
  then show ?thesis by (simp add: isConditionTrue_set [OF assms(2)])
qed

lemma writes_condition_frame:
  assumes "writes_condition E c b f"
  shows "\<exists>cs. f p = p\<lparr>Status := (Status p)\<lparr>Conditions := cs\<rparr>\<rparr>"
proof -
  obtain r m where "f p = setCondition E c (if b then ''True'' else ''False'') r m p"
    using assms unfolding writes_condition_def by blast
  then show ?thesis by (auto simp: setCondition_def)
qed

section \<open>The run of UpdateStatus\<close>

text \<open>
  Between its reads of the clock and its events, \<open>UpdateStatus\<close> works on a known plan, with
  the heap and the trace as they were; nothing before the patch can fail.
\<close>

definition sits :: "Plan \<Rightarrow> (string \<Rightarrow> Node option) \<Rightarrow> call list \<Rightarrow> 'w st \<Rightarrow> bool" where
  "sits p h tr s \<longleftrightarrow> st_plan s = p \<and> st_heap s = h \<and> st_trace s = tr"

lemma at_get_plan: "triple (sits p h tr) get_plan (\<lambda>q s. sits p h tr s \<and> q = p) X"
  by (rule triple_get_plan) (simp add: sits_def)

lemma at_read_clock: "triple (sits p h tr) (read_clock f) (\<lambda>_. sits p h tr) X"
  by (rule triple_read_clock) (simp add: sits_def)

lemma at_Eventf: "triple (sits p h tr) (Eventf r ty re ac no ar) (\<lambda>_. sits p h tr) X"
  by (rule triple_Eventf) (simp add: sits_def)

lemma at_modify: "triple (sits p h tr) (modify_plan f) (\<lambda>_. sits (f p) h tr) X"
  by (rule triple_modify_plan) (simp add: sits_def)

lemma triple_pure_post: "(\<And>s. P s \<Longrightarrow> R) \<Longrightarrow> triple P m Q X \<Longrightarrow> triple P m (\<lambda>x s. Q x s \<and> R) X"
  by (fastforce simp: triple_def split: prod.splits sum.splits)

lemma triple_fact: "(c \<Longrightarrow> triple P m Q X) \<Longrightarrow> triple (\<lambda>s. P s \<and> c) m Q X"
  by (simp add: triple_def)

lemma at_load_nodes:
  "(\<And>a. a \<in> set as \<Longrightarrow> h a \<noteq> None) \<Longrightarrow>
   triple (sits p h tr) (load_nodes as) (\<lambda>ns s. sits p h tr s \<and> map Some ns = map h as) X"
proof (induction as)
  case Nil
  show ?case unfolding load_nodes.simps by (rule triple_ret) simp
next
  case (Cons a as)
  have load: "triple (sits p h tr) (load_node a) (\<lambda>n s. sits p h tr s \<and> Some n = h a) X"
    using Cons.prems [of a] by (intro triple_load_node) (auto simp: sits_def)
  have rest: "triple (\<lambda>s. sits p h tr s \<and> Some n = h a) (load_nodes as)
      (\<lambda>ns s. sits p h tr s \<and> map Some (n # ns) = map h (a # as)) X" for n
    using Cons.IH Cons.prems by (auto intro!: triple_fact elim: triple_weaken)
  show ?case unfolding load_nodes.simps
    by (rule triple_bind [OF load], rule triple_bind [OF rest], rule triple_ret)
qed

lemma at_warn:
  assumes "\<And>a. a \<in> set (res_All res @ ToRelease res) \<Longrightarrow> h a \<noteq> None"
  shows "triple (sits p h tr) (warnDisappearedNodes E existing res) (\<lambda>_. sits p h tr) X"
proof -
  have one: "triple (sits p h tr) (warn_disappeared xs ys ns) (\<lambda>_. sits p h tr) X" for xs ys ns
    unfolding warn_disappeared_def by (intro triple_if triple_ret triple_when at_Eventf)
  have body: "triple (sits p h tr) (case map_of existing k of None \<Rightarrow> go_ret () | Some ns \<Rightarrow> warn_disappeared xs ys ns)
      (\<lambda>_. sits p h tr) X" for k xs ys
    by (cases "map_of existing k") (auto intro: triple_ret one)
  have load: "triple (sits p h tr) (load_nodes as) (\<lambda>_. sits p h tr) X" if "\<And>a. a \<in> set as \<Longrightarrow> h a \<noteq> None" for as
    by (rule triple_weaken [OF at_load_nodes [OF that]]) auto
  show ?thesis unfolding warnDisappearedNodes_def
    by (rule triple_bind [OF load], use assms in force, rule triple_bind [OF load], use assms in force,
        rule triple_for, rule body)
qed

lemma at_is_scheduled:
  "triple (sits p h tr) (is_scheduled E b q) (\<lambda>sch s. sits p h tr s \<and> (sch \<noteq> None \<longrightarrow> \<not> b \<and> sch = cordon_start q)) X"
proof (cases "b \<or> \<not> cordonEnabled q")
  case True
  then show ?thesis unfolding is_scheduled_def by (auto intro: triple_ret)
next
  case False
  show ?thesis
  proof (cases "Option.bind (Cordon (Spec q)) cordon_StartAt")
    case None
    then show ?thesis unfolding is_scheduled_def by (auto intro: triple_ret)
  next
    case (Some t)
    have "triple (sits p h tr) (go_bind (read_clock (k_clockNow E)) (\<lambda>now. go_ret (if now < t then Some t else None)))
        (\<lambda>sch s. sits p h tr s \<and> (sch \<noteq> None \<longrightarrow> \<not> b \<and> sch = cordon_start q)) X"
      by (rule triple_bind [OF at_read_clock], rule triple_ret) (use False Some in \<open>auto simp: cordon_start_def\<close>)
    with False Some show ?thesis by (simp add: is_scheduled_def)
  qed
qed

lemma at_not_ready_node: "triple (sits p h tr) (not_ready_node E d ns names) (\<lambda>_. sits p h tr) X"
proof (cases "NotReadySince ns")
  case None
  then show ?thesis by (auto simp: not_ready_node_def intro: triple_ret)
next
  case (Some since)
  have "triple (sits p h tr) (go_bind (read_clock (k_clockNow E)) (\<lambda>now.
         if nodeNotReadyThreshold \<le> time_sub now since then
           go_then (go_when (\<not> d) (Eventf None ty re ac no ar)) (go_ret x)
         else go_ret y)) (\<lambda>_. sits p h tr) X" for x y :: "string list" and ty re ac no ar
    by (rule triple_bind [OF at_read_clock], rule triple_if, rule triple_then, rule triple_when,
        rule at_Eventf, assumption, rule triple_ret, assumption, rule triple_ret)
  with Some show ?thesis by (simp add: not_ready_node_def)
qed

lemma at_setNodeNotReady:
  "triple (sits p h tr) (setNodeNotReadyCondition E statuses)
     (\<lambda>_ s. \<exists>b f. writes_condition E ConditionNodeNotReady b f \<and> sits (f p) h tr s) X"
proof -
  have loop: "triple (sits p h tr) (go_fold statuses [] (not_ready_node E d)) (\<lambda>_. sits p h tr) X" for d
    by (rule triple_fold [where I = "\<lambda>_. sits p h tr"]) (rule at_not_ready_node)
  have w: "writes_condition E ConditionNodeNotReady (0 < length names)
      (if 0 < length names then setCondition E ConditionNodeNotReady ''True'' r1 m1
       else setCondition E ConditionNodeNotReady ''False'' r2 m2)" for names :: "string list" and r1 m1 r2 m2
    by (auto simp: writes_condition_def)
  show ?thesis unfolding setNodeNotReadyCondition_def
    by (rule triple_bind [OF at_get_plan], rule triple_fact, rule triple_bind [OF loop],
        rule triple_weaken [OF at_modify]) (use w in blast)+
qed

text \<open>The plan \<open>UpdateStatus\<close> sends, from the nodes, the moment and the rest of what it saw.\<close>

definition status_sent :: "'w env \<Rightarrow> OwnershipResolution \<Rightarrow> Plan \<Rightarrow> NodeStatus list \<Rightarrow> time option \<Rightarrow> (Plan \<Rightarrow> Plan) \<Rightarrow> Plan" where
  "status_sent E res plan statuses sch f =
     set_snapshot res (recomputePlanSummaries E (f (set_drift E statuses (set_scheduled E sch
       (set_conflict E res (set_cordoned E (all_cordoned plan statuses) (set_selected E statuses (set_statuses statuses plan))))))))"

definition status_patched :: "'w env \<Rightarrow> OwnershipResolution \<Rightarrow> Plan \<Rightarrow> (string \<Rightarrow> Node option) \<Rightarrow> call list \<Rightarrow> 'w st \<Rightarrow> bool" where
  "status_patched E res plan h tr s \<longleftrightarrow> (\<exists>nodes now sch b f statuses.
     map Some nodes = map h (res_All res) \<and>
     statuses = buildNodeStatuses (index_nodes (status_Nodes (Status plan))) nodes plan now \<and>
     (sch \<noteq> None \<longrightarrow> \<not> all_cordoned plan statuses \<and> sch = cordon_start plan) \<and>
     writes_condition E ConditionNodeNotReady b f \<and> st_heap s = h \<and>
     st_trace s = tr @ [PatchPlanStatus plan (status_sent E res plan statuses sch f)])"

lemma status_patchedI:
  "map Some nodes = map h (res_All res) \<Longrightarrow>
   statuses = buildNodeStatuses (index_nodes (status_Nodes (Status plan))) nodes plan now \<Longrightarrow>
   sch \<noteq> None \<longrightarrow> \<not> all_cordoned plan statuses \<and> sch = cordon_start plan \<Longrightarrow>
   writes_condition E ConditionNodeNotReady b f \<Longrightarrow> st_heap s = h \<Longrightarrow>
   st_trace s = tr @ [PatchPlanStatus plan (status_sent E res plan statuses sch f)] \<Longrightarrow>
   status_patched E res plan h tr s"
  unfolding status_patched_def by blast

text \<open>The server has accepted the last request.\<close>

definition answered :: "'w env \<Rightarrow> 'w st \<Rightarrow> bool" where
  "answered E s \<longleftrightarrow> (\<exists>o1 m w p w'. last (st_trace s) = PatchPlanStatus o1 m \<and> k_patchPlanStatus E o1 m w = (Inr p, w'))"

text \<open>Everything before the patch reads and computes: what the patch then does is what the whole does.\<close>

lemma UpdateStatus_to_patch:
  fixes E :: "'w env"
  assumes heap: "\<And>a. a \<in> set (res_All res @ ToRelease res) \<Longrightarrow> h a \<noteq> None"
    and patch: "\<And>nodes now sch b f statuses. map Some nodes = map h (res_All res) \<Longrightarrow>
      statuses = buildNodeStatuses (index_nodes (status_Nodes (Status plan))) nodes plan now \<Longrightarrow>
      sch \<noteq> None \<longrightarrow> \<not> all_cordoned plan statuses \<and> sch = cordon_start plan \<Longrightarrow>
      writes_condition E ConditionNodeNotReady b f \<Longrightarrow>
      triple (sits (status_sent E res plan statuses sch f) h tr) (patch_plan_status E plan) Q X"
  shows "triple (sits plan h tr) (UpdateStatus E res) Q X"
proof -
  have heap': "\<And>a. a \<in> set (res_All res) \<Longrightarrow> h a \<noteq> None" using heap by simp
  have tail: "triple (\<lambda>s. \<exists>b f. writes_condition E ConditionNodeNotReady b f \<and> sits (f q) h tr s)
      (go_then (modify_plan (\<lambda>plan. set_snapshot res (recomputePlanSummaries E plan))) (patch_plan_status E plan)) Q X"
    if seen: "map Some nodes = map h (res_All res)"
      "statuses = buildNodeStatuses (index_nodes (status_Nodes (Status plan))) nodes plan now"
      "sch \<noteq> None \<longrightarrow> \<not> all_cordoned plan statuses \<and> sch = cordon_start plan"
      and q: "q = set_drift E statuses (set_scheduled E sch (set_conflict E res
        (set_cordoned E (all_cordoned plan statuses) (set_selected E statuses (set_statuses statuses plan)))))"
    for q nodes now sch statuses
  proof (rule triple_then)
    show "triple (\<lambda>s. \<exists>b f. writes_condition E ConditionNodeNotReady b f \<and> sits (f q) h tr s)
        (modify_plan (\<lambda>plan. set_snapshot res (recomputePlanSummaries E plan)))
        (\<lambda>_ s. \<exists>b f. writes_condition E ConditionNodeNotReady b f \<and> sits (status_sent E res plan statuses sch f) h tr s) X"
      by (rule triple_modify_plan, elim exE conjE, intro exI conjI, assumption)
        (auto simp: sits_def status_sent_def q)
    show "triple (\<lambda>s. \<exists>b f. writes_condition E ConditionNodeNotReady b f \<and> sits (status_sent E res plan statuses sch f) h tr s)
        (patch_plan_status E plan) Q X"
      unfolding triple_def
    proof (intro allI impI, elim exE conjE)
      fix s :: "'w st" and b f assume w: "writes_condition E ConditionNodeNotReady b f" and s: "sits (status_sent E res plan statuses sch f) h tr s"
      from patch [OF seen w, unfolded triple_def, rule_format, OF s]
      show "case patch_plan_status E plan s of (Inl e, t) \<Rightarrow> X t | (Inr x, t) \<Rightarrow> Q x t" .
    qed
  qed
  show ?thesis unfolding UpdateStatus_def Let_def
    apply (rule triple_bind [OF at_get_plan], rule triple_fact, hypsubst)
    apply (rule triple_then [OF at_warn [OF heap]], assumption)
    apply (rule triple_bind [OF at_read_clock])
    apply (rule triple_bind [OF at_load_nodes [OF heap']], assumption, rule triple_fact)
    apply (rule triple_then [OF at_modify])
    apply (rule triple_bind [OF at_is_scheduled], rule triple_fact)
    apply (rule triple_then [OF at_modify])
    apply (rule triple_then [OF at_setNodeNotReady])
    by (rule tail, assumption, rule refl, assumption, rule refl)
qed

lemma UpdateStatus_answered:
  assumes heap: "\<And>a. a \<in> set (res_All res @ ToRelease res) \<Longrightarrow> h a \<noteq> None"
  shows "triple (sits plan h tr) (UpdateStatus E res)
     (\<lambda>_ s. status_patched E res plan h tr s \<and> answered E s) (status_patched E res plan h tr)"
proof (rule UpdateStatus_to_patch [OF heap])
  fix nodes now sch b f statuses
  assume seen: "map Some nodes = map h (res_All res)"
    "statuses = buildNodeStatuses (index_nodes (status_Nodes (Status plan))) nodes plan now"
    "sch \<noteq> None \<longrightarrow> \<not> all_cordoned plan statuses \<and> sch = cordon_start plan" "writes_condition E ConditionNodeNotReady b f"
  show "triple (sits (status_sent E res plan statuses sch f) h tr) (patch_plan_status E plan)
      (\<lambda>_ s. status_patched E res plan h tr s \<and> answered E s) (status_patched E res plan h tr)"
    by (rule triple_patch_plan_status; (rule conjI)?; (rule status_patchedI [OF seen])?)
      (auto simp: sits_def answered_def)
qed

lemma UpdateStatus_run:
  assumes heap: "\<And>a. a \<in> set (res_All res @ ToRelease res) \<Longrightarrow> h a \<noteq> None"
  shows "triple (sits plan h tr) (UpdateStatus E res)
     (\<lambda>_. status_patched E res plan h tr) (status_patched E res plan h tr)"
  by (rule triple_weaken [OF UpdateStatus_answered [OF heap]]) auto

text \<open>Reading the conditions of the plan sent, writer by writer.\<close>

lemma status_sent_true:
  assumes L: "condition_laws E" and w: "writes_condition E ConditionNodeNotReady b f"
  shows "isConditionTrue E (status_sent E res plan statuses sch f) c =
    (if c = ConditionNodeNotReady then b
     else if c = ConditionDriftDetected then \<exists>ns \<in> set statuses. ns_Drifted ns
     else if c = ConditionScheduled then sch \<noteq> None
     else if c = ConditionConflict then Conflicting res \<noteq> []
     else if c = ConditionCordoned then all_cordoned plan statuses
     else if c = ConditionNodesSelected then statuses \<noteq> []
     else isConditionTrue E plan c)"
proof -
  have snap: "isConditionTrue E (set_snapshot res p) c = isConditionTrue E p c" for p
    by (rule isConditionTrue_cong) simp
  have stat: "isConditionTrue E (set_statuses statuses p) c = isConditionTrue E p c" for p
    by (rule isConditionTrue_cong) (simp add: set_statuses_def)
  show ?thesis
    unfolding status_sent_def snap recompute_condition writes_condition_true [OF w L]
      writes_condition_true [OF writes_condition_intros(1) L] writes_condition_true [OF writes_condition_intros(2) L]
      writes_condition_true [OF writes_condition_intros(3) L] writes_condition_true [OF writes_condition_intros(4) L]
      writes_condition_true [OF writes_condition_intros(5) L] stat ..
qed

lemma status_sent_frame:
  assumes w: "writes_condition E ConditionNodeNotReady b f"
  shows "status_Nodes (Status (status_sent E res plan statuses sch f)) = statuses"
    "NodeCount (Status (status_sent E res plan statuses sch f)) = len32 statuses"
    "ObservedGeneration (Status (status_sent E res plan statuses sch f)) = Generation plan"
    "Spec (status_sent E res plan statuses sch f) = Spec plan"
    "plan_Name (status_sent E res plan statuses sch f) = plan_Name plan"
    "DrainStartedAt (Status (status_sent E res plan statuses sch f)) = DrainStartedAt (Status plan)"
    "AllNodesReadyForMaintenance (Status (status_sent E res plan statuses sch f)) = AllNodesReadyForMaintenance (Status plan)"
    "NodeSnapshotTaken (Status (status_sent E res plan statuses sch f)) =
       (SnapshotNodes res \<noteq> None \<or> NodeSnapshotTaken (Status plan))"
    "ResolvedNodes (Status (status_sent E res plan statuses sch f)) =
       (case SnapshotNodes res of None \<Rightarrow> ResolvedNodes (Status plan) | Some names \<Rightarrow> names)"
proof -
  note fr = writes_condition_frame [OF writes_condition_intros(1), of E statuses]
    writes_condition_frame [OF writes_condition_intros(2), of E "all_cordoned plan statuses"]
    writes_condition_frame [OF writes_condition_intros(3), of E res]
    writes_condition_frame [OF writes_condition_intros(4), of E sch]
    writes_condition_frame [OF writes_condition_intros(5), of E statuses]
  let ?p0 = "set_statuses statuses plan"
  obtain cs where cs: "f (set_drift E statuses (set_scheduled E sch (set_conflict E res
      (set_cordoned E (all_cordoned plan statuses) (set_selected E statuses ?p0))))) = ?p0\<lparr>Status := (Status ?p0)\<lparr>Conditions := cs\<rparr>\<rparr>"
    using writes_condition_frame [OF w, of "set_drift E statuses (set_scheduled E sch (set_conflict E res
        (set_cordoned E (all_cordoned plan statuses) (set_selected E statuses ?p0))))"]
      fr(1) [of ?p0] fr(2) [of "set_selected E statuses ?p0"]
      fr(3) [of "set_cordoned E (all_cordoned plan statuses) (set_selected E statuses ?p0)"]
      fr(4) [of "set_conflict E res (set_cordoned E (all_cordoned plan statuses) (set_selected E statuses ?p0))"]
      fr(5) [of "set_scheduled E sch (set_conflict E res (set_cordoned E (all_cordoned plan statuses) (set_selected E statuses ?p0)))"]
    by auto
  show "status_Nodes (Status (status_sent E res plan statuses sch f)) = statuses"
    "NodeCount (Status (status_sent E res plan statuses sch f)) = len32 statuses"
    "ObservedGeneration (Status (status_sent E res plan statuses sch f)) = Generation plan"
    "Spec (status_sent E res plan statuses sch f) = Spec plan"
    "plan_Name (status_sent E res plan statuses sch f) = plan_Name plan"
    "DrainStartedAt (Status (status_sent E res plan statuses sch f)) = DrainStartedAt (Status plan)"
    "AllNodesReadyForMaintenance (Status (status_sent E res plan statuses sch f)) = AllNodesReadyForMaintenance (Status plan)"
    unfolding status_sent_def cs by (simp_all add: set_statuses_def)
  show "NodeSnapshotTaken (Status (status_sent E res plan statuses sch f)) =
       (SnapshotNodes res \<noteq> None \<or> NodeSnapshotTaken (Status plan))"
    "ResolvedNodes (Status (status_sent E res plan statuses sch f)) =
       (case SnapshotNodes res of None \<Rightarrow> ResolvedNodes (Status plan) | Some names \<Rightarrow> names)"
    unfolding status_sent_def cs set_snapshot_def by (simp_all add: set_statuses_def split: option.splits)
qed

lemma status_sent_phase:
  "Phase (Status (status_sent E res plan statuses sch f)) = computePhase E (status_sent E res plan statuses sch f)"
  unfolding status_sent_def snapshot_frame(6) recompute_phase by (rule computePhase_cong) simp_all

text \<open>The summary loop counts.\<close>

lemma summary_fold:
  "int (length nodes) + sum_ready c \<le> max_pods \<Longrightarrow> int (length nodes) + sum_draining c \<le> max_pods \<Longrightarrow>
   int (length nodes) + sum_blocked c \<le> max_pods \<Longrightarrow>
   0 \<le> sum_ready c \<Longrightarrow> 0 \<le> sum_draining c \<Longrightarrow> 0 \<le> sum_blocked c \<Longrightarrow> 0 \<le> sum_progress c \<Longrightarrow>
   sum_progress c + 100 * int (length nodes) \<le> 100 * max_pods \<Longrightarrow> list_all entry_ok nodes \<Longrightarrow>
   fold summary_step nodes c = \<lparr>
     sum_ready = sum_ready c + int (length (filter ReadyForMaintenance nodes)),
     sum_draining = sum_draining c + int (length (filter (\<lambda>ns. \<not> ReadyForMaintenance ns \<and> 0 < TotalPods ns \<and> BlockedPods ns < TotalPods ns) nodes)),
     sum_blocked = sum_blocked c + int (length (filter (\<lambda>ns. 0 < BlockedPods ns \<and> BlockedPods ns = TotalPods ns) nodes)),
     sum_progress = sum_progress c + sum_list (map ns_DrainProgress nodes),
     sum_drifted = (sum_drifted c \<or> (\<exists>ns \<in> set nodes. ns_Drifted ns))\<rparr>"
proof (induction nodes arbitrary: c)
  case Nil
  show ?case by simp
next
  case (Cons ns nodes)
  have small: "0 \<le> ns_DrainProgress ns" "ns_DrainProgress ns \<le> 100" using Cons.prems by (simp_all add: entry_ok_def)
  have prog: "i32 (sum_progress c + ns_DrainProgress ns) = sum_progress c + ns_DrainProgress ns"
    "i32 (sum_ready c + 1) = sum_ready c + 1" "i32 (sum_draining c + 1) = sum_draining c + 1"
    "i32 (sum_blocked c + 1) = sum_blocked c + 1"
    using small Cons.prems by (simp_all add: max_pods_def)
  have step: "summary_step ns c = \<lparr>
      sum_ready = sum_ready c + (if ReadyForMaintenance ns then 1 else 0),
      sum_draining = sum_draining c + (if \<not> ReadyForMaintenance ns \<and> 0 < TotalPods ns \<and> BlockedPods ns < TotalPods ns then 1 else 0),
      sum_blocked = sum_blocked c + (if 0 < BlockedPods ns \<and> BlockedPods ns = TotalPods ns then 1 else 0),
      sum_progress = sum_progress c + ns_DrainProgress ns,
      sum_drifted = (sum_drifted c \<or> ns_Drifted ns)\<rparr>"
    by (simp add: summary_step_def Let_def prog)
  show ?case
    unfolding fold_simps step
    by (subst Cons.IH) (use Cons.prems small in auto)
qed

lemma summarise_counts:
  assumes "list_all entry_ok nodes" "int (length nodes) \<le> max_pods"
  shows "summarise nodes = \<lparr>
     sum_ready = int (length (filter ReadyForMaintenance nodes)),
     sum_draining = int (length (filter (\<lambda>ns. \<not> ReadyForMaintenance ns \<and> 0 < TotalPods ns \<and> BlockedPods ns < TotalPods ns) nodes)),
     sum_blocked = int (length (filter (\<lambda>ns. 0 < BlockedPods ns \<and> BlockedPods ns = TotalPods ns) nodes)),
     sum_progress = sum_list (map ns_DrainProgress nodes),
     sum_drifted = (\<exists>ns \<in> set nodes. ns_Drifted ns)\<rparr>"
  unfolding summarise_def by (subst summary_fold) (use assms in auto)

lemma progress_sum:
  "list_all entry_ok nodes \<Longrightarrow> 0 \<le> sum_list (map ns_DrainProgress nodes) \<and>
     sum_list (map ns_DrainProgress nodes) \<le> 100 * int (length nodes) \<and>
     (sum_list (map ns_DrainProgress nodes) = 100 * int (length nodes) \<longleftrightarrow> (\<forall>ns \<in> set nodes. ns_DrainProgress ns = 100))"
  by (induction nodes) (auto simp: entry_ok_def)

section \<open>Properties\<close>

text \<open>
  The summaries count: ready nodes over all nodes, nodes with pods still to move, nodes
  whose pods are all blocked; and the plan's progress is the average of the nodes', between 0
  and 100, and 100 exactly when every node is at 100.
\<close>

theorem summaries_count:
  assumes ok: "entries_ok plan" and small: "int (length (status_Nodes (Status plan))) \<le> max_pods"
    and nodes: "nodes = status_Nodes (Status plan)" "nodes \<noteq> []"
  shows "ReadySummary (Status (recomputePlanSummaries E plan)) =
      of_total (int (length (filter ReadyForMaintenance nodes))) (int (length nodes)) \<and>
    DrainingNodeCount (Status (recomputePlanSummaries E plan)) =
      of_total (int (length (filter (\<lambda>ns. \<not> ReadyForMaintenance ns \<and> 0 < TotalPods ns \<and> BlockedPods ns < TotalPods ns) nodes))) (int (length nodes)) \<and>
    BlockedNodeCount (Status (recomputePlanSummaries E plan)) =
      of_total (int (length (filter (\<lambda>ns. 0 < BlockedPods ns \<and> BlockedPods ns = TotalPods ns) nodes))) (int (length nodes)) \<and>
    plan_Drifted (Status (recomputePlanSummaries E plan)) = Some (\<exists>ns \<in> set nodes. ns_Drifted ns) \<and>
    (\<exists>avg. plan_DrainProgress (Status (recomputePlanSummaries E plan)) = show_int avg @ ''%'' \<and>
      avg = sum_list (map ns_DrainProgress nodes) div int (length nodes) \<and> 0 \<le> avg \<and> avg \<le> 100 \<and>
      (avg = 100 \<longleftrightarrow> (\<forall>ns \<in> set nodes. ns_DrainProgress ns = 100)))"
proof -
  let ?n = "int (length nodes)" and ?sum = "sum_list (map ns_DrainProgress nodes)"
  have ok': "list_all entry_ok nodes" and n: "0 < ?n" "?n \<le> max_pods" using ok small nodes by auto
  have len: "len32 nodes = ?n" using n by (simp add: len32_def max_pods_def)
  have s: "0 \<le> ?sum" "?sum \<le> 100 * ?n" "?sum = 100 * ?n \<longleftrightarrow> (\<forall>ns \<in> set nodes. ns_DrainProgress ns = 100)"
    using progress_sum [OF ok'] by blast+
  have avg: "go_div ?sum ?n = ?sum div ?n" using s n by (simp add: go_div_nonneg)
  have "?sum div ?n \<le> 100" using zdiv_mono1 [OF s(2) n(1)] n by simp
  moreover have "0 \<le> ?sum div ?n" using s n by (simp add: pos_imp_zdiv_nonneg_iff)
  moreover have "?sum div ?n = 100 \<longleftrightarrow> ?sum = 100 * ?n"
  proof
    assume "?sum div ?n = 100"
    then have "100 * ?n + ?sum mod ?n = ?sum" by (metis div_mult_mod_eq)
    moreover have "0 \<le> ?sum mod ?n" by (rule pos_mod_sign) (rule n)
    ultimately show "?sum = 100 * ?n" using s(2) by linarith
  next
    assume "?sum = 100 * ?n"
    then show "?sum div ?n = 100" using n by simp
  qed
  ultimately show ?thesis
    unfolding recomputePlanSummaries_def Let_def nodes(1) [symmetric] len summarise_counts [OF ok' n(2)]
    using n s(3) avg by simp
qed

theorem summaries_count_witness:
  "plan_Drifted (Status (recomputePlanSummaries memory_env
     ((example_plan ''p'' [''a''])\<lparr>Status := empty_status\<lparr>status_Nodes := [zero_NodeStatus]\<rparr>\<rparr>))) = Some False"
  using summaries_count [of "(example_plan ''p'' [''a''])\<lparr>Status := empty_status\<lparr>status_Nodes := [zero_NodeStatus]\<rparr>\<rparr>"
      "[zero_NodeStatus]" memory_env]
  by (simp add: entry_ok_def zero_NodeStatus_def max_pods_def)



text \<open>One entry over a sequence of passes.\<close>

definition entry_passes :: "(Plan \<times> Node \<times> time) list \<Rightarrow> NodeStatus \<Rightarrow> NodeStatus" where
  "entry_passes obs ns0 = fold (\<lambda>(plan, node, now) ns. node_status [(node_Name node, ns)] plan now node) obs ns0"

text \<open>
  C33. Across passes, the time an entry says its node is not ready since is the first
  observation of the current streak of not-ready observations; one ready observation in
  between starts over.
\<close>

theorem NotReadySince_streak:
  assumes "NotReadySince ns0 = None"
  shows "NotReadySince (entry_passes obs ns0) =
    (let streak = takeWhile (\<lambda>(plan, node, now). \<not> isNodeReady node) (rev obs)
     in if streak = [] then None else Some (snd (snd (last streak))))"
proof (induction obs rule: rev_induct)
  case Nil
  show ?case using assms by (simp add: entry_passes_def)
next
  case (snoc x obs)
  obtain plan node now where x: "x = (plan, node, now)" by (cases x)
  have "entry_passes (obs @ [x]) ns0 = node_status [(node_Name node, entry_passes obs ns0)] plan now node"
    by (simp add: entry_passes_def x)
  then have step: "NotReadySince (entry_passes (obs @ [x]) ns0) =
      (if isNodeReady node then None
       else case NotReadySince (entry_passes obs ns0) of None \<Rightarrow> Some now | Some t \<Rightarrow> Some t)"
    by (auto simp: node_status_def Let_def split: option.splits)
  show ?case
    unfolding step snoc.IH by (auto simp: x Let_def last_ConsR)
qed

theorem NotReadySince_streak_witness:
  "NotReadySince (entry_passes [(example_plan ''p'' [], (example_node ''a'')\<lparr>node_Conditions := []\<rparr>, 5),
      (example_plan ''p'' [], (example_node ''a'')\<lparr>node_Conditions := []\<rparr>, 9)] zero_NodeStatus) = Some 5"
  using NotReadySince_streak [of zero_NodeStatus "[(example_plan ''p'' [], (example_node ''a'')\<lparr>node_Conditions := []\<rparr>, 5),
      (example_plan ''p'' [], (example_node ''a'')\<lparr>node_Conditions := []\<rparr>, 9)]"]
  by (simp add: zero_NodeStatus_def isNodeReady_def example_node_def)

text \<open>
  Drift once reported stays reported, whatever the node looks like later, unless the node
  turns out to have completed maintenance; in particular an external cordon that was lifted
  is still reported as drift on every later pass.
\<close>

theorem drift_stays_reported:
  assumes old: "find_status plan (node_Name node) = Some ns" "ns_Drifted ns"
      "DriftReason ns \<noteq> DriftReasonMaintenanceComplete"
    and not_complete: "DetectNodeDrift node plan \<noteq> (True, DriftReasonMaintenanceComplete)"
  shows "ns_Drifted (node_status existing plan now node)"
proof (cases "fst (DetectNodeDrift node plan)")
  case True
  then have "snd (DetectNodeDrift node plan) \<noteq> DriftReasonMaintenanceComplete"
    using not_complete by (cases "DetectNodeDrift node plan") auto
  with True show ?thesis by (simp add: node_status_def Let_def)
next
  case False
  with old show ?thesis by (simp add: node_status_def Let_def GetNodeDriftState_def)
qed

theorem drift_stays_reported_witness:
  "\<not> Unschedulable (example_node ''a'') \<and>
   ns_Drifted (node_status [] ((example_plan ''p'' [''a''])\<lparr>Status := empty_status\<lparr>status_Nodes :=
     [zero_NodeStatus\<lparr>ns_Name := ''a'', ns_Drifted := True, DriftReason := DriftReasonExternalCordon\<rparr>]\<rparr>\<rparr>) 7 (example_node ''a''))"
proof -
  let ?ns = "zero_NodeStatus\<lparr>ns_Name := ''a'', ns_Drifted := True, DriftReason := DriftReasonExternalCordon\<rparr>"
  let ?p = "(example_plan ''p'' [''a''])\<lparr>Status := empty_status\<lparr>status_Nodes := [?ns]\<rparr>\<rparr>"
  have "find_status ?p (node_Name (example_node ''a'')) = Some ?ns" by (simp add: find_status_def example_node_def)
  moreover have "DetectNodeDrift (example_node ''a'') ?p \<noteq> (True, DriftReasonMaintenanceComplete)"
    by (simp add: DetectNodeDrift_def example_node_def)
  ultimately show ?thesis
    using drift_stays_reported [of ?p "example_node ''a''" ?ns "[]" 7] by (simp add: example_node_def)
qed

end
