(* ===== verification/Drain_Reconcile.thy ===== *)
theory Drain_Reconcile
  imports Drain_Pool Status
begin

text \<open>
  \<open>internal/maintenance/drain_reconcile.go\<close>: one drain pass of a plan. The nodes that can be
  drained are drained (\<open>Drain_Pool\<close>), the results are written to the status entry by entry,
  the timeout of the plan is enforced, and the conditions and the requeue follow from three
  flags over all results.
\<close>

section \<open>Definitions\<close>

definition noRequeue :: duration where "noRequeue = 0"
definition drainCheckInterval :: duration where "drainCheckInterval = 5 * second"
definition drainBlockedRetry :: duration where "drainBlockedRetry = 15 * second"

definition setDrainConditions :: "'w env \<Rightarrow> bool \<Rightarrow> bool \<Rightarrow> bool \<Rightarrow> Plan \<Rightarrow> Plan" where
  "setDrainConditions E allDone anyBlocked evictionsInFlight plan =
     (if allDone then
        setCondition E ConditionDrainBlocked ''False'' ''Cleared'' ''No blocking issues''
        (setCondition E ConditionDrainInProgress ''False'' ''Idle'' ''Drain is not in progress''
        (setCondition E ConditionDrainSucceeded ''True'' ''AllPodsEvicted''
           ''All target pods have been evicted and removed from the nodes'' plan))
      else if anyBlocked \<and> \<not> evictionsInFlight then
        setCondition E ConditionDrainSucceeded ''False'' ''Blocked'' ''Drain has not succeeded yet''
        (setCondition E ConditionDrainInProgress ''False'' ''Blocked'' ''Drain is blocked and not making progress''
        (setCondition E ConditionDrainBlocked ''True'' ''PodBlocked'' ''One or more pods cannot be evicted'' plan))
      else
        (let p = setCondition E ConditionDrainSucceeded ''False'' ''InProgress'' ''Drain has not succeeded yet''
                 (setCondition E ConditionDrainInProgress ''True'' ''Evicting'' ''Pod evictions in progress'' plan)
         in if anyBlocked
            then setCondition E ConditionDrainBlocked ''True'' ''PDBBlocked'' ''One or more pods are blocked by PodDisruptionBudgets'' p
            else setCondition E ConditionDrainBlocked ''False'' ''Cleared'' ''No blocking issues'' p))"

text \<open>The three locals the loop over the results keeps.\<close>

record drain_flags =
  allDone :: bool
  evictionsInFlight :: bool
  anyBlocked :: bool

definition start_flags :: drain_flags where
  "start_flags = \<lparr>allDone = True, evictionsInFlight = False, anyBlocked = False\<rparr>"

definition result_drained :: "string \<Rightarrow> drainOutcome \<Rightarrow> Plan \<Rightarrow> drain_flags \<Rightarrow> ('w, drain_flags) op" where
  "result_drained nm out original fl =
     (let wasDraining = wasNodeDraining original nm in
      go_then (modify_plan (updateNodeDrainStatus nm out []))
      (go_then (go_when wasDraining (Eventf None EventTypeNormal ''NodeDrained'' ''CompleteDrain''
         ''node %q has been fully drained'' [AStr nm]))
      (go_bind get_plan (\<lambda>plan. case markNodeReadyForMaintenance nm plan of (plan', transitioned) \<Rightarrow>
         go_then (modify_plan (\<lambda>_. plan'))
         (go_then (go_when transitioned (Eventf None EventTypeNormal ''NodeReadyForMaintenance'' ''CompleteDrain''
            ''node %q is ready for maintenance'' [AStr nm]))
         (go_ret fl))))))"

definition result_evicting :: "string \<Rightarrow> drainOutcome \<Rightarrow> drain_flags \<Rightarrow> ('w, drain_flags) op" where
  "result_evicting nm out fl =
     go_then (modify_plan (updateNodeDrainStatus nm out (stuckTerminatingIssues (StuckPods out))))
     (go_ret (fl\<lparr>allDone := False, evictionsInFlight := True\<rparr>))"

definition result_stuck :: "string \<Rightarrow> drainOutcome \<Rightarrow> drain_flags \<Rightarrow> ('w, drain_flags) op" where
  "result_stuck nm out fl =
     go_then (modify_plan (updateNodeDrainStatus nm out (stuckTerminatingIssues (StuckPods out))))
     (go_then (Eventf None EventTypeWarning ''DrainBlocked'' ''DrainNode''
        ''node %q: %d pod(s) stuck in Terminating beyond grace period'' [AStr nm, AInt (StuckTerminating out)])
     (go_ret (fl\<lparr>allDone := False, anyBlocked := True,
        evictionsInFlight := (if 0 < Terminating out then True else evictionsInFlight fl)\<rparr>)))"

definition result_not_ready :: "'w env \<Rightarrow> string \<Rightarrow> time option \<Rightarrow> drain_flags \<Rightarrow> ('w, drain_flags) op" where
  "result_not_ready E nm notReadySince fl =
     go_bind (case notReadySince of None \<Rightarrow> go_ret False
              | Some t \<Rightarrow> go_bind (read_clock (k_clockNow E)) (\<lambda>now. go_ret (nodeNotReadyThreshold \<le> time_sub now t)))
       (\<lambda>yielded.
          go_then (modify_plan (setNodeIssues nm [nodeNotReadyIssue yielded]))
          (go_then (go_when yielded (Eventf None EventTypeWarning ''NodeNotReady'' ''YieldDrain''
             ''node %q has been NotReady for >%ds; yielding drain to Kubernetes node lifecycle controller''
             [AStr nm, AInt 300]))
          (go_ret (fl\<lparr>allDone := False, anyBlocked := True\<rparr>))))"

definition result_blocked :: "string \<Rightarrow> drainOutcome \<Rightarrow> string \<Rightarrow> Pod list \<Rightarrow> bool \<Rightarrow> drain_flags \<Rightarrow> ('w, drain_flags) op" where
  "result_blocked nm out node pods pdbBlocked fl =
     go_then (modify_plan (updateNodeDrainStatus nm out
        (blockedPodIssues pods pdbBlocked @ stuckTerminatingIssues (StuckPods out))))
     (go_then (Eventf None EventTypeWarning ''DrainBlocked'' ''DrainNode'' ''node %q: %s''
        [AStr nm, AStr (error_text (drainBlockedError node pods pdbBlocked))])
     (go_ret (fl\<lparr>allDone := False, anyBlocked := True,
        evictionsInFlight := (if 0 < Terminating out then True else evictionsInFlight fl)\<rparr>)))"

definition result_error :: "string \<Rightarrow> drainOutcome \<Rightarrow> go_error option \<Rightarrow> drain_flags \<Rightarrow> ('w, drain_flags) op" where
  "result_error nm out err fl =
     go_then (modify_plan (updateNodeDrainStatus nm out (stuckTerminatingIssues (StuckPods out))))
     (go_then (Eventf None EventTypeWarning ''DrainError'' ''DrainNode'' ''node %q: %v''
        [AStr nm, case err of None \<Rightarrow> AStr ''<nil>'' | Some e \<Rightarrow> AErr e])
     (go_ret (fl\<lparr>allDone := False\<rparr>)))"

definition apply_result :: "'w env \<Rightarrow> Plan \<Rightarrow> drainNodeResult \<Rightarrow> drain_flags \<Rightarrow> ('w, drain_flags) op" where
  "apply_result E original r fl =
     (let nm = NodeName r; out = Outcome r in
      case Err r of
        None \<Rightarrow>
          if Evicted out = 0 \<and> Terminating out = 0 \<and> StuckTerminating out = 0 then result_drained nm out original fl
          else if 0 < Evicted out then result_evicting nm out fl
          else if 0 < StuckTerminating out then result_stuck nm out fl
          else if 0 < Terminating out then result_evicting nm out fl
          else result_error nm out None fl
      | Some e \<Rightarrow> (case as_nodeNotReady e of
            Some (node, since) \<Rightarrow> result_not_ready E nm since fl
          | None \<Rightarrow> (case as_drainBlocked e of
                Some (node, pods, pdb) \<Rightarrow> result_blocked nm out node pods pdb fl
              | None \<Rightarrow> result_error nm out (Some e) fl)))"

definition record_start :: "time \<Rightarrow> Plan \<Rightarrow> Plan" where
  "record_start now plan = (case DrainStartedAt (Status plan) of
     None \<Rightarrow> plan\<lparr>Status := (Status plan)\<lparr>DrainStartedAt := Some now\<rparr>\<rparr> | Some _ \<Rightarrow> plan)"

definition drain_timeout :: "Plan \<Rightarrow> int option" where
  "drain_timeout plan = Option.bind (Drain (Spec plan)) TimeoutMinutes"

text \<open>The minutes that have run out; the duration is computed in 64 bits.\<close>

definition overdue :: "Plan \<Rightarrow> time \<Rightarrow> int option" where
  "overdue plan now = (case (DrainStartedAt (Status plan), drain_timeout plan) of
     (Some started, Some minutes) \<Rightarrow> if started + i64 (minutes * minute) < now then Some minutes else None
   | _ \<Rightarrow> None)"

definition set_timed_out :: "'w env \<Rightarrow> int \<Rightarrow> Plan \<Rightarrow> Plan" where
  "set_timed_out E minutes plan =
     setCondition E ConditionDrainSucceeded ''False'' ''TimedOut'' ''Drain timed out before completion''
     (setCondition E ConditionDrainInProgress ''False'' ''TimedOut'' ''Drain stopped due to timeout''
     (setCondition E ConditionDrainTimedOut ''True'' ''DeadlineExceeded''
        (''drain did not complete within '' @ show_int minutes @ '' minute(s)'') plan))"

definition abort_drain :: "'w env \<Rightarrow> Plan \<Rightarrow> int \<Rightarrow> ('w, duration) op" where
  "abort_drain E original minutes =
     go_then (modify_plan (set_timed_out E minutes))
     (go_then (Eventf None EventTypeWarning ''DrainTimedOut'' ''AbortDrain''
        ''drain deadline of %d minute(s) exceeded'' [AInt minutes])
     (go_then (go_map_err (Wrapped ''patching drain timeout status'') (patch_plan_status E original))
     (go_ret noRequeue)))"

definition set_all_ready :: "Plan \<Rightarrow> Plan" where
  "set_all_ready plan = plan\<lparr>Status := (Status plan)\<lparr>AllNodesReadyForMaintenance := allNodesReady plan\<rparr>\<rparr>"

definition requeue_of :: "drain_flags \<Rightarrow> duration" where
  "requeue_of fl = (if allDone fl then noRequeue
     else if evictionsInFlight fl then drainCheckInterval else drainBlockedRetry)"

definition conclude_drain :: "'w env \<Rightarrow> Plan \<Rightarrow> drain_flags \<Rightarrow> ('w, duration) op" where
  "conclude_drain E original fl =
     go_then (modify_plan (\<lambda>plan. set_all_ready (setDrainConditions E (allDone fl) (anyBlocked fl) (evictionsInFlight fl) plan)))
     (go_bind get_plan (\<lambda>plan.
      go_then (go_when (\<not> AllNodesReadyForMaintenance (Status original) \<and> AllNodesReadyForMaintenance (Status plan))
        (Eventf None EventTypeNormal ''AllNodesReadyForMaintenance'' ''ReconcileDrain''
          ''all managed nodes are ready for maintenance'' []))
      (go_then (modify_plan (recomputePlanSummaries E))
      (go_then (go_map_err (Wrapped ''patching drain status'') (patch_plan_status E original))
      (go_ret (requeue_of fl))))))"

definition applyDrainResults :: "'w env \<Rightarrow> drainNodeResult list \<Rightarrow> ('w, duration) op" where
  "applyDrainResults E results = go_bind get_plan (\<lambda>original.
     go_bind (go_fold results start_flags (apply_result E original)) (\<lambda>fl.
     go_bind (read_clock (k_metaNow E)) (\<lambda>now.
     go_then (go_when (\<not> allDone fl) (modify_plan (record_start now)))
     (go_bind get_plan (\<lambda>plan.
        case (if allDone fl then None else overdue plan now) of
          Some minutes \<Rightarrow> abort_drain E original minutes
        | None \<Rightarrow> conclude_drain E original fl)))))"

text \<open>The pre-pass over the stable nodes: results for the ones that are not ready, and the rest.\<close>

fun split_stable :: "(string \<Rightarrow> time option) \<Rightarrow> Node list \<Rightarrow> drainNodeResult list \<times> Node list \<Rightarrow> drainNodeResult list \<times> Node list" where
  "split_stable notReadySince [] acc = acc"
| "split_stable notReadySince (node # nodes) (results, nodesToDrain) =
     (if \<not> Unschedulable node then split_stable notReadySince nodes (results, nodesToDrain)
      else if \<not> isNodeReady node then
        split_stable notReadySince nodes (results @ [\<lparr>NodeName = node_Name node, Outcome = zero_outcome,
          Err = Some (nodeNotReadyError (node_Name node) (notReadySince (node_Name node)))\<rparr>], nodesToDrain)
      else split_stable notReadySince nodes (results, nodesToDrain @ [node]))"

definition not_ready_since :: "Plan \<Rightarrow> string \<Rightarrow> time option" where
  "not_ready_since plan nm =
     Option.bind (map_of (index_nodes (filter (\<lambda>ns. NotReadySince ns \<noteq> None) (status_Nodes (Status plan)))) nm) NotReadySince"

definition max_parallel :: "Plan \<Rightarrow> nat" where
  "max_parallel plan = (case Option.bind (Drain (Spec plan)) drain_Options of
     None \<Rightarrow> 1 | Some opts \<Rightarrow> if 0 < MaxParallel opts then nat (MaxParallel opts) else 1)"

definition ReconcileDrain :: "'w env \<Rightarrow> OwnershipResolution \<Rightarrow> ('w, duration) op" where
  "ReconcileDrain E res = go_bind get_plan (\<lambda>plan.
     case getDrainConfig plan of
       None \<Rightarrow> go_ret noRequeue
     | Some cfg \<Rightarrow>
         if isConditionTrue E plan ConditionDrainTimedOut then go_ret noRequeue
         else go_bind (load_nodes (Stable res)) (\<lambda>nodes.
           case split_stable (not_ready_since plan) nodes ([], []) of (results, nodesToDrain) \<Rightarrow>
             if nodesToDrain = [] \<and> results = [] then go_ret noRequeue
             else go_bind (drainNodes E plan nodesToDrain (max_parallel plan)) (\<lambda>drained.
               applyDrainResults E (results @ drained))))"

text \<open>
  The documentation's words for a result: its node is drained; its drain makes progress; its
  drain is blocked.
\<close>

definition drained :: "drainNodeResult \<Rightarrow> bool" where
  "drained r \<longleftrightarrow> Err r = None \<and> Evicted (Outcome r) = 0 \<and> Terminating (Outcome r) = 0 \<and> StuckTerminating (Outcome r) = 0"

definition blocked_error :: "drainNodeResult \<Rightarrow> bool" where
  "blocked_error r \<longleftrightarrow> (\<exists>e. Err r = Some e \<and> as_nodeNotReady e = None \<and> as_drainBlocked e \<noteq> None)"

definition not_ready_error :: "drainNodeResult \<Rightarrow> bool" where
  "not_ready_error r \<longleftrightarrow> (\<exists>e. Err r = Some e \<and> as_nodeNotReady e \<noteq> None)"

definition progressing :: "drainNodeResult \<Rightarrow> bool" where
  "progressing r \<longleftrightarrow> Err r = None \<and> (0 < Evicted (Outcome r) \<or> 0 < Terminating (Outcome r)) \<or>
     blocked_error r \<and> 0 < Terminating (Outcome r)"

definition blocking :: "drainNodeResult \<Rightarrow> bool" where
  "blocking r \<longleftrightarrow> Err r = None \<and> \<not> 0 < Evicted (Outcome r) \<and> 0 < StuckTerminating (Outcome r) \<or>
     not_ready_error r \<or> blocked_error r"

definition flag_step :: "drainNodeResult \<Rightarrow> drain_flags \<Rightarrow> drain_flags" where
  "flag_step r fl = \<lparr>allDone = (allDone fl \<and> drained r), evictionsInFlight = (evictionsInFlight fl \<or> progressing r),
     anyBlocked = (anyBlocked fl \<or> blocking r)\<rparr>"

definition flags_of :: "drainNodeResult list \<Rightarrow> drain_flags" where
  "flags_of results = \<lparr>allDone = (\<forall>r \<in> set results. drained r),
     evictionsInFlight = (\<exists>r \<in> set results. progressing r), anyBlocked = (\<exists>r \<in> set results. blocking r)\<rparr>"

text \<open>
  What the loop does to an entry: only what \<open>entry_frame\<close> allows; the counters stay in order
  (given legal outcomes); readiness is new only for a cordoned node among \<open>D\<close>.
\<close>

definition entry_step :: "bool \<Rightarrow> string set \<Rightarrow> NodeStatus \<Rightarrow> NodeStatus \<Rightarrow> bool" where
  "entry_step ok D a b \<longleftrightarrow> entry_frame a b \<and> (ok \<longrightarrow> entry_ok a \<longrightarrow> entry_ok b) \<and>
     (ReadyForMaintenance b \<longrightarrow> ReadyForMaintenance a \<or> ns_Name a \<in> D \<and> Cordoned a)"

definition with_entries :: "Plan \<Rightarrow> NodeStatus list \<Rightarrow> Plan" where
  "with_entries p nss = p\<lparr>Status := (Status p)\<lparr>status_Nodes := nss\<rparr>\<rparr>"

section \<open>The loop over the results\<close>

lemma flags_of_fold: "fold flag_step results start_flags = flags_of results"
proof -
  have "fold flag_step results fl = \<lparr>allDone = (allDone fl \<and> (\<forall>r \<in> set results. drained r)),
     evictionsInFlight = (evictionsInFlight fl \<or> (\<exists>r \<in> set results. progressing r)),
     anyBlocked = (anyBlocked fl \<or> (\<exists>r \<in> set results. blocking r))\<rparr>" for fl
    by (induction results arbitrary: fl) (auto simp: flag_step_def)
  then show ?thesis by (simp add: flags_of_def start_flags_def)
qed

lemma entry_step_refl: "entry_step ok D ns ns"
  by (simp add: entry_step_def entry_frame_refl)

lemma entry_step_trans: "entry_step ok D a b \<Longrightarrow> entry_step ok D b c \<Longrightarrow> entry_step ok D a c"
  unfolding entry_step_def using entry_frame_trans [of a b c] by (auto simp: entry_frame_def)

lemma entries_step_trans:
  "list_all2 (entry_step ok D) xs ys \<Longrightarrow> list_all2 (entry_step ok D) ys zs \<Longrightarrow> list_all2 (entry_step ok D) xs zs"
  by (rule list_all2_trans [OF entry_step_trans])

lemma update_named_step:
  "(\<And>ns. find (\<lambda>ns. ns_Name ns = nm) nss = Some ns \<Longrightarrow> entry_step ok D ns (upd ns)) \<Longrightarrow>
   list_all2 (entry_step ok D) nss (update_named nm upd nss)"
  by (induction nss) (auto simp: entry_step_refl list_all2_refl split: if_splits)

lemma with_entries_simps [simp]:
  "with_entries (with_entries p nss) nss' = with_entries p nss'"
  "status_Nodes (Status (with_entries p nss)) = nss" "with_entries p (status_Nodes (Status p)) = p"
  "update_entry nm upd (with_entries p nss) = with_entries p (update_named nm upd nss)"
  "DrainStartedAt (Status (with_entries p nss)) = DrainStartedAt (Status p)" "Spec (with_entries p nss) = Spec p"
  "Conditions (Status (with_entries p nss)) = Conditions (Status p)"
  "plan_Name (with_entries p nss) = plan_Name p"
  "find_status (with_entries p nss) nm = find (\<lambda>ns. ns_Name ns = nm) nss"
  by (simp_all add: with_entries_def update_entry_def find_status_def)

definition in_loop :: "Plan \<Rightarrow> bool \<Rightarrow> string set \<Rightarrow> (string \<Rightarrow> Node option) \<Rightarrow> call list \<Rightarrow> 'w st \<Rightarrow> bool" where
  "in_loop plan ok D h tr s \<longleftrightarrow> st_heap s = h \<and> st_trace s = tr \<and>
     (\<exists>nss. st_plan s = with_entries plan nss \<and> list_all2 (entry_step ok D) (status_Nodes (Status plan)) nss)"

lemma in_loop_Eventf: "triple (in_loop plan ok D h tr) (Eventf r ty re ac no ar) (\<lambda>_. in_loop plan ok D h tr) X"
  by (rule triple_Eventf) (simp add: in_loop_def)

lemma in_loop_read_clock: "triple (in_loop plan ok D h tr) (read_clock f) (\<lambda>_. in_loop plan ok D h tr) X"
  by (rule triple_read_clock) (simp add: in_loop_def)

lemma in_loop_update:
  assumes "\<And>ns. entry_step ok D ns (upd ns)"
  shows "triple (in_loop plan ok D h tr) (modify_plan (update_entry nm upd)) (\<lambda>_. in_loop plan ok D h tr) X"
proof (rule triple_modify_plan)
  fix s :: "'a st" assume "in_loop plan ok D h tr s"
  then obtain nss where s: "st_heap s = h" "st_trace s = tr" "st_plan s = with_entries plan nss"
      "list_all2 (entry_step ok D) (status_Nodes (Status plan)) nss" unfolding in_loop_def by blast
  have "list_all2 (entry_step ok D) nss (update_named nm upd nss)" by (rule update_named_step) (rule assms)
  from entries_step_trans [OF s(4) this] s(1-3)
  show "in_loop plan ok D h tr (s\<lparr>st_plan := update_entry nm upd (st_plan s)\<rparr>)" by (auto simp: in_loop_def)
qed

lemma drain_entry_step: "(ok \<longrightarrow> outcome_ok out) \<Longrightarrow> entry_step ok D ns (drain_entry out iss ns)"
  using drain_write.upd_frame [of ns out iss] drain_entry_ok by (auto simp: entry_step_def)

lemma issues_entry_step: "entry_step ok D ns (issues_entry iss ns)"
  using issues_write.upd_frame [of ns iss] issues_write.upd_ok [OF TrueI, of ns iss]
  by (auto simp: entry_step_def issues_entry_def)

lemma in_loop_drain:
  "(ok \<longrightarrow> outcome_ok out) \<Longrightarrow>
   triple (in_loop plan ok D h tr) (modify_plan (updateNodeDrainStatus nm out iss)) (\<lambda>_. in_loop plan ok D h tr) X"
  unfolding updateNodeDrainStatus_def by (intro in_loop_update drain_entry_step)

lemma in_loop_ready:
  assumes "nm \<in> D"
  shows "triple (in_loop plan ok D h tr)
    (go_bind get_plan (\<lambda>p. case markNodeReadyForMaintenance nm p of (p', b) \<Rightarrow>
       go_then (modify_plan (\<lambda>_. p')) (go_then (go_when b (Eventf r ty re ac no ar)) (go_ret x))))
    (\<lambda>y s. in_loop plan ok D h tr s \<and> y = x) X"
proof -
  have mark: "in_loop plan ok D h tr (s\<lparr>st_plan := p'\<rparr>)"
    if s: "in_loop plan ok D h tr s" and m: "markNodeReadyForMaintenance nm (st_plan s) = (p', b)" for s :: "'a st" and p' b
  proof (cases b)
    case False
    then have "p' = st_plan s" using m by (auto simp: markNodeReadyForMaintenance_def split: option.splits if_splits)
    then show ?thesis using s by (simp add: in_loop_def)
  next
    case True
    obtain nss where nss: "st_plan s = with_entries plan nss" "list_all2 (entry_step ok D) (status_Nodes (Status plan)) nss"
      and rest: "st_heap s = h" "st_trace s = tr" using s unfolding in_loop_def by blast
    obtain ns where ns: "find (\<lambda>ns. ns_Name ns = nm) nss = Some ns" "Cordoned ns"
      and p': "p' = with_entries plan (update_named nm ready_entry nss)"
      using m True nss(1) by (auto simp: markNodeReadyForMaintenance_def split: option.splits if_splits)
    have "ns_Name ns = nm" using ns(1) by (auto simp: find_Some_iff)
    then have "entry_step ok D ns (ready_entry ns)"
      using ns(2) assms ready_write.upd_frame [of ns] ready_write.upd_ok [OF TrueI, of ns] by (auto simp: entry_step_def)
    then have "list_all2 (entry_step ok D) nss (update_named nm ready_entry nss)"
      using ns(1) by (intro update_named_step) simp
    from entries_step_trans [OF nss(2) this] show ?thesis unfolding in_loop_def using p' rest by auto
  qed
  have run: "triple (\<lambda>s. in_loop plan ok D h tr s \<and> markNodeReadyForMaintenance nm (st_plan s) = (p', b))
      (go_then (modify_plan (\<lambda>_. p')) (go_then (go_when b (Eventf r ty re ac no ar)) (go_ret x)))
      (\<lambda>y s. in_loop plan ok D h tr s \<and> y = x) X" for p' b
    by (rule triple_then, rule triple_modify_plan, elim conjE, rule mark, assumption, assumption,
        rule triple_then, rule triple_when, rule in_loop_Eventf, assumption, rule triple_ret, simp)
  show ?thesis
  proof (rule triple_bind)
    show "triple (in_loop plan ok D h tr) get_plan (\<lambda>p s. in_loop plan ok D h tr s \<and> st_plan s = p) X"
      by (rule triple_get_plan) simp
    show "triple (\<lambda>s. in_loop plan ok D h tr s \<and> st_plan s = p)
      (case markNodeReadyForMaintenance nm p of (p', b) \<Rightarrow>
         go_then (modify_plan (\<lambda>_. p')) (go_then (go_when b (Eventf r ty re ac no ar)) (go_ret x)))
      (\<lambda>y s. in_loop plan ok D h tr s \<and> y = x) X" for p
      by (cases "markNodeReadyForMaintenance nm p") (auto intro: triple_weaken [OF run])
  qed
qed

text \<open>One result: the flags move by \<open>flag_step\<close>, the plan by the loop's invariant.\<close>

abbreviation (input) loop_post :: "Plan \<Rightarrow> bool \<Rightarrow> string set \<Rightarrow> (string \<Rightarrow> Node option) \<Rightarrow> call list \<Rightarrow> drain_flags
    \<Rightarrow> drain_flags \<Rightarrow> 'w st \<Rightarrow> bool" where
  "loop_post plan ok D h tr fl' \<equiv> \<lambda>fl s. in_loop plan ok D h tr s \<and> fl = fl'"

lemma loop_ret: "fl = fl' \<Longrightarrow> triple (in_loop plan ok D h tr) (go_ret fl) (loop_post plan ok D h tr fl') X"
  by (rule triple_ret) simp

lemma result_evicting_loop:
  "(ok \<longrightarrow> outcome_ok out) \<Longrightarrow> fl' = fl\<lparr>allDone := False, evictionsInFlight := True\<rparr> \<Longrightarrow>
   triple (in_loop plan ok D h tr) (result_evicting nm out fl) (loop_post plan ok D h tr fl') X"
  unfolding result_evicting_def by (rule triple_then, erule in_loop_drain, rule loop_ret) simp

lemma result_stuck_loop:
  "(ok \<longrightarrow> outcome_ok out) \<Longrightarrow>
   fl' = fl\<lparr>allDone := False, anyBlocked := True, evictionsInFlight := (0 < Terminating out \<or> evictionsInFlight fl)\<rparr> \<Longrightarrow>
   triple (in_loop plan ok D h tr) (result_stuck nm out fl) (loop_post plan ok D h tr fl') X"
  unfolding result_stuck_def
  by (rule triple_then, erule in_loop_drain, rule triple_then, rule in_loop_Eventf, rule loop_ret) simp

lemma result_blocked_loop:
  "(ok \<longrightarrow> outcome_ok out) \<Longrightarrow>
   fl' = fl\<lparr>allDone := False, anyBlocked := True, evictionsInFlight := (0 < Terminating out \<or> evictionsInFlight fl)\<rparr> \<Longrightarrow>
   triple (in_loop plan ok D h tr) (result_blocked nm out node pods pdb fl) (loop_post plan ok D h tr fl') X"
  unfolding result_blocked_def
  by (rule triple_then, erule in_loop_drain, rule triple_then, rule in_loop_Eventf, rule loop_ret) simp

lemma result_error_loop:
  "(ok \<longrightarrow> outcome_ok out) \<Longrightarrow> fl' = fl\<lparr>allDone := False\<rparr> \<Longrightarrow>
   triple (in_loop plan ok D h tr) (result_error nm out err fl) (loop_post plan ok D h tr fl') X"
  unfolding result_error_def
  by (rule triple_then, erule in_loop_drain, rule triple_then, rule in_loop_Eventf, rule loop_ret) simp

lemma result_drained_loop:
  "(ok \<longrightarrow> outcome_ok out) \<Longrightarrow> nm \<in> D \<Longrightarrow>
   triple (in_loop plan ok D h tr) (result_drained nm out original fl) (loop_post plan ok D h tr fl) X"
  unfolding result_drained_def Let_def
  by (rule triple_then, erule in_loop_drain, rule triple_then, rule triple_when, rule in_loop_Eventf, assumption,
      erule in_loop_ready)

lemma result_not_ready_loop:
  assumes "fl' = fl\<lparr>allDone := False, anyBlocked := True\<rparr>"
  shows "triple (in_loop plan ok D h tr) (result_not_ready E nm since fl) (loop_post plan ok D h tr fl') X"
proof -
  have clock: "triple (in_loop plan ok D h tr)
      (case since of None \<Rightarrow> go_ret False
       | Some t \<Rightarrow> go_bind (read_clock (k_clockNow E)) (\<lambda>now. go_ret (nodeNotReadyThreshold \<le> time_sub now t)))
      (\<lambda>_. in_loop plan ok D h tr) X"
    by (cases since) (auto intro!: triple_ret triple_bind [OF in_loop_read_clock])
  have issues: "triple (in_loop plan ok D h tr) (modify_plan (setNodeIssues nm iss)) (\<lambda>_. in_loop plan ok D h tr) X" for iss
    unfolding setNodeIssues_def by (intro in_loop_update issues_entry_step)
  show ?thesis unfolding result_not_ready_def
    by (rule triple_bind [OF clock], rule triple_then [OF issues],
        rule triple_then, rule triple_when, rule in_loop_Eventf, assumption, rule loop_ret) (simp add: assms)
qed

lemma apply_result_loop:
  assumes ok: "ok \<longrightarrow> outcome_ok (Outcome r)" and D: "drained r \<Longrightarrow> NodeName r \<in> D"
  shows "triple (in_loop plan ok D h tr) (apply_result E original r fl) (loop_post plan ok D h tr (flag_step r fl)) X"
proof (cases "Err r")
  case None
  then have none: "\<not> blocked_error r" "\<not> not_ready_error r" by (simp_all add: blocked_error_def not_ready_error_def)
  note flags = flag_step_def drained_def progressing_def blocking_def none None
  show ?thesis
    unfolding apply_result_def Let_def None option.case
  proof (intro triple_if)
    assume "Evicted (Outcome r) = 0 \<and> Terminating (Outcome r) = 0 \<and> StuckTerminating (Outcome r) = 0"
    then have "drained r" "flag_step r fl = fl" by (simp_all add: flags)
    then show "triple (in_loop plan ok D h tr) (result_drained (NodeName r) (Outcome r) original fl)
        (loop_post plan ok D h tr (flag_step r fl)) X"
      using result_drained_loop [OF ok D] by simp
  next
    assume "0 < Evicted (Outcome r)"
    then show "triple (in_loop plan ok D h tr) (result_evicting (NodeName r) (Outcome r) fl)
        (loop_post plan ok D h tr (flag_step r fl)) X"
      by (intro result_evicting_loop ok) (simp add: flags)
  next
    assume "\<not> (Evicted (Outcome r) = 0 \<and> Terminating (Outcome r) = 0 \<and> StuckTerminating (Outcome r) = 0)"
      "\<not> 0 < Evicted (Outcome r)" "0 < StuckTerminating (Outcome r)"
    then show "triple (in_loop plan ok D h tr) (result_stuck (NodeName r) (Outcome r) fl)
        (loop_post plan ok D h tr (flag_step r fl)) X"
      by (intro result_stuck_loop ok) (cases fl, auto simp: flags)
  next
    assume "\<not> (Evicted (Outcome r) = 0 \<and> Terminating (Outcome r) = 0 \<and> StuckTerminating (Outcome r) = 0)"
      "\<not> 0 < Evicted (Outcome r)" "\<not> 0 < StuckTerminating (Outcome r)" "0 < Terminating (Outcome r)"
    then show "triple (in_loop plan ok D h tr) (result_evicting (NodeName r) (Outcome r) fl)
        (loop_post plan ok D h tr (flag_step r fl)) X"
      by (intro result_evicting_loop ok) (simp add: flags)
  next
    assume "\<not> (Evicted (Outcome r) = 0 \<and> Terminating (Outcome r) = 0 \<and> StuckTerminating (Outcome r) = 0)"
      "\<not> 0 < Evicted (Outcome r)" "\<not> 0 < StuckTerminating (Outcome r)" "\<not> 0 < Terminating (Outcome r)"
    then show "triple (in_loop plan ok D h tr) (result_error (NodeName r) (Outcome r) None fl)
        (loop_post plan ok D h tr (flag_step r fl)) X"
      by (intro result_error_loop ok) (auto simp: flags)
  qed
next
  case (Some e)
  note flags = flag_step_def drained_def progressing_def blocking_def blocked_error_def not_ready_error_def Some
  show ?thesis
  proof (cases "as_nodeNotReady e")
    case None
    show ?thesis
    proof (cases "as_drainBlocked e")
      case (Some x)
      obtain node pods pdb where x: "x = (node, pods, pdb)" by (cases x)
      have "flag_step r fl = fl\<lparr>allDone := False, anyBlocked := True,
          evictionsInFlight := (0 < Terminating (Outcome r) \<or> evictionsInFlight fl)\<rparr>"
        using None Some by (cases fl, auto simp: flags x)
      then show ?thesis
        using result_blocked_loop [OF ok] \<open>Err r = Some e\<close> None Some x by (simp add: apply_result_def Let_def)
    next
      case nb: None
      have "flag_step r fl = fl\<lparr>allDone := False\<rparr>" using None nb by (simp add: flags)
      then show ?thesis
        using result_error_loop [OF ok] \<open>Err r = Some e\<close> None nb by (simp add: apply_result_def Let_def)
    qed
  next
    case (Some x)
    obtain node since where x: "x = (node, since)" by (cases x)
    have "flag_step r fl = fl\<lparr>allDone := False, anyBlocked := True\<rparr>" using Some by (simp add: flags)
    then show ?thesis
      using result_not_ready_loop \<open>Err r = Some e\<close> Some x by (simp add: apply_result_def Let_def)
  qed
qed

lemma results_loop:
  assumes ok: "\<And>r. r \<in> set results \<Longrightarrow> ok \<longrightarrow> outcome_ok (Outcome r)"
    and D: "\<And>r. r \<in> set results \<Longrightarrow> drained r \<Longrightarrow> NodeName r \<in> D"
  shows "triple (in_loop plan ok D h tr) (go_fold results start_flags (apply_result E original))
    (loop_post plan ok D h tr (flags_of results)) X"
proof -
  have "triple (\<lambda>s. in_loop plan ok D h tr s \<and> fold flag_step results start_flags = flags_of results)
      (go_fold results start_flags (apply_result E original))
      (\<lambda>fl s. in_loop plan ok D h tr s \<and> fold flag_step [] fl = flags_of results) X"
  proof (rule triple_fold_rest [where I = "\<lambda>rest fl s. in_loop plan ok D h tr s \<and> fold flag_step rest fl = flags_of results"])
    fix r rest and acc :: drain_flags assume r: "r \<in> set results"
    show "triple (\<lambda>s. in_loop plan ok D h tr s \<and> fold flag_step (r # rest) acc = flags_of results) (apply_result E original r acc)
        (\<lambda>acc' s. in_loop plan ok D h tr s \<and> fold flag_step rest acc' = flags_of results) X"
      by (rule triple_fact, rule triple_weaken [OF apply_result_loop [OF ok [OF r] D [OF r]]]) auto
  qed
  then show ?thesis by (simp add: flags_of_fold)
qed

section \<open>The whole pass\<close>

text \<open>What \<open>applyDrainResults\<close> sends and returns, from the entries after the loop and the clock.\<close>

definition drain_report :: "'w env \<Rightarrow> bool \<Rightarrow> Plan \<Rightarrow> drainNodeResult list \<Rightarrow> Plan \<Rightarrow> duration \<Rightarrow> bool" where
  "drain_report E ok plan results p d \<longleftrightarrow> (\<exists>nss now.
     list_all2 (entry_step ok (NodeName ` {r \<in> set results. drained r})) (status_Nodes (Status plan)) nss \<and>
     (let fl = flags_of results; base = with_entries plan nss;
          started = (if allDone fl then base else record_start now base)
      in case (if allDone fl then None else overdue started now) of
           Some minutes \<Rightarrow> p = set_timed_out E minutes started \<and> d = noRequeue
         | None \<Rightarrow> p = recomputePlanSummaries E (set_all_ready (setDrainConditions E (allDone fl) (anyBlocked fl)
                     (evictionsInFlight fl) started)) \<and> d = requeue_of fl))"

lemma drain_report_conclude:
  assumes "list_all2 (entry_step ok (NodeName ` {r \<in> set results. drained r})) (status_Nodes (Status plan)) nss"
    and "p = (if allDone (flags_of results) then with_entries plan nss else record_start now (with_entries plan nss))"
    and "(if allDone (flags_of results) then None else overdue p now) = None"
  shows "drain_report E ok plan results (recomputePlanSummaries E (set_all_ready (setDrainConditions E (allDone (flags_of results))
      (anyBlocked (flags_of results)) (evictionsInFlight (flags_of results)) p))) (requeue_of (flags_of results))"
  unfolding drain_report_def Let_def
  by (rule exI [of _ nss], rule exI [of _ now], rule conjI [OF assms(1)])
    (cases "allDone (flags_of results)"; use assms(2,3) in simp)

lemma drain_report_abort:
  assumes "list_all2 (entry_step ok (NodeName ` {r \<in> set results. drained r})) (status_Nodes (Status plan)) nss"
    and "p = (if allDone (flags_of results) then with_entries plan nss else record_start now (with_entries plan nss))"
    and "(if allDone (flags_of results) then None else overdue p now) = Some minutes"
  shows "drain_report E ok plan results (set_timed_out E minutes p) noRequeue"
  unfolding drain_report_def Let_def
  by (rule exI [of _ nss], rule exI [of _ now], rule conjI [OF assms(1)])
    (cases "allDone (flags_of results)"; use assms(2,3) in simp)

definition drain_sent :: "'w env \<Rightarrow> bool \<Rightarrow> Plan \<Rightarrow> drainNodeResult list \<Rightarrow> (string \<Rightarrow> Node option) \<Rightarrow> call list \<Rightarrow> duration \<Rightarrow> 'w st \<Rightarrow> bool" where
  "drain_sent E ok plan results h tr d s \<longleftrightarrow> st_heap s = h \<and>
     (\<exists>p. st_trace s = tr @ [PatchPlanStatus plan p] \<and> drain_report E ok plan results p d)"

lemma sent_patch:
  assumes "drain_report E ok plan results p d"
  shows "triple (sits p h tr) (go_then (go_map_err f (patch_plan_status E plan)) (go_ret d))
    (\<lambda>d s. drain_sent E ok plan results h tr d s) (\<lambda>s. \<exists>d. drain_sent E ok plan results h tr d s)"
proof -
  have "triple (sits p h tr) (patch_plan_status E plan) (\<lambda>_. drain_sent E ok plan results h tr d)
      (\<lambda>s. \<exists>d. drain_sent E ok plan results h tr d s)"
    by (rule triple_patch_plan_status) (use assms in \<open>auto simp: sits_def drain_sent_def\<close>)
  then show ?thesis by (intro triple_then triple_map_err) (auto intro: triple_ret)
qed

lemma applyDrainResults_run:
  assumes ok: "\<And>r. r \<in> set results \<Longrightarrow> ok \<longrightarrow> outcome_ok (Outcome r)"
  shows "triple (sits plan h tr) (applyDrainResults E results)
    (\<lambda>d s. drain_sent E ok plan results h tr d s) (\<lambda>s. \<exists>d. drain_sent E ok plan results h tr d s)"
proof -
  let ?D = "NodeName ` {r \<in> set results. drained r}" and ?fl = "flags_of results"
  let ?X = "\<lambda>s. \<exists>d. drain_sent E ok plan results h tr d s"
  have loop: "triple (sits plan h tr) (go_fold results start_flags (apply_result E plan))
      (\<lambda>fl s. in_loop plan ok ?D h tr s \<and> fl = ?fl) ?X"
    by (rule triple_weaken [OF results_loop [OF ok]])
      (auto simp: sits_def in_loop_def list_all2_refl entry_step_refl intro!: exI [of _ "status_Nodes (Status plan)"])
  have start: "triple (in_loop plan ok ?D h tr) (go_when (\<not> allDone ?fl) (modify_plan (record_start now)))
      (\<lambda>_ s. \<exists>nss. list_all2 (entry_step ok ?D) (status_Nodes (Status plan)) nss \<and>
         sits (if allDone ?fl then with_entries plan nss else record_start now (with_entries plan nss)) h tr s) ?X" for now
    by (rule triple_when, rule triple_modify_plan) (auto simp: in_loop_def sits_def)
  have finish: "triple (sits p h tr)
      (case (if allDone ?fl then None else overdue p now) of
          Some minutes \<Rightarrow> abort_drain E plan minutes | None \<Rightarrow> conclude_drain E plan ?fl)
      (\<lambda>d s. drain_sent E ok plan results h tr d s) ?X"
    if nss: "list_all2 (entry_step ok ?D) (status_Nodes (Status plan)) nss"
      and p: "p = (if allDone ?fl then with_entries plan nss else record_start now (with_entries plan nss))" for p now nss
  proof (cases "if allDone ?fl then None else overdue p now")
    case None
    then have "drain_report E ok plan results (recomputePlanSummaries E (set_all_ready (setDrainConditions E (allDone ?fl) (anyBlocked ?fl)
        (evictionsInFlight ?fl) p))) (requeue_of ?fl)"
      using nss p by (intro drain_report_conclude)
    from sent_patch [OF this] show ?thesis
      unfolding None option.case conclude_drain_def
      by (intro triple_then [OF at_modify] triple_bind [OF at_get_plan] triple_fact triple_then [OF triple_when [OF at_Eventf]]) auto
  next
    case (Some minutes)
    then have "drain_report E ok plan results (set_timed_out E minutes p) noRequeue"
      using nss p by (intro drain_report_abort)
    from sent_patch [OF this] show ?thesis
      unfolding Some option.case abort_drain_def
      by (intro triple_then [OF at_modify] triple_then [OF at_Eventf])
  qed
  show ?thesis unfolding applyDrainResults_def
    apply (rule triple_bind [OF at_get_plan], rule triple_fact, hypsubst)
    apply (rule triple_bind [OF loop], rule triple_fact, hypsubst)
    apply (rule triple_bind [OF in_loop_read_clock])
    apply (rule triple_then [OF start])
    subgoal for now
      unfolding get_plan_def triple_def
      using finish by (fastforce simp: triple_def go_bind_def go_get_def sits_def)
    done
qed

text \<open>Conditions after the writers.\<close>

lemma setDrainConditions_true:
  assumes "condition_laws E"
  shows "isConditionTrue E (setDrainConditions E done blk flight p) c =
    (if c = ConditionDrainSucceeded then done
     else if c = ConditionDrainInProgress then \<not> done \<and> (flight \<or> \<not> blk)
     else if c = ConditionDrainBlocked then \<not> done \<and> blk
     else isConditionTrue E p c)"
  unfolding setDrainConditions_def Let_def
  by (cases "done"; cases blk; cases flight) (simp_all add: isConditionTrue_set [OF assms])

lemma set_timed_out_true:
  assumes "condition_laws E"
  shows "isConditionTrue E (set_timed_out E m p) c =
    (if c = ConditionDrainTimedOut then True
     else if c = ConditionDrainInProgress \<or> c = ConditionDrainSucceeded then False else isConditionTrue E p c)"
  unfolding set_timed_out_def by (simp add: isConditionTrue_set [OF assms])

lemma setDrainConditions_frame [simp]:
  "status_Nodes (Status (setDrainConditions E done blk flight p)) = status_Nodes (Status p)"
  "plan_Name (setDrainConditions E done blk flight p) = plan_Name p"
  "Spec (setDrainConditions E done blk flight p) = Spec p"
  "DrainStartedAt (Status (setDrainConditions E done blk flight p)) = DrainStartedAt (Status p)"
  by (simp_all add: setDrainConditions_def Let_def)

lemma set_timed_out_frame [simp]:
  "status_Nodes (Status (set_timed_out E m p)) = status_Nodes (Status p)"
  "plan_Name (set_timed_out E m p) = plan_Name p" "Phase (Status (set_timed_out E m p)) = Phase (Status p)"
  by (simp_all add: set_timed_out_def)

lemma record_start_frame [simp]:
  "status_Nodes (Status (record_start now p)) = status_Nodes (Status p)"
  "Conditions (Status (record_start now p)) = Conditions (Status p)"
  "Phase (Status (record_start now p)) = Phase (Status p)"
  "plan_Name (record_start now p) = plan_Name p" "Spec (record_start now p) = Spec p"
  by (simp_all add: record_start_def split: option.splits)

lemma set_all_ready_frame [simp]:
  "status_Nodes (Status (set_all_ready p)) = status_Nodes (Status p)"
  "Conditions (Status (set_all_ready p)) = Conditions (Status p)"
  "AllNodesReadyForMaintenance (Status (set_all_ready p)) = allNodesReady p"
  by (simp_all add: set_all_ready_def)

lemma overdue_entries: "overdue (record_start now (with_entries plan nss)) now = overdue (record_start now plan) now"
  by (simp add: overdue_def drain_timeout_def record_start_def with_entries_def split: option.splits)

lemma allNodesReady_cong: "status_Nodes (Status p) = status_Nodes (Status q) \<Longrightarrow> allNodesReady p = allNodesReady q"
  by (simp add: allNodesReady_def)

lemma with_entries_phase [simp]: "Phase (Status (with_entries p nss)) = Phase (Status p)"
  by (simp add: with_entries_def)

text \<open>
  The two ways a pass ends, as the status says it: aborted by the deadline (the phase is left
  as it was), or concluded from the results.
\<close>

definition drain_aborted :: "'w env \<Rightarrow> Plan \<Rightarrow> Plan \<Rightarrow> duration \<Rightarrow> bool" where
  "drain_aborted E plan p d \<longleftrightarrow> d = 0 \<and> isConditionTrue E p ConditionDrainTimedOut \<and>
     \<not> isConditionTrue E p ConditionDrainInProgress \<and> \<not> isConditionTrue E p ConditionDrainSucceeded \<and>
     Phase (Status p) = Phase (Status plan)"

definition drain_concluded :: "'w env \<Rightarrow> Plan \<Rightarrow> drainNodeResult list \<Rightarrow> Plan \<Rightarrow> duration \<Rightarrow> bool" where
  "drain_concluded E plan results p d \<longleftrightarrow>
     d = (if \<forall>r \<in> set results. drained r then 0
          else if \<exists>r \<in> set results. progressing r then drainCheckInterval else drainBlockedRetry) \<and>
     (\<forall>c. c \<notin> {ConditionDrainSucceeded, ConditionDrainInProgress, ConditionDrainBlocked} \<longrightarrow>
        isConditionTrue E p c = isConditionTrue E plan c) \<and>
     (isConditionTrue E p ConditionDrainSucceeded \<longleftrightarrow> (\<forall>r \<in> set results. drained r)) \<and>
     (isConditionTrue E p ConditionDrainInProgress \<longleftrightarrow> (\<exists>r \<in> set results. \<not> drained r) \<and>
        ((\<exists>r \<in> set results. progressing r) \<or> \<not> (\<exists>r \<in> set results. blocking r))) \<and>
     (isConditionTrue E p ConditionDrainBlocked \<longleftrightarrow> (\<exists>r \<in> set results. \<not> drained r) \<and> (\<exists>r \<in> set results. blocking r)) \<and>
     AllNodesReadyForMaintenance (Status p) = allNodesReady p \<and> Phase (Status p) = computePhase E p"

lemma drain_aborted_timed_out:
  "condition_laws E \<Longrightarrow> Phase (Status q) = Phase (Status plan) \<Longrightarrow> drain_aborted E plan (set_timed_out E m q) noRequeue"
  by (simp add: drain_aborted_def set_timed_out_true noRequeue_def)

lemma drain_concluded_flags:
  assumes L: "condition_laws E" and q: "\<And>c. isConditionTrue E q c = isConditionTrue E plan c"
  shows "drain_concluded E plan results (recomputePlanSummaries E (set_all_ready (setDrainConditions E
      (allDone (flags_of results)) (anyBlocked (flags_of results)) (evictionsInFlight (flags_of results)) q)))
      (requeue_of (flags_of results))" (is "drain_concluded E plan results ?p _")
proof -
  have "AllNodesReadyForMaintenance (Status ?p) = allNodesReady ?p"
    unfolding recompute_frame set_all_ready_frame by (rule allNodesReady_cong) simp
  moreover have "isConditionTrue E (set_all_ready q') c = isConditionTrue E q' c" for q' c
    by (rule isConditionTrue_cong) simp
  moreover have "Phase (Status ?p) = computePhase E ?p" by (rule recompute_phase)
  ultimately show ?thesis
    unfolding drain_concluded_def
    by (simp add: setDrainConditions_true [OF L] q flags_of_def requeue_of_def noRequeue_def del: recompute_frame)
qed

text \<open>The report, read off.\<close>

lemma drain_report_conditions:
  assumes L: "condition_laws E" and rep: "drain_report E ok plan results p d"
  shows "\<exists>now.
    list_all2 (entry_step ok (NodeName ` {r \<in> set results. drained r})) (status_Nodes (Status plan)) (status_Nodes (Status p)) \<and>
    (if (\<exists>r \<in> set results. \<not> drained r) \<and> overdue (record_start now plan) now \<noteq> None
     then drain_aborted E plan p d else drain_concluded E plan results p d)"
proof -
  let ?fl = "flags_of results"
  have fl: "allDone ?fl \<longleftrightarrow> (\<forall>r \<in> set results. drained r)" by (simp add: flags_of_def)
  obtain nss now q where nss: "list_all2 (entry_step ok (NodeName ` {r \<in> set results. drained r})) (status_Nodes (Status plan)) nss"
    and q: "q = (if allDone ?fl then with_entries plan nss else record_start now (with_entries plan nss))"
    and rest: "case (if allDone ?fl then None else overdue q now) of
           Some minutes \<Rightarrow> p = set_timed_out E minutes q \<and> d = noRequeue
         | None \<Rightarrow> p = recomputePlanSummaries E (set_all_ready (setDrainConditions E (allDone ?fl) (anyBlocked ?fl)
                     (evictionsInFlight ?fl) q)) \<and> d = requeue_of ?fl"
    using rep unfolding drain_report_def Let_def by blast
  have frame: "isConditionTrue E q c = isConditionTrue E plan c" "status_Nodes (Status q) = nss"
    "Phase (Status q) = Phase (Status plan)" for c
    by (simp_all add: q isConditionTrue_def)
  show ?thesis
  proof (rule exI [of _ now], cases "allDone ?fl \<or> overdue (record_start now plan) now = None")
    case True
    then have "(if allDone ?fl then None else overdue q now) = None" by (auto simp: q overdue_entries)
    with rest have p: "p = recomputePlanSummaries E (set_all_ready (setDrainConditions E (allDone ?fl) (anyBlocked ?fl)
                     (evictionsInFlight ?fl) q))" "d = requeue_of ?fl" by simp_all
    have "drain_concluded E plan results p d" unfolding p by (rule drain_concluded_flags [OF L frame(1)])
    moreover have "status_Nodes (Status p) = nss" by (simp add: p frame)
    ultimately show "list_all2 (entry_step ok (NodeName ` {r \<in> set results. drained r})) (status_Nodes (Status plan)) (status_Nodes (Status p)) \<and>
        (if (\<exists>r \<in> set results. \<not> drained r) \<and> overdue (record_start now plan) now \<noteq> None
         then drain_aborted E plan p d else drain_concluded E plan results p d)"
      using True nss fl by auto
  next
    case False
    then obtain minutes where m: "overdue (record_start now plan) now = Some minutes" by auto
    with False rest have p: "p = set_timed_out E minutes q" "d = noRequeue" by (auto simp: q overdue_entries)
    have "drain_aborted E plan p d" unfolding p by (rule drain_aborted_timed_out [OF L frame(3)])
    moreover have "status_Nodes (Status p) = nss" by (simp add: p frame)
    ultimately show "list_all2 (entry_step ok (NodeName ` {r \<in> set results. drained r})) (status_Nodes (Status plan)) (status_Nodes (Status p)) \<and>
        (if (\<exists>r \<in> set results. \<not> drained r) \<and> overdue (record_start now plan) now \<noteq> None
         then drain_aborted E plan p d else drain_concluded E plan results p d)"
      using False nss fl m by auto
  qed
qed

lemma applyDrainResults_sends:
  assumes run: "applyDrainResults E results s = (r, t)" and ok: "ok \<longrightarrow> (\<forall>x \<in> set results. outcome_ok (Outcome x))"
  shows "\<exists>p d. st_trace t = st_trace s @ [PatchPlanStatus (st_plan s) p] \<and> st_heap t = st_heap s \<and>
    drain_report E ok (st_plan s) results p d \<and> (\<forall>x. r = Inr x \<longrightarrow> x = d)"
proof -
  have T: "triple (sits (st_plan s) (st_heap s) (st_trace s)) (applyDrainResults E results)
      (\<lambda>d s'. drain_sent E ok (st_plan s) results (st_heap s) (st_trace s) d s')
      (\<lambda>s'. \<exists>d. drain_sent E ok (st_plan s) results (st_heap s) (st_trace s) d s')"
    by (rule applyDrainResults_run) (use ok in blast)
  have here: "sits (st_plan s) (st_heap s) (st_trace s) s" by (simp add: sits_def)
  show ?thesis
  proof (cases r)
    case (Inl e)
    from T here run Inl have "\<exists>d. drain_sent E ok (st_plan s) results (st_heap s) (st_trace s) d t"
      by (force simp: triple_def)
    then show ?thesis using Inl by (auto simp: drain_sent_def)
  next
    case (Inr d)
    from tripleD_Inr [OF T here] run Inr have "drain_sent E ok (st_plan s) results (st_heap s) (st_trace s) d t" by blast
    then show ?thesis using Inr by (auto simp: drain_sent_def)
  qed
qed

lemma split_stable_result:
  "split_stable f nodes (rs, ds) =
    (rs @ map (\<lambda>n. \<lparr>NodeName = node_Name n, Outcome = zero_outcome,
         Err = Some (nodeNotReadyError (node_Name n) (f (node_Name n)))\<rparr>) (filter (\<lambda>n. Unschedulable n \<and> \<not> isNodeReady n) nodes),
     ds @ filter (\<lambda>n. Unschedulable n \<and> isNodeReady n) nodes)"
  by (induction nodes arbitrary: rs ds) auto

lemma load_nodes_run:
  "(\<And>a. a \<in> set as \<Longrightarrow> st_heap s a \<noteq> None) \<Longrightarrow> load_nodes as s = (Inr (map (\<lambda>a. the (st_heap s a)) as), s)"
proof (induction as)
  case Nil
  show ?case by (simp add: go_ret_def)
next
  case (Cons a as)
  obtain n where n: "st_heap s a = Some n" using Cons.prems [of a] by auto
  have "load_nodes as s = (Inr (map (\<lambda>a. the (st_heap s a)) as), s)" using Cons.prems by (intro Cons.IH) simp
  then show ?case by (simp add: go_bind_def go_run n)
qed

lemma max_parallel_pos: "0 < max_parallel plan"
  by (simp add: max_parallel_def split: option.splits)

section \<open>Properties\<close>

text \<open>
  The three drain conditions, from the three flags: succeeded when all is done; otherwise
  blocked when anything is blocked, and in progress unless everything that happened was
  blocking; no other condition moves.
\<close>

theorem setDrainConditions_table:
  assumes "condition_laws E"
  shows "isConditionTrue E (setDrainConditions E done blk flight p) c =
    (if c = ConditionDrainSucceeded then done
     else if c = ConditionDrainInProgress then \<not> done \<and> (flight \<or> \<not> blk)
     else if c = ConditionDrainBlocked then \<not> done \<and> blk
     else isConditionTrue E p c)"
  by (rule setDrainConditions_true [OF assms])

theorem setDrainConditions_table_witness:
  "isConditionTrue memory_env (setDrainConditions memory_env False True True (example_plan ''p'' [])) ConditionDrainBlocked"
  using setDrainConditions_table [OF memory_conditions] by simp







text \<open>
  A timeout of 153,722,868 minutes or more does not fit into a duration: the deadline of a
  drain that starts now is already in the past, and the plan times out in its first pass.
\<close>

theorem drain_timeout_overflow:
  assumes "drain_timeout plan = Some 153722868" "DrainStartedAt (Status plan) = None"
  shows "overdue (record_start now plan) now = Some 153722868"
  using assms by (simp add: overdue_def drain_timeout_def record_start_def minute_def i64_def)

theorem drain_timeout_overflow_witness:
  "overdue (record_start 0 ((example_plan ''p'' [])\<lparr>Spec := (example_spec [])\<lparr>Drain := Some \<lparr>drain_Enabled = True,
     drain_StartAt = None, drain_Options = None, TimeoutMinutes = Some 153722868\<rparr>\<rparr>\<rparr>)) 0 = Some 153722868"
  using drain_timeout_overflow [of "(example_plan ''p'' [])\<lparr>Spec := (example_spec [])\<lparr>Drain := Some \<lparr>drain_Enabled = True,
     drain_StartAt = None, drain_Options = None, TimeoutMinutes = Some 153722868\<rparr>\<rparr>\<rparr>" 0]
  by (simp add: drain_timeout_def example_plan_def empty_status_def)





text \<open>
  When some nodes still evict and others are blocked, both conditions are true, and the
  phase says so only in part: it is never \<open>Draining\<close>, but \<open>Blocked\<close> (unless the plan timed out,
  conflicts or is ready).
\<close>

theorem partly_blocked_phase:
  assumes L: "condition_laws E" and q: "q = setDrainConditions E False True True p"
  shows "isConditionTrue E q ConditionDrainInProgress \<and> isConditionTrue E q ConditionDrainBlocked \<and>
    computePhase E q = (if isConditionTrue E p ConditionDrainTimedOut then PhaseTimedOut
      else if isConditionTrue E p ConditionConflict then PhaseConflict
      else if AllNodesReadyForMaintenance (Status q) then PhaseReady else PhaseBlocked)"
  unfolding q by (simp add: computePhase_def setDrainConditions_true [OF L])

theorem partly_blocked_phase_witness:
  "computePhase memory_env (setDrainConditions memory_env False True True (example_plan ''p'' [])) = PhaseBlocked"
  using partly_blocked_phase [OF memory_conditions refl, of "example_plan ''p'' []"]
  by (simp add: isConditionTrue_def find_cond_def example_plan_def empty_status_def setDrainConditions_def setCondition_def)


text \<open>A node with a free pod and one a budget protects: the pass evicts the first.\<close>

definition half_protected :: cluster where
  "half_protected = empty_cluster\<lparr>cl_pods := [(''n1'', example_pod ''a''), (''n1'', example_pod ''b'')], cl_protected := [''b'']\<rparr>"

definition untimed_plan :: Plan where
  "untimed_plan = (example_plan ''p'' [''n1''])\<lparr>Spec := (example_spec [''n1''])\<lparr>Drain :=
     Some \<lparr>drain_Enabled = True, drain_StartAt = None, drain_Options = None, TimeoutMinutes = None\<rparr>\<rparr>\<rparr>"

lemma half_protected_drain:
  "fst (drainNode memory_env untimed_plan (example_node ''n1'')
     (start_state untimed_plan half_protected)) =
   Inr (\<lparr>Evicted = 1, Total = 2, Evictable = 2, Terminating = 0, StuckTerminating = 0, StuckPods = []\<rparr>,
     Some (drainBlockedError ''n1'' [example_pod ''b''] True))"
  by code_simp


end
