(* ===== verification/Preview.thy ===== *)
theory Preview
  imports Drain_Reconcile
begin

text \<open>
  \<open>internal/maintenance/reconcile_preview.go\<close>: the dry run of a drain. It lists the pods of the
  nodes the plan manages or is about to, classifies them as the drain would, looks at the
  budgets of their namespaces, and writes the result into the status.
\<close>

section \<open>Definitions\<close>

fun isDrainInProgress_loop :: "Condition list \<Rightarrow> bool" where
  "isDrainInProgress_loop [] = False"
| "isDrainInProgress_loop (c # cs) =
     (if c_Type c = ConditionDrainInProgress then c_Status c = ''True'' else isDrainInProgress_loop cs)"

definition isDrainInProgress :: "Plan \<Rightarrow> bool" where
  "isDrainInProgress plan = isDrainInProgress_loop (Conditions (Status plan))"

definition pod_ref :: "Pod \<Rightarrow> PodReference option" where
  "pod_ref pod = Some \<lparr>ref_Namespace = pod_Namespace pod, ref_Name = pod_Name pod\<rparr>"

definition config_issue :: "Pod \<Rightarrow> NodeIssue" where
  "config_issue pod =
     (if isDaemonSetPod pod then \<lparr>issue_Type = ''DaemonSetPod'',
        issue_Message = ''DaemonSet pod cannot be evicted; set ignoreDaemonSets: true to skip'', PodRef = pod_ref pod\<rparr>
      else if \<not> hasController pod then \<lparr>issue_Type = ''UncontrolledPod'',
        issue_Message = ''pod has no owner and force is not enabled; set force: true to evict'', PodRef = pod_ref pod\<rparr>
      else if hasEmptyDir pod then \<lparr>issue_Type = ''EmptyDirVolume'',
        issue_Message = ''pod has an emptyDir volume and deleteEmptyDirData is not enabled; set deleteEmptyDirData: true to evict'',
        PodRef = pod_ref pod\<rparr>
      else \<lparr>issue_Type = ''BlockedPod'',
        issue_Message = ''pod cannot be evicted with current drain settings'', PodRef = pod_ref pod\<rparr>)"

definition buildConfigIssues :: "Pod list \<Rightarrow> NodeIssue list" where
  "buildConfigIssues blocked = map config_issue blocked"

text \<open>The first budget of the namespace that has no disruption left and covers the pod.\<close>

fun pdb_issue :: "'w env \<Rightarrow> PodDisruptionBudget list \<Rightarrow> Pod \<Rightarrow> NodeIssue list" where
  "pdb_issue E [] pod = []"
| "pdb_issue E (pdb # pdbs) pod =
     (if 0 < DisruptionsAllowed pdb then pdb_issue E pdbs pod
      else case pdb_Selector pdb of
        None \<Rightarrow> pdb_issue E pdbs pod
      | Some selector \<Rightarrow> (case k_LabelSelectorAsSelector E selector of
            Inl err \<Rightarrow> pdb_issue E pdbs pod
          | Inr sel \<Rightarrow> if \<not> sel (pod_Labels pod) then pdb_issue E pdbs pod
              else [\<lparr>issue_Type = ''PDBActive'',
                issue_Message = ''covered by PDB '' @ go_quote (pdb_Name pdb) @
                  '' (0 disruptions available at preview time; may change before drain runs)'',
                PodRef = pod_ref pod\<rparr>]))"

definition add_to_namespace :: "Pod \<Rightarrow> (string \<times> Pod list) list \<Rightarrow> (string \<times> Pod list) list" where
  "add_to_namespace pod m = AList.update (pod_Namespace pod)
     ((case map_of m (pod_Namespace pod) of None \<Rightarrow> [] | Some ps \<Rightarrow> ps) @ [pod]) m"

definition by_namespace :: "Pod list \<Rightarrow> (string \<times> Pod list) list" where
  "by_namespace pods = fold add_to_namespace pods []"

definition namespace_issues :: "'w env \<Rightarrow> (string \<times> Pod list) list \<Rightarrow> string \<Rightarrow> NodeIssue list \<Rightarrow> ('w, NodeIssue list) op" where
  "namespace_issues E byNS ns issues =
     go_bind (go_map_err (Wrapped (''listing PDBs in namespace '' @ go_quote ns)) (client_call (ListPDBs ns) (k_listPDBs E ns)))
       (\<lambda>pdbs. go_ret (issues @ concat (map (pdb_issue E pdbs) (case map_of byNS ns of None \<Rightarrow> [] | Some ps \<Rightarrow> ps))))"

definition buildPDBIssues :: "'w env \<Rightarrow> Pod list \<Rightarrow> ('w, NodeIssue list) op" where
  "buildPDBIssues E pods =
     (if pods = [] then go_ret []
      else go_fold (k_range E ''byNS'' (map fst (by_namespace pods))) [] (namespace_issues E (by_namespace pods)))"

definition preview_config :: "Plan \<Rightarrow> drainConfig" where
  "preview_config plan = (case getDrainConfig plan of
     Some cfg \<Rightarrow> cfg
   | None \<Rightarrow> \<lparr>IgnoreDaemonSets = True, DeleteEmptyDirData = False, Force = False,
               PodTerminationGracePeriodSeconds = None, RespectPodDisruptionBudgets = True\<rparr>)"

definition preview_node :: "'w env \<Rightarrow> drainConfig \<Rightarrow> time \<Rightarrow> Node \<Rightarrow> int \<times> int \<Rightarrow> ('w, int \<times> int) op" where
  "preview_node E cfg now node totals = (case totals of (totalEvictable, totalIssues) \<Rightarrow>
     go_bind (go_map_err (Wrapped (''preview: filtering pods on node '' @ go_quote (node_Name node)))
               (filterPodsForDrain E node cfg)) (\<lambda>result.
     go_bind (go_map_err (Wrapped (''preview: checking PDBs for node '' @ go_quote (node_Name node)))
               (buildPDBIssues E (fr_Evictable result))) (\<lambda>pdbIssues.
       let allIssues = buildConfigIssues (fr_Blocked result) @ pdbIssues in
       go_then (modify_plan (setNodePreview (node_Name node) \<lparr>EvictableCount = len32 (fr_Evictable result),
          SkippedCount = len32 (fr_Skipped result), preview_Issues = allIssues, ComputedAt = Some now\<rparr>))
       (go_ret (i32 (totalEvictable + len32 (fr_Evictable result)), i32 (totalIssues + len32 allIssues))))))"

definition ReconcilePreview :: "'w env \<Rightarrow> OwnershipResolution \<Rightarrow> ('w, unit) op" where
  "ReconcilePreview E res = go_bind get_plan (\<lambda>original.
     let cfg = preview_config original in
     if isDrainInProgress original then go_ret ()
     else go_bind (load_nodes (Stable res @ ToAdopt res)) (\<lambda>targetNodes.
       if targetNodes = [] then go_ret ()
       else go_bind (read_clock (k_metaNow E)) (\<lambda>now.
         go_bind (go_fold targetNodes (0, 0) (preview_node E cfg now)) (\<lambda>(totalEvictable, totalIssues).
           go_then (modify_plan (\<lambda>plan. plan\<lparr>Status := (Status plan)\<lparr>TotalEvictablePods := totalEvictable,
              TotalPreviewIssues := totalIssues, LastPreviewTime := Some now\<rparr>\<rparr>))
           (patch_plan_status E original)))))"

text \<open>A call that reads, or writes this plan's status: what a dry run may do.\<close>

fun dry_call :: "call \<Rightarrow> bool" where
  "dry_call (ListPods _) = True"
| "dry_call (ListPDBs _) = True"
| "dry_call (PatchPlanStatus _ _) = True"
| "dry_call _ = False"

text \<open>A budget that would refuse the pod now.\<close>

definition exhausted_for :: "'w env \<Rightarrow> Pod \<Rightarrow> PodDisruptionBudget \<Rightarrow> bool" where
  "exhausted_for E pod pdb \<longleftrightarrow> DisruptionsAllowed pdb \<le> 0 \<and>
     (\<exists>selector sel. pdb_Selector pdb = Some selector \<and> k_LabelSelectorAsSelector E selector = Inr sel \<and> sel (pod_Labels pod))"

section \<open>Lemmas\<close>

lemma isDrainInProgress_condition:
  "condition_laws E \<Longrightarrow> isDrainInProgress plan = isConditionTrue E plan ConditionDrainInProgress"
proof -
  assume L: "condition_laws E"
  have "isDrainInProgress_loop cs = (case find_cond cs ConditionDrainInProgress of None \<Rightarrow> False | Some c \<Rightarrow> c_Status c = ''True'')" for cs
    by (induction cs) (auto simp: find_cond_def)
  then show ?thesis using L by (simp add: isDrainInProgress_def isConditionTrue_def condition_laws_def)
qed

lemma pdb_issue_cases:
  "(pdb_issue E pdbs pod = [] \<and> (\<forall>pdb \<in> set pdbs. \<not> exhausted_for E pod pdb)) \<or>
   (\<exists>pdb \<in> set pdbs. exhausted_for E pod pdb \<and> (\<exists>msg. pdb_issue E pdbs pod =
      [\<lparr>issue_Type = ''PDBActive'', issue_Message = msg, PodRef = pod_ref pod\<rparr>]))"
proof (induction pdbs)
  case (Cons pdb pdbs)
  show ?case
  proof (cases "exhausted_for E pod pdb")
    case True
    then show ?thesis by (auto simp: exhausted_for_def)
  next
    case False
    then have "pdb_issue E (pdb # pdbs) pod = pdb_issue E pdbs pod"
      by (auto simp: exhausted_for_def split: option.split sum.split)
    with False Cons.IH show ?thesis by auto
  qed
qed simp

lemma buildPDBIssues_tr: "(\<And>ns. ok (ListPDBs ns)) \<Longrightarrow> obeys (trace_within ok) (buildPDBIssues E pods)"
  unfolding buildPDBIssues_def namespace_issues_def by (intro tr.obeys_intros tr_prims)

lemma load_nodes_tr: "obeys (trace_within ok) (load_nodes as)"
  by (induction as) (auto intro!: tr.obeys_intros tr_load_node)

lemma preview_node_tr: "obeys (trace_within dry_call) (preview_node E cfg now node totals)"
  unfolding preview_node_def Let_def
  by (intro tr.obeys_intros tr_prims filterPods_tr buildPDBIssues_tr) simp_all

lemma ReconcilePreview_tr: "obeys (trace_within dry_call) (ReconcilePreview E res)"
  unfolding ReconcilePreview_def Let_def
  by (intro tr.obeys_intros tr_prims load_nodes_tr preview_node_tr) simp_all

text \<open>The groups of \<open>by_namespace\<close>: each namespace once, with its pods in order.\<close>

lemma by_namespace_fold:
  assumes "distinct (map fst m)" "\<And>ns ps. map_of m ns = Some ps \<Longrightarrow> ps = filter (\<lambda>p. pod_Namespace p = ns) seen"
    and "set (map fst m) = pod_Namespace ` set seen"
  shows "distinct (map fst (fold add_to_namespace pods m)) \<and>
    set (map fst (fold add_to_namespace pods m)) = pod_Namespace ` set (seen @ pods) \<and>
    (\<forall>ns ps. map_of (fold add_to_namespace pods m) ns = Some ps \<longrightarrow> ps = filter (\<lambda>p. pod_Namespace p = ns) (seen @ pods))"
  using assms
proof (induction pods arbitrary: m seen)
  case Nil
  then show ?case by simp
next
  case (Cons pod pods)
  let ?old = "case map_of m (pod_Namespace pod) of None \<Rightarrow> [] | Some ps \<Rightarrow> ps"
  let ?m1 = "AList.update (pod_Namespace pod) (?old @ [pod]) m"
  have old: "?old = filter (\<lambda>p. pod_Namespace p = pod_Namespace pod) seen"
  proof (cases "map_of m (pod_Namespace pod)")
    case None
    then have "pod_Namespace pod \<notin> pod_Namespace ` set seen" using Cons.prems(3) by (metis map_of_eq_None_iff set_map)
    then have "filter (\<lambda>p. pod_Namespace p = pod_Namespace pod) seen = []" unfolding filter_empty_conv by (metis imageI)
    then show ?thesis using None by simp
  next
    case (Some ps)
    then show ?thesis using Cons.prems(2) by simp
  qed
  have "distinct (map fst ?m1)" using Cons.prems(1) by (simp add: distinct_update)
  moreover have "\<And>ns ps. map_of ?m1 ns = Some ps \<Longrightarrow> ps = filter (\<lambda>p. pod_Namespace p = ns) (seen @ [pod])"
    using Cons.prems(2) old by (auto simp: update_conv split: if_splits)
  moreover have "set (map fst ?m1) = pod_Namespace ` set (seen @ [pod])"
    using Cons.prems(3) by (simp add: dom_update)
  ultimately show ?case using Cons.IH [of ?m1 "seen @ [pod]"] by (simp add: add_to_namespace_def)
qed

lemma by_namespace_groups:
  "distinct (map fst (by_namespace pods))" "set (map fst (by_namespace pods)) = pod_Namespace ` set pods"
  "ns \<in> pod_Namespace ` set pods \<Longrightarrow> map_of (by_namespace pods) ns = Some (filter (\<lambda>p. pod_Namespace p = ns) pods)"
proof -
  note f = by_namespace_fold [of "[]" "[]" pods, folded by_namespace_def]
  show d: "distinct (map fst (by_namespace pods))" and s: "set (map fst (by_namespace pods)) = pod_Namespace ` set pods"
    using f by simp_all
  assume "ns \<in> pod_Namespace ` set pods"
  then obtain ps where "map_of (by_namespace pods) ns = Some ps" using s by (metis map_of_eq_None_iff not_None_eq set_map)
  then show "map_of (by_namespace pods) ns = Some (filter (\<lambda>p. pod_Namespace p = ns) pods)" using f by auto
qed

lemma mset_groups:
  "distinct ks \<Longrightarrow> set (map f xs) \<subseteq> set ks \<Longrightarrow>
   mset (concat (map (\<lambda>k. filter (\<lambda>x. f x = k) xs) ks)) = mset xs"
proof (induction xs)
  case (Cons x xs)
  have one: "mset (concat (map (\<lambda>k. filter (\<lambda>y. f y = k) (x # xs)) ks')) =
      (if f x \<in> set ks' then {#x#} else {#}) + mset (concat (map (\<lambda>k. filter (\<lambda>y. f y = k) xs) ks'))"
    if "distinct ks'" for ks' using that by (induction ks') auto
  from one [OF Cons.prems(1)] Cons show ?case by simp
qed (induction ks; simp)

text \<open>A run of the budget check, when the budgets of a namespace are what \<open>pdbs_of\<close> says.\<close>

lemma namespace_loop:
  assumes pdbs: "\<And>ns w x w'. k_listPDBs E ns w = (Inr x, w') \<Longrightarrow> x = pdbs_of ns"
    and "go_fold ks issues (namespace_issues E groups) s = (Inr out, t)"
  shows "out = issues @ concat (map (\<lambda>ns. concat (map (pdb_issue E (pdbs_of ns)) (case map_of groups ns of None \<Rightarrow> [] | Some ps \<Rightarrow> ps))) ks)"
  using assms(2)
proof (induction ks arbitrary: issues s)
  case Nil
  then show ?case by (simp add: go_ret_def)
next
  case (Cons k ks)
  from Cons.prems obtain mid t1 where mid: "namespace_issues E groups k issues s = (Inr mid, t1)"
      and rest: "go_fold ks mid (namespace_issues E groups) t1 = (Inr out, t)"
    by (auto simp: go_bind_Inr)
  from mid have "mid = issues @ concat (map (pdb_issue E (pdbs_of k)) (case map_of groups k of None \<Rightarrow> [] | Some ps \<Rightarrow> ps))"
    by (auto simp: namespace_issues_def go_Inr go_ret_def client_call_Inr dest!: pdbs)
  with Cons.IH [OF rest] show ?case by simp
qed

lemma pdb_issue_refs:
  "map PodRef (pdb_issue E pdbs pod) = (if \<exists>pdb \<in> set pdbs. exhausted_for E pod pdb then [pod_ref pod] else [])"
  using pdb_issue_cases [of E pdbs pod] by auto

lemma pdb_issue_list_refs:
  "map PodRef (concat (map (pdb_issue E pdbs) pods)) = map pod_ref (filter (\<lambda>pod. \<exists>pdb \<in> set pdbs. exhausted_for E pod pdb) pods)"
  by (induction pods) (simp_all add: pdb_issue_refs)

section \<open>Properties\<close>

text \<open>
  The preview is a dry run: whatever the API server answers, it lists pods and budgets and
  patches this plan's status; it evicts nothing, deletes nothing and writes to no node.
\<close>

theorem preview_dry_run: "obeys (trace_within dry_call) (ReconcilePreview E res)"
  by (rule ReconcilePreview_tr)

text \<open>
  C38. The budget check warns about exactly the pods some budget of their namespace would refuse
  now, once each, in whatever order the namespaces are visited.
\<close>

theorem buildPDBIssues_exact:
  assumes range: "range_laws E"
    and pdbs: "\<And>ns w x w'. k_listPDBs E ns w = (Inr x, w') \<Longrightarrow> x = pdbs_of ns"
    and run: "buildPDBIssues E pods s = (Inr issues, t)"
  shows "mset (map PodRef issues) =
    mset (map pod_ref (filter (\<lambda>pod. \<exists>pdb \<in> set (pdbs_of (pod_Namespace pod)). exhausted_for E pod pdb) pods))"
proof (cases "pods = []")
  case True
  then show ?thesis using run by (simp add: buildPDBIssues_def go_ret_def)
next
  case False
  let ?ks = "k_range E ''byNS'' (map fst (by_namespace pods))"
  let ?cov = "\<lambda>pod. \<exists>pdb \<in> set (pdbs_of (pod_Namespace pod)). exhausted_for E pod pdb"
  have ks: "distinct ?ks" "set ?ks = pod_Namespace ` set pods"
    using by_namespace_groups(1,2) [of pods] range_distinct [OF range] range_set [OF range] by blast+
  from run False have "go_fold ?ks [] (namespace_issues E (by_namespace pods)) s = (Inr issues, t)"
    by (simp add: buildPDBIssues_def)
  from namespace_loop [OF pdbs this]
  have issues: "issues = concat (map (\<lambda>ns. concat (map (pdb_issue E (pdbs_of ns))
      (case map_of (by_namespace pods) ns of None \<Rightarrow> [] | Some ps \<Rightarrow> ps))) ?ks)" by simp
  have "map PodRef (concat (map (pdb_issue E (pdbs_of ns)) (case map_of (by_namespace pods) ns of None \<Rightarrow> [] | Some ps \<Rightarrow> ps))) =
      map pod_ref (filter (\<lambda>pod. pod_Namespace pod = ns) (filter ?cov pods))" if "ns \<in> set ?ks" for ns
  proof -
    have "map_of (by_namespace pods) ns = Some (filter (\<lambda>pod. pod_Namespace pod = ns) pods)"
      using that ks(2) by_namespace_groups(3) by blast
    moreover have "filter (\<lambda>pod. \<exists>pdb \<in> set (pdbs_of ns). exhausted_for E pod pdb) (filter (\<lambda>pod. pod_Namespace pod = ns) pods) =
        filter (\<lambda>pod. pod_Namespace pod = ns) (filter ?cov pods)"
      by (induction pods) auto
    ultimately show ?thesis by (simp only: option.case pdb_issue_list_refs)
  qed
  then have "map PodRef issues = map pod_ref (concat (map (\<lambda>ns. filter (\<lambda>pod. pod_Namespace pod = ns) (filter ?cov pods)) ?ks))"
    unfolding issues map_concat map_map o_def by (intro arg_cong [where f = concat] map_cong refl) blast
  then have "mset (map PodRef issues) =
      image_mset pod_ref (mset (concat (map (\<lambda>ns. filter (\<lambda>pod. pod_Namespace pod = ns) (filter ?cov pods)) ?ks)))"
    by (simp only: mset_map)
  also have "mset (concat (map (\<lambda>ns. filter (\<lambda>pod. pod_Namespace pod = ns) (filter ?cov pods)) ?ks)) = mset (filter ?cov pods)"
    by (rule mset_groups) (use ks in auto)
  finally show ?thesis by (simp only: mset_map)
qed

theorem buildPDBIssues_exact_witness:
  "\<exists>issues t. buildPDBIssues (memory_env\<lparr>k_listPDBs := (\<lambda>ns w. (Inr [], w))\<rparr>) [example_pod ''a'']
     (start_state (example_plan ''p'' []) empty_cluster) = (Inr issues, t) \<and> mset (map PodRef issues) = {#}"
proof -
  define E where "E = memory_env\<lparr>k_listPDBs := (\<lambda>ns w. (Inr [], w))\<rparr>"
  define s where "s = start_state (example_plan ''p'' []) empty_cluster"
  have E: "k_listPDBs E ns w = (Inr [], w)" "k_range E site ks = ks" for ns w site ks by (simp_all add: E_def)
  obtain issues t where run: "buildPDBIssues E [example_pod ''a''] s = (Inr issues, t)"
    by (simp add: buildPDBIssues_def by_namespace_def add_to_namespace_def namespace_issues_def E
        go_bind_def go_map_err_def client_call_def go_ret_def)
  have "range_laws E" by (simp add: range_laws_def E)
  from buildPDBIssues_exact [OF this _ run, of "\<lambda>_. []"] have "mset (map PodRef issues) = {#}" by (simp add: E)
  with run show ?thesis unfolding E_def s_def by blast
qed

text \<open>
  For a pod the drain would hold back, the preview names the DaemonSet, else the missing
  controller, else the emptyDir volume: the fallback issue never occurs.
\<close>

theorem config_issue_of_blocked:
  assumes "pod \<in> set (fr_Blocked (classifyPods pods cfg now))"
  shows "issue_Type (config_issue pod) = (if isDaemonSetPod pod then ''DaemonSetPod''
      else if \<not> hasController pod then ''UncontrolledPod'' else ''EmptyDirVolume'') \<and>
    (isDaemonSetPod pod \<longrightarrow> \<not> IgnoreDaemonSets cfg) \<and>
    (issue_Type (config_issue pod) = ''EmptyDirVolume'' \<longrightarrow> hasEmptyDir pod \<and> \<not> DeleteEmptyDirData cfg)"
proof -
  have "pod_class cfg now pod = BBlocked" using assms by (simp add: classifyPods_filters)
  then show ?thesis by (auto simp: pod_class_def config_issue_def split: option.splits if_splits)
qed

theorem config_issue_of_blocked_witness:
  "issue_Type (config_issue ((example_pod ''a'')\<lparr>Volumes_EmptyDir := [True]\<rparr>)) = ''EmptyDirVolume''"
proof -
  let ?cfg = "\<lparr>IgnoreDaemonSets = True, DeleteEmptyDirData = False, Force = False,
     PodTerminationGracePeriodSeconds = None, RespectPodDisruptionBudgets = True\<rparr>"
  let ?pod = "(example_pod ''a'')\<lparr>Volumes_EmptyDir := [True]\<rparr>"
  have "?pod \<in> set (fr_Blocked (classifyPods [?pod] ?cfg 0))"
    by (simp add: classifyPods_filters pod_class_def mirror_def completed_def mhas_def example_pod_def
        isDaemonSetPod_def hasController_def hasEmptyDir_def)
  from config_issue_of_blocked [OF this] show ?thesis
    by (simp add: isDaemonSetPod_def hasController_def example_pod_def)
qed

text \<open>
  The cause named can be the wrong one: a pod without a controller that \<open>force\<close> allows and
  only its emptyDir volume holds back is reported as \<open>UncontrolledPod\<close>, force not enabled.
\<close>

theorem config_issue_wrong_cause:
  assumes "Force cfg" "\<not> DeleteEmptyDirData cfg" "\<not> hasController pod" "hasEmptyDir pod" "\<not> isDaemonSetPod pod"
    and "\<not> mirror pod" "\<not> completed pod" "pod_DeletionTimestamp pod = None" "pod \<in> set pods"
  shows "pod \<in> set (fr_Blocked (classifyPods pods cfg now)) \<and>
    pod \<in> set (fr_Evictable (classifyPods pods (cfg\<lparr>DeleteEmptyDirData := True\<rparr>) now)) \<and>
    issue_Type (config_issue pod) = ''UncontrolledPod''"
  using assms by (simp add: classifyPods_filters pod_class_def config_issue_def)

theorem config_issue_wrong_cause_witness:
  "issue_Type (config_issue ((example_pod ''a'')\<lparr>Volumes_EmptyDir := [True], OwnerReferences := []\<rparr>)) = ''UncontrolledPod''"
  using config_issue_wrong_cause [of "\<lparr>IgnoreDaemonSets = True, DeleteEmptyDirData = False, Force = True,
     PodTerminationGracePeriodSeconds = None, RespectPodDisruptionBudgets = True\<rparr>"
     "(example_pod ''a'')\<lparr>Volumes_EmptyDir := [True], OwnerReferences := []\<rparr>"
     "[(example_pod ''a'')\<lparr>Volumes_EmptyDir := [True], OwnerReferences := []\<rparr>]" 0]
  by (simp add: mirror_def completed_def mhas_def example_pod_def isDaemonSetPod_def hasController_def hasEmptyDir_def)

end
