(* ===== verification/Metrics.thy ===== *)
theory Metrics
  imports Status
begin

text \<open>
  \<open>internal/metrics/metrics.go\<close>: the Prometheus gauges of a plan. A gauge vector is a partial
  function from label values to the value last set. Counts are exact in a float; the ratios are
  rational numbers here (the code divides floats).
\<close>

section \<open>Definitions\<close>

definition allPhases :: "string list" where
  "allPhases = [PhasePending, PhaseAdopted, PhaseScheduled, PhaseCordoned,
     PhaseDraining, PhaseBlocked, PhaseReady, PhaseTimedOut, PhaseConflict]"

definition set_gauge :: "gauge_vec \<Rightarrow> string list \<Rightarrow> rat \<Rightarrow> gauges \<Rightarrow> gauges" where
  "set_gauge vec labels v g = g((vec, labels) := Some v)"

definition delete_gauge :: "gauge_vec \<Rightarrow> string list \<Rightarrow> gauges \<Rightarrow> gauges" where
  "delete_gauge vec labels g = g((vec, labels) := None)"

record metric_counts =
  mc_ready :: int
  mc_draining :: int
  mc_blocked :: int
  mc_drifted :: int
  mc_progress :: int

definition metric_step :: "NodeStatus \<Rightarrow> metric_counts \<Rightarrow> metric_counts" where
  "metric_step ns c =
     (let c1 = c\<lparr>mc_progress := i32 (mc_progress c + ns_DrainProgress ns)\<rparr>;
          c2 = (if ReadyForMaintenance ns then c1\<lparr>mc_ready := i32 (mc_ready c1 + 1)\<rparr>
                else if 0 < TotalPods ns then c1\<lparr>mc_draining := i32 (mc_draining c1 + 1)\<rparr> else c1);
          c3 = (if 0 < BlockedPods ns then c2\<lparr>mc_blocked := i32 (mc_blocked c2 + 1)\<rparr> else c2)
      in if ns_Drifted ns then c3\<lparr>mc_drifted := i32 (mc_drifted c3 + 1)\<rparr> else c3)"

definition count_metrics :: "NodeStatus list \<Rightarrow> metric_counts" where
  "count_metrics nodes = fold metric_step nodes
     \<lparr>mc_ready = 0, mc_draining = 0, mc_blocked = 0, mc_drifted = 0, mc_progress = 0\<rparr>"

definition progress_ratio :: "int \<Rightarrow> int \<Rightarrow> rat" where
  "progress_ratio progress managed = (if 0 < managed then of_int progress / of_int managed / 100 else 0)"

definition set_phase :: "string \<Rightarrow> string \<Rightarrow> string \<Rightarrow> gauges \<Rightarrow> gauges" where
  "set_phase name current p = set_gauge planPhase [name, p] (if p = current then 1 else 0)"

definition set_node :: "string \<Rightarrow> NodeStatus \<Rightarrow> gauges \<Rightarrow> gauges" where
  "set_node name ns g =
     set_gauge nodeBlockedPods [name, ns_Name ns] (of_int (BlockedPods ns))
     (set_gauge nodeEvictedTotal [name, ns_Name ns] (of_int (EvictedTotal ns))
     (set_gauge nodeDrainProgress [name, ns_Name ns] (of_int (ns_DrainProgress ns) / 100) g))"

definition RecordPlan :: "Plan \<Rightarrow> gauges \<Rightarrow> gauges" where
  "RecordPlan plan g =
     (let name = plan_Name plan; st = Status plan; c = count_metrics (status_Nodes st);
          g1 = set_gauge planManagedNodes [name] (of_int (NodeCount st)) g;
          g2 = set_gauge planReadyNodes [name] (of_int (mc_ready c)) g1;
          g3 = set_gauge planDrainingNodes [name] (of_int (mc_draining c)) g2;
          g4 = set_gauge planBlockedNodes [name] (of_int (mc_blocked c)) g3;
          g5 = set_gauge planDriftedNodes [name] (of_int (mc_drifted c)) g4;
          g6 = set_gauge planDrainProgress [name] (progress_ratio (mc_progress c) (NodeCount st)) g5;
          g7 = fold (set_phase name (Phase st)) allPhases g6
      in fold (set_node name) (status_Nodes st) g7)"

definition delete_node :: "string \<Rightarrow> NodeStatus \<Rightarrow> gauges \<Rightarrow> gauges" where
  "delete_node name ns g =
     delete_gauge nodeBlockedPods [name, ns_Name ns]
     (delete_gauge nodeEvictedTotal [name, ns_Name ns]
     (delete_gauge nodeDrainProgress [name, ns_Name ns] g))"

definition DeletePlan :: "Plan \<Rightarrow> gauges \<Rightarrow> gauges" where
  "DeletePlan plan g =
     (let name = plan_Name plan;
          g1 = fold (\<lambda>vec. delete_gauge vec [name]) [planManagedNodes, planReadyNodes, planDrainingNodes,
                 planBlockedNodes, planDriftedNodes, planDrainProgress] g;
          g2 = fold (\<lambda>p. delete_gauge planPhase [name, p]) allPhases g1
      in fold (delete_node name) (status_Nodes (Status plan)) g2)"

text \<open>The keys the two functions write: per plan, per phase, per node.\<close>

definition plan_keys :: "string \<Rightarrow> (gauge_vec \<times> string list) set" where
  "plan_keys name = (\<lambda>vec. (vec, [name])) ` {planManagedNodes, planReadyNodes, planDrainingNodes,
     planBlockedNodes, planDriftedNodes, planDrainProgress}"

definition phase_keys :: "string \<Rightarrow> (gauge_vec \<times> string list) set" where
  "phase_keys name = (\<lambda>p. (planPhase, [name, p])) ` set allPhases"

definition node_keys :: "string \<Rightarrow> string \<Rightarrow> (gauge_vec \<times> string list) set" where
  "node_keys name nm = (\<lambda>vec. (vec, [name, nm])) ` {nodeDrainProgress, nodeEvictedTotal, nodeBlockedPods}"

definition keys_of :: "Plan \<Rightarrow> (gauge_vec \<times> string list) set" where
  "keys_of plan = plan_keys (plan_Name plan) \<union> phase_keys (plan_Name plan) \<union>
     (\<Union>ns \<in> set (status_Nodes (Status plan)). node_keys (plan_Name plan) (ns_Name ns))"

section \<open>Lemmas\<close>

lemma set_node_at: "set_node name ns g k =
  (if k = (nodeBlockedPods, [name, ns_Name ns]) then Some (of_int (BlockedPods ns))
   else if k = (nodeEvictedTotal, [name, ns_Name ns]) then Some (of_int (EvictedTotal ns))
   else if k = (nodeDrainProgress, [name, ns_Name ns]) then Some (of_int (ns_DrainProgress ns) / 100) else g k)"
  by (simp add: set_node_def set_gauge_def)

lemma delete_node_at: "delete_node name ns g k = (if k \<in> node_keys name (ns_Name ns) then None else g k)"
  by (auto simp: delete_node_def delete_gauge_def node_keys_def)

lemma set_nodes_other:
  "k \<notin> (\<Union>ns \<in> set nss. node_keys name (ns_Name ns)) \<Longrightarrow> fold (set_node name) nss g k = g k"
  by (induction nss arbitrary: g) (auto simp: set_node_at node_keys_def)

lemma set_nodes_keys:
  "k \<in> (\<Union>ns \<in> set nss. node_keys name (ns_Name ns)) \<Longrightarrow> fold (set_node name) nss g k \<noteq> None"
proof (induction nss rule: rev_induct)
  case (snoc ns nss)
  let ?g = "fold (set_node name) nss g"
  have "k \<in> node_keys name (ns_Name ns) \<Longrightarrow> set_node name ns ?g k \<noteq> None"
    by (auto simp only: set_node_at node_keys_def split: if_splits)
  moreover have "k \<notin> node_keys name (ns_Name ns) \<Longrightarrow> set_node name ns ?g k = ?g k"
    by (auto simp: set_node_at node_keys_def)
  ultimately show ?case using snoc by (cases "k \<in> node_keys name (ns_Name ns)") auto
qed simp

lemma delete_nodes_at:
  "fold (delete_node name) nss g k = (if k \<in> (\<Union>ns \<in> set nss. node_keys name (ns_Name ns)) then None else g k)"
  by (induction nss arbitrary: g) (auto simp: delete_node_at)

lemma set_phases_at:
  "fold (set_phase name cur) ps g k =
     (if k \<in> (\<lambda>p. (planPhase, [name, p])) ` set ps then Some (if snd k = [name, cur] then 1 else 0) else g k)"
  by (induction ps arbitrary: g) (auto simp: set_phase_def set_gauge_def)

lemma delete_phases_at:
  "fold (\<lambda>p. delete_gauge planPhase [name, p]) ps g k = (if k \<in> (\<lambda>p. (planPhase, [name, p])) ` set ps then None else g k)"
  by (induction ps arbitrary: g) (auto simp: delete_gauge_def)

lemma node_keys_apart: "(planPhase, l) \<notin> node_keys name nm" "k \<in> plan_keys name \<Longrightarrow> k \<notin> node_keys name nm"
  by (auto simp: node_keys_def plan_keys_def)

text \<open>A record touches its own keys only, a deletion removes exactly its own.\<close>

lemma RecordPlan_other: "k \<notin> keys_of plan \<Longrightarrow> RecordPlan plan g k = g k"
  unfolding RecordPlan_def Let_def keys_of_def
  by (subst set_nodes_other) (auto simp: set_phases_at phase_keys_def plan_keys_def set_gauge_def)

lemma DeletePlan_at: "DeletePlan plan g k = (if k \<in> keys_of plan then None else g k)"
  unfolding DeletePlan_def Let_def keys_of_def delete_nodes_at delete_phases_at phase_keys_def plan_keys_def
  by (auto simp: delete_gauge_def)

lemma computePhase_in: "computePhase E plan \<in> set allPhases"
  by (simp add: computePhase_def allPhases_def)

section \<open>Properties\<close>

text \<open>
  After a record, exactly one phase gauge of the plan is 1, the one of the phase the status
  shows, and the others are 0; gauges of other plans are untouched.
\<close>

theorem phase_gauges:
  assumes "Phase (Status plan) = computePhase E plan'"
  shows "(\<forall>p \<in> set allPhases. RecordPlan plan g (planPhase, [plan_Name plan, p]) = Some (if p = Phase (Status plan) then 1 else 0)) \<and>
    Phase (Status plan) \<in> set allPhases \<and>
    (\<forall>vec name labels. name \<noteq> plan_Name plan \<longrightarrow> RecordPlan plan g (vec, name # labels) = g (vec, name # labels))"
proof (intro conjI ballI allI impI)
  show "Phase (Status plan) \<in> set allPhases" using assms computePhase_in by simp
next
  fix p assume p: "p \<in> set allPhases"
  then show "RecordPlan plan g (planPhase, [plan_Name plan, p]) = Some (if p = Phase (Status plan) then 1 else 0)"
    unfolding RecordPlan_def Let_def
    by (subst set_nodes_other) (auto simp: node_keys_apart set_phases_at)
next
  fix vec name labels assume "name \<noteq> plan_Name plan"
  then show "RecordPlan plan g (vec, name # labels) = g (vec, name # labels)"
    by (intro RecordPlan_other) (auto simp: keys_of_def plan_keys_def phase_keys_def node_keys_def)
qed

theorem phase_gauges_witness:
  "RecordPlan (recomputePlanSummaries memory_env (example_plan ''p'' [])) (\<lambda>_. None) (planPhase, [''p'', PhasePending]) = Some 1"
proof -
  let ?p = "recomputePlanSummaries memory_env (example_plan ''p'' [])"
  have "Phase (Status ?p) = PhasePending"
    by (simp add: recompute_phase computePhase_def isConditionTrue_def find_cond_def example_plan_def empty_status_def)
  moreover have "PhasePending \<in> set allPhases" by (simp add: allPhases_def)
  ultimately show ?thesis
    using phase_gauges [OF recompute_phase [of memory_env "example_plan ''p'' []"], of "\<lambda>_. None"]
    by (simp add: example_plan_def)
qed

text \<open>
  Deleting a plan removes every gauge the last record of it set; but the gauges of a node
  that had left the plan by then are never removed: they outlive the plan.
\<close>

theorem DeletePlan_leaves_stale_nodes:
  assumes nodes: "ns \<in> set (status_Nodes (Status plan))" "ns_Name ns \<notin> ns_Name ` set (status_Nodes (Status plan'))"
    and same: "plan_Name plan' = plan_Name plan"
  shows "(\<forall>k \<in> keys_of plan'. DeletePlan plan' (RecordPlan plan' (RecordPlan plan g)) k = None) \<and>
    (\<forall>k \<in> node_keys (plan_Name plan) (ns_Name ns). DeletePlan plan' (RecordPlan plan' (RecordPlan plan g)) k \<noteq> None)"
proof (intro conjI ballI)
  fix k assume "k \<in> keys_of plan'"
  then show "DeletePlan plan' (RecordPlan plan' (RecordPlan plan g)) k = None" by (simp add: DeletePlan_at)
next
  fix k assume k: "k \<in> node_keys (plan_Name plan) (ns_Name ns)"
  then have "k \<notin> keys_of plan'"
    using nodes(2) same by (auto simp: keys_of_def plan_keys_def phase_keys_def node_keys_def)
  moreover have "RecordPlan plan g k \<noteq> None"
    unfolding RecordPlan_def Let_def by (rule set_nodes_keys) (use k nodes(1) in blast)
  ultimately show "DeletePlan plan' (RecordPlan plan' (RecordPlan plan g)) k \<noteq> None"
    by (simp add: DeletePlan_at RecordPlan_other)
qed

theorem DeletePlan_leaves_stale_nodes_witness:
  "DeletePlan (example_plan ''p'' []) (RecordPlan (example_plan ''p'' []) (RecordPlan
     ((example_plan ''p'' [])\<lparr>Status := empty_status\<lparr>status_Nodes := [zero_NodeStatus\<lparr>ns_Name := ''a''\<rparr>]\<rparr>\<rparr>) (\<lambda>_. None)))
     (nodeBlockedPods, [''p'', ''a'']) \<noteq> None"
  using DeletePlan_leaves_stale_nodes [of "zero_NodeStatus\<lparr>ns_Name := ''a''\<rparr>"
      "(example_plan ''p'' [])\<lparr>Status := empty_status\<lparr>status_Nodes := [zero_NodeStatus\<lparr>ns_Name := ''a''\<rparr>]\<rparr>\<rparr>"
      "example_plan ''p'' []" "\<lambda>_. None"]
  by (auto simp: example_plan_def empty_status_def node_keys_def)

end
