(* ===== verification/Reconciler.thy ===== *)
theory Reconciler
  imports Reconcile_Ops Preview Metrics
begin

text \<open>
  \<open>internal/controller/nodemaintenanceplan_controller.go\<close>: a whole pass of the reconciler over
  one plan, from the request's name to the requeue. The components of the other theories run
  in the code's order and share the plan object and the node objects of the state.
\<close>

section \<open>Definitions\<close>

definition patch_plan :: "'w env \<Rightarrow> (Plan \<Rightarrow> Plan) \<Rightarrow> ('w, unit) op" where
  "patch_plan E change = go_bind get_plan (\<lambda>original.
     go_then (modify_plan change)
     (go_bind (client_call (PatchPlan original (change original)) (k_patchPlan E original (change original)))
       (\<lambda>plan. modify_plan (\<lambda>_. plan))))"

definition add_finalizer :: "'w env \<Rightarrow> Plan \<Rightarrow> Plan" where
  "add_finalizer E plan = plan\<lparr>Finalizers := k_AddFinalizer E (Finalizers plan) NodeMaintenancePlanFinalizer\<rparr>"

definition remove_finalizer :: "'w env \<Rightarrow> Plan \<Rightarrow> Plan" where
  "remove_finalizer E plan = plan\<lparr>Finalizers := k_RemoveFinalizer E (Finalizers plan) NodeMaintenancePlanFinalizer\<rparr>"

definition ensureFinalizer :: "'w env \<Rightarrow> ('w, unit) op" where
  "ensureFinalizer E = go_bind get_plan (\<lambda>plan.
     if k_ContainsFinalizer E (Finalizers plan) NodeMaintenancePlanFinalizer then go_ret ()
     else patch_plan E (add_finalizer E))"

definition record_metrics :: "(Plan \<Rightarrow> gauges \<Rightarrow> gauges) \<Rightarrow> ('w, unit) op" where
  "record_metrics f = go_modify (\<lambda>s. s\<lparr>st_gauges := f (st_plan s) (st_gauges s)\<rparr>)"

definition handleDeletion :: "'w env \<Rightarrow> ('w, unit) op" where
  "handleDeletion E = go_bind get_plan (\<lambda>plan.
     if \<not> k_ContainsFinalizer E (Finalizers plan) NodeMaintenancePlanFinalizer then go_ret ()
     else go_then (CleanUp E)
       (go_then (record_metrics DeletePlan)
       (go_bind (go_try (patch_plan E (remove_finalizer E))) (\<lambda>r. case r of
          Inl err \<Rightarrow> if \<not> IsNotFound err then go_raise err else go_ret ()
        | Inr _ \<Rightarrow> go_ret ()))))"

text \<open>The part of \<open>Reconcile\<close> after the plan is known to live.\<close>

definition reconcile_live :: "'w env \<Rightarrow> ('w, duration) op" where
  "reconcile_live E =
     go_then (ensureFinalizer E)
     (go_bind (ComputeOwnershipResolution E) (\<lambda>res.
      go_bind (ComputeSchedule E) (\<lambda>schedule.
      go_then (ReconcileOwnership E res (ShouldAct (ps_Cordon schedule)))
      (go_then (UpdateStatus E res)
      (go_then (ReconcilePreview E res)
      (go_then (ReconcileDrift E res)
      (go_then (go_when (ShouldAct (ps_Cordon schedule)) (ReconcileCordon E res))
      (go_bind (if ShouldAct (ps_Drain schedule) then ReconcileDrain E res else go_ret 0) (\<lambda>drainRequeue.
       let requeueAfter = (if drainRequeue \<noteq> 0 then drainRequeue else ps_RequeueAfter schedule) in
       go_then (record_metrics RecordPlan) (go_ret requeueAfter))))))))))"

definition Reconcile :: "'w env \<Rightarrow> string \<Rightarrow> ('w, duration) op" where
  "Reconcile E name = go_bind (go_try (client_call (GetPlan name) (k_getPlan E name))) (\<lambda>r. case r of
     Inl err \<Rightarrow> if IsNotFound err then go_ret 0 else go_raise err
   | Inr plan \<Rightarrow> go_then (modify_plan (\<lambda>_. plan))
       (if plan_DeletionTimestamp plan \<noteq> None then go_then (handleDeletion E) (go_ret 0)
        else reconcile_live E))"

text \<open>
  What the API server promises of the plans it returns: a get answers with the plan asked for,
  a patch with the plan patched.
\<close>

definition plan_identity :: "'w env \<Rightarrow> bool" where
  "plan_identity E \<longleftrightarrow>
     (\<forall>nm w p w'. k_getPlan E nm w = (Inr p, w') \<longrightarrow> plan_Name p = nm) \<and>
     (\<forall>o1 m w p w'. k_patchPlan E o1 m w = (Inr p, w') \<longrightarrow> plan_Name p = plan_Name m) \<and>
     (\<forall>o1 m w p w'. k_patchPlanStatus E o1 m w = (Inr p, w') \<longrightarrow> plan_Name p = plan_Name m)"

text \<open>A merge patch that changes the mark of ownership comes back with the new mark.\<close>

definition merge_patch_law :: "'w env \<Rightarrow> bool" where
  "merge_patch_law E \<longleftrightarrow> (\<forall>o1 m w n w'. k_patchNode E o1 m w = (Inr n, w') \<longrightarrow> owner_of m \<noteq> owner_of o1 \<longrightarrow>
     owner_of n = owner_of m)"

text \<open>The calls that touch workloads, and the patches that take a node out of service.\<close>

fun evicts :: "call \<Rightarrow> bool" where
  "evicts (EvictPod _ _) = True"
| "evicts (DeletePod _) = True"
| "evicts _ = False"

fun cordons :: "call \<Rightarrow> bool" where
  "cordons (PatchNode o1 m) = (Unschedulable m \<and> \<not> Unschedulable o1)"
| "cordons _ = False"

text \<open>The requests of a goroutine.\<close>

fun pod_call :: "call \<Rightarrow> bool" where
  "pod_call (ListPods _) = True"
| "pod_call (EvictPod _ _) = True"
| "pod_call (DeletePod _) = True"
| "pod_call _ = False"

section \<open>The contract of an effect on a pass\<close>

text \<open>Nothing but the server changes a plan's spec and metadata; the finalizer is the reconciler's own.\<close>

definition same_plan :: "Plan \<Rightarrow> Plan \<Rightarrow> bool" where
  "same_plan p q \<longleftrightarrow> plan_Name p = plan_Name q \<and> Spec p = Spec q \<and> Finalizers p = Finalizers q \<and>
     plan_DeletionTimestamp p = plan_DeletionTimestamp q"

lemma same_plan_refl [simp]: "same_plan p p"
  by (simp add: same_plan_def)

lemma entry_writers_plan [simp]:
  "same_plan (setCondition E c st r msg p) q = same_plan p q" "same_plan (update_entry nm f p) q = same_plan p q"
  by (simp_all add: same_plan_def setCondition_def update_entry_def)

lemma status_writers_plan [simp]:
  "same_plan (set_selected E nss p) q = same_plan p q" "same_plan (set_statuses nss p) q = same_plan p q"
  "same_plan (set_cordoned E b p) q = same_plan p q" "same_plan (set_conflict E res p) q = same_plan p q"
  "same_plan (set_scheduled E x p) q = same_plan p q" "same_plan (set_drift E nss p) q = same_plan p q"
  "same_plan (set_snapshot res p) q = same_plan p q" "same_plan (set_all_ready p) q = same_plan p q"
  "same_plan (recomputePlanSummaries E p) q = same_plan p q"
  "same_plan (setDrainConditions E b1 b2 b3 p) q = same_plan p q"
  "same_plan (set_timed_out E m p) q = same_plan p q" "same_plan (record_start t p) q = same_plan p q"
  by (simp_all add: same_plan_def set_selected_def set_statuses_def set_cordoned_def set_conflict_def set_scheduled_def
      set_drift_def set_snapshot_def set_all_ready_def setCondition_def set_timed_out_def recomputePlanSummaries_def
      setDrainConditions_def record_start_def Let_def split: option.splits)

lemma markNodeReady_name: "markNodeReadyForMaintenance nm p = (p', b) \<Longrightarrow> same_plan p' p"
  by (auto simp: same_plan_def update_entry_def markNodeReadyForMaintenance_def split: option.split_asm if_split_asm)

text \<open>
  What a call does to the world, whatever the answer: \<open>served E c g\<close> says that \<open>g\<close> is the
  world after one of the requests the call stands for.
\<close>

fun served :: "'w env \<Rightarrow> call \<Rightarrow> ('w \<Rightarrow> 'w) \<Rightarrow> bool" where
  "served E (GetNode nm) g = (\<forall>w. g w = snd (k_getNode E nm w))"
| "served E ListNodes g = (\<exists>sel. \<forall>w. g w = snd (k_listNodes E sel w))"
| "served E (PatchNode o1 m) g = (\<forall>w. g w = snd (k_patchNode E o1 m w))"
| "served E (ListPods nm) g = (\<forall>w. g w = snd (k_listPods E nm w))"
| "served E (EvictPod pod gp) g = (\<forall>w. g w = snd (k_evictPod E pod gp w))"
| "served E (DeletePod pod) g = (\<forall>w. g w = snd (k_deletePod E pod w))"
| "served E (ListPDBs ns) g = (\<forall>w. g w = snd (k_listPDBs E ns w))"
| "served E (GetPlan nm) g = (\<forall>w. g w = snd (k_getPlan E nm w))"
| "served E ListPlans g = (\<forall>w. g w = snd (k_listPlans E w))"
| "served E (PatchPlan o1 m) g = (\<forall>w. g w = snd (k_patchPlan E o1 m w))"
| "served E (PatchPlanStatus o1 m) g = (\<forall>w. g w = snd (k_patchPlanStatus E o1 m w))"

text \<open>
  An effect of the state of a pass that only looks at the plan's name and spec, the node
  objects, the calls of the allowed kind and what they and the clock do to the world. The
  parts of a pass that do not write to nodes have every such effect.
\<close>

locale pass_effect = effect R for R :: "'w st \<Rightarrow> 'w st \<Rightarrow> bool" +
  fixes E :: "'w env" and ok :: "call \<Rightarrow> bool"
  assumes aside: "st_world t = st_world s \<Longrightarrow> st_plan t = st_plan s \<Longrightarrow> st_heap t = st_heap s \<Longrightarrow>
      st_trace t = st_trace s \<Longrightarrow> R s t"
    and clocked: "R s (s\<lparr>st_world := snd (k_clockNow E (st_world s))\<rparr>)" "R s (s\<lparr>st_world := snd (k_metaNow E (st_world s))\<rparr>)"
    and named: "same_plan p (st_plan s) \<Longrightarrow> R s (s\<lparr>st_plan := p\<rparr>)"
    and called: "ok c \<Longrightarrow> served E c g \<Longrightarrow> R s (s\<lparr>st_world := g (st_world s), st_trace := st_trace s @ [c]\<rparr>)"
    and patched: "k_patchPlanStatus E o1 (st_plan s) (st_world s) = (Inr p, w) \<Longrightarrow> R s (s\<lparr>st_plan := p\<rparr>)"
begin

lemma obeys_client_call: "ok c \<Longrightarrow> served E c (\<lambda>w. snd (f w)) \<Longrightarrow> obeys R (client_call c f)"
  using called [of c "\<lambda>w. snd (f w)"] by (simp add: obeys_def client_call_def split_beta)

lemma obeys_read_clock: "obeys R (read_clock (k_clockNow E))" "obeys R (read_clock (k_metaNow E))"
  by (simp_all add: obeys_def read_clock_def split_beta clocked)

lemma obeys_get_plan: "obeys R get_plan"
  by (simp add: get_plan_def obeys_get)

lemma obeys_modify_plan: "(\<And>p. same_plan (f p) p) \<Longrightarrow> obeys R (modify_plan f)"
  by (simp add: obeys_def go_run named)

lemma obeys_Eventf: "obeys R (Eventf r ty re ac no ar)"
  unfolding Eventf_def by (intro obeys_bind obeys_get_plan) (simp add: obeys_def go_run aside)

lemma obeys_load_node: "obeys R (load_node a)"
  unfolding load_node_def by (intro obeys_intros)

lemma obeys_load_nodes: "obeys R (load_nodes as)"
  by (induction as) (auto intro!: obeys_intros obeys_load_node)

lemma obeys_patch_plan_status:
  assumes "\<And>p. ok (PatchPlanStatus original p)"
  shows "obeys R (patch_plan_status E original)"
  unfolding obeys_def
proof
  fix s :: "'w st"
  let ?call = "PatchPlanStatus original (st_plan s)"
  obtain r w where rw: "k_patchPlanStatus E original (st_plan s) (st_world s) = (r, w)" by force
  have call: "R u (u\<lparr>st_world := w, st_trace := st_trace u @ [?call]\<rparr>)" if "st_world u = st_world s" for u
    using called [OF assms, of "st_plan s" "\<lambda>w. snd (k_patchPlanStatus E original (st_plan s) w)" u] that rw by simp
  show "R s (snd (patch_plan_status E original s))"
  proof (cases r)
    case (Inl e)
    then show ?thesis using call [of s] by (simp add: patch_plan_status_def go_bind_def go_run client_call_def rw)
  next
    case (Inr p)
    have "R s (s\<lparr>st_plan := p\<rparr>)" by (rule patched) (use rw Inr in simp)
    moreover have "R (s\<lparr>st_plan := p\<rparr>) (s\<lparr>st_plan := p, st_world := w, st_trace := st_trace s @ [?call]\<rparr>)"
      using call [of "s\<lparr>st_plan := p\<rparr>"] by simp
    ultimately have "R s (s\<lparr>st_plan := p, st_world := w, st_trace := st_trace s @ [?call]\<rparr>)" by (rule R_trans)
    moreover have "s\<lparr>st_plan := p, st_world := w, st_trace := st_trace s @ [?call]\<rparr> =
        s\<lparr>st_world := w, st_trace := st_trace s @ [?call], st_plan := p\<rparr>"
      by (cases s) simp
    ultimately show ?thesis
      using Inr by (simp add: patch_plan_status_def go_bind_def go_run client_call_def rw)
  qed
qed

lemmas obeys_prims = obeys_client_call obeys_read_clock obeys_get_plan obeys_Eventf obeys_load_node obeys_load_nodes
  obeys_patch_plan_status

text \<open>The effects of the loop of goroutines are those of their turns.\<close>

lemma obeys_pool_turn:
  assumes "\<And>node th. obeys R (drain_turn E' plan node th)"
  shows "obeys R (pool_turn E' plan nodes i P)"
  unfolding pool_turn_def
  by (cases "threads P ! i") (auto intro!: obeys_ret obeys_bind assms simp del: drain_turn.simps)

lemma obeys_pool_loop:
  assumes "\<And>node th. obeys R (drain_turn E' plan node th)"
  shows "obeys R (pool_loop E' plan nodes k n P)"
proof -
  have "R s (snd (pool_loop E' plan nodes k n P s))" for s
    using assms
  proof (induction E' plan nodes k n P s rule: pool_loop.induct)
    case (1 E' plan nodes k n P s)
    show ?case
    proof (cases "enabled k P = []")
      case True
      then show ?thesis by (simp add: pool_loop.simps [of E' plan nodes k n P s] R_refl)
    next
      case False
      obtain r t where rt: "pool_turn E' plan nodes (pick E' n (enabled k P)) P s = (r, t)" by force
      have st: "R s t" by (rule obeysD [OF obeys_pool_turn [OF 1(2)] rt])
      show ?thesis
      proof (cases r)
        case (Inl e)
        then show ?thesis using False rt st by (simp add: pool_loop.simps [of E' plan nodes k n P s])
      next
        case (Inr P1)
        then have "R t (snd (pool_loop E' plan nodes k (Suc n) P1 t))"
          by (intro 1(1) [OF False] 1(2)) (use rt in auto)
        with st show ?thesis
          using False rt Inr R_trans by (simp add: pool_loop.simps [of E' plan nodes k n P s])
      qed
    qed
  qed
  then show ?thesis by (simp add: obeys_def)
qed

lemma obeys_filterPods: "ok (ListPods (node_Name node)) \<Longrightarrow> obeys R (filterPodsForDrain E node cfg)"
  unfolding filterPodsForDrain_def by (intro obeys_intros obeys_prims) simp_all

lemma obeys_drain_turn:
  assumes "\<And>c. pod_call c \<Longrightarrow> ok c"
  shows "obeys R (drain_turn E plan node th)"
  using assms
  by (cases "(E, plan, node, th)" rule: drain_turn.cases)
    (auto simp: evictPod_def intro!: obeys_intros obeys_client_call obeys_filterPods)

text \<open>The parts that do not write to nodes.\<close>

lemma obeys_UpdateStatus:
  assumes "\<And>o1 p. ok (PatchPlanStatus o1 p)"
  shows "obeys R (UpdateStatus E res)"
  unfolding UpdateStatus_def warnDisappearedNodes_def warn_disappeared_def is_scheduled_def
    setNodeNotReadyCondition_def not_ready_node_def Let_def
  by (intro obeys_intros obeys_prims assms obeys_modify_plan) simp_all

lemma obeys_buildPDBIssues: "(\<And>ns. ok (ListPDBs ns)) \<Longrightarrow> obeys R (buildPDBIssues E pods)"
  unfolding buildPDBIssues_def namespace_issues_def by (intro obeys_intros obeys_prims) simp_all

lemma obeys_ReconcilePreview:
  assumes "\<And>c. dry_call c \<Longrightarrow> ok c"
  shows "obeys R (ReconcilePreview E res)"
  unfolding ReconcilePreview_def preview_node_def Let_def
  by (intro obeys_intros obeys_prims obeys_filterPods obeys_buildPDBIssues obeys_modify_plan)
    (simp_all add: assms setNodePreview_def same_plan_def update_entry_def)

lemma obeys_mark_ready:
  assumes "\<And>b. obeys R (f b)"
  shows "obeys R (go_bind get_plan (\<lambda>plan. case markNodeReadyForMaintenance nm plan of (plan', b) \<Rightarrow>
    go_then (modify_plan (\<lambda>_. plan')) (f b)))"
  unfolding obeys_def
proof
  fix s :: "'w st"
  obtain p b where m: "markNodeReadyForMaintenance nm (st_plan s) = (p, b)" by force
  have "R s (s\<lparr>st_plan := p\<rparr>)" by (rule named [OF markNodeReady_name [OF m]])
  moreover have "R (s\<lparr>st_plan := p\<rparr>) (snd (f b (s\<lparr>st_plan := p\<rparr>)))" using assms by (simp add: obeys_def)
  ultimately have "R s (snd (f b (s\<lparr>st_plan := p\<rparr>)))" by (rule R_trans)
  then show "R s (snd (go_bind get_plan (\<lambda>plan. case markNodeReadyForMaintenance nm plan of (plan', b) \<Rightarrow>
    go_then (modify_plan (\<lambda>_. plan')) (f b)) s))"
    by (simp add: go_bind_def go_then_def go_run m)
qed

lemma obeys_apply_result: "obeys R (apply_result E original r fl)"
  unfolding apply_result_def result_drained_def result_evicting_def result_stuck_def result_not_ready_def
    result_blocked_def result_error_def Let_def
  by (intro obeys_mark_ready obeys_intros obeys_prims obeys_modify_plan)
    (simp_all add: updateNodeDrainStatus_def setNodeIssues_def)

lemma obeys_applyDrainResults:
  assumes "\<And>o1 p. ok (PatchPlanStatus o1 p)"
  shows "obeys R (applyDrainResults E results)"
  unfolding applyDrainResults_def abort_drain_def conclude_drain_def
  by (intro obeys_intros obeys_prims obeys_apply_result obeys_modify_plan assms) simp_all

lemma obeys_ReconcileDrain:
  assumes "\<And>c. pod_call c \<Longrightarrow> ok c" "\<And>o1 p. ok (PatchPlanStatus o1 p)"
  shows "obeys R (ReconcileDrain E res)"
  unfolding ReconcileDrain_def drainNodes_def
  by (intro obeys_intros obeys_prims obeys_pool_loop obeys_drain_turn obeys_applyDrainResults assms)

end

section \<open>The effects\<close>

text \<open>The calls made, and what the parts that only read nodes keep.\<close>

interpretation pass_trace: pass_effect "trace_within ok" E ok for E :: "'w env" and ok
  by unfold_locales (auto simp: trace_within_def)

fun reads_nodes :: "call \<Rightarrow> bool" where
  "reads_nodes (PatchNode _ _) = False"
| "reads_nodes _ = True"

definition keeps_nodes :: "'w env \<Rightarrow> 'w st \<Rightarrow> 'w st \<Rightarrow> bool" where
  "keeps_nodes E s t \<longleftrightarrow> st_heap t = st_heap s \<and> trace_within reads_nodes s t \<and>
     (plan_identity E \<longrightarrow> plan_Name (st_plan t) = plan_Name (st_plan s))"

lemma plan_identity_get: "plan_identity E \<Longrightarrow> k_getPlan E nm w = (Inr p, w') \<Longrightarrow> plan_Name p = nm"
  unfolding plan_identity_def by blast

lemma plan_identity_patch: "plan_identity E \<Longrightarrow> k_patchPlan E o1 m w = (Inr p, w') \<Longrightarrow> plan_Name p = plan_Name m"
  unfolding plan_identity_def by blast

lemma plan_identity_status: "plan_identity E \<Longrightarrow> k_patchPlanStatus E o1 m w = (Inr p, w') \<Longrightarrow> plan_Name p = plan_Name m"
  unfolding plan_identity_def by blast

interpretation pass_nodes: pass_effect "keeps_nodes E" E reads_nodes for E :: "'w env"
proof (unfold_locales, goal_cases)
  case (1 s)
  show ?case by (simp add: keeps_nodes_def tr.R_refl)
next
  case (2 s t u)
  then show ?case by (auto simp: keeps_nodes_def intro: tr.R_trans)
next
  case (8 o1 s p w)
  then show ?case by (auto simp: keeps_nodes_def trace_within_def dest: plan_identity_status)
qed (auto simp: keeps_nodes_def trace_within_def same_plan_def)

text \<open>Nobody edits the plan while the pass runs: a patch comes back with the spec it was sent.\<close>

definition spec_kept :: "'w env \<Rightarrow> bool" where
  "spec_kept E \<longleftrightarrow>
     (\<forall>o1 m w p w'. k_patchPlan E o1 m w = (Inr p, w') \<longrightarrow> Spec p = Spec m) \<and>
     (\<forall>o1 m w p w'. k_patchPlanStatus E o1 m w = (Inr p, w') \<longrightarrow> Spec p = Spec m)"

definition keeps_spec :: "'w env \<Rightarrow> 'w st \<Rightarrow> 'w st \<Rightarrow> bool" where
  "keeps_spec E s t \<longleftrightarrow> (spec_kept E \<longrightarrow> Spec (st_plan t) = Spec (st_plan s))"

lemma spec_kept_status: "spec_kept E \<Longrightarrow> k_patchPlanStatus E o1 m w = (Inr p, w') \<Longrightarrow> Spec p = Spec m"
  unfolding spec_kept_def by blast

interpretation pass_spec: pass_effect "keeps_spec E" E "\<lambda>_. True" for E :: "'w env"
proof (unfold_locales, goal_cases)
  case (8 o1 s p w)
  then show ?case by (auto simp: keeps_spec_def dest: spec_kept_status)
qed (auto simp: keeps_spec_def same_plan_def)

section \<open>Whose nodes a pass writes to\<close>

lemma triple_try_inv: "triple P m (\<lambda>_. Q) Q \<Longrightarrow> triple P (go_try m) (\<lambda>_. Q) X"
  by (rule triple_try) (simp add: triple_def split: prod.splits sum.splits)

lemma triple_keeps:
  fixes m :: "('w, 'a) op"
  assumes "obeys (keeps_nodes E) m" "plan_identity E"
  shows "triple (\<lambda>s. safe_on p B s) m (\<lambda>_ s. safe_on p B s) (patches_safe p)"
  unfolding triple_def
proof (intro allI impI)
  fix s :: "'w st" assume s: "safe_on p B s"
  obtain r t where rt: "m s = (r, t)" by force
  have "keeps_nodes E s t" by (rule obeysD [OF assms(1) rt])
  then have same: "st_heap t = st_heap s" "plan_Name (st_plan t) = plan_Name (st_plan s)" "trace_within reads_nodes s t"
    using assms(2) by (simp_all add: keeps_nodes_def)
  have "reads_nodes c \<Longrightarrow> safe_call p c" for c by (cases c) simp_all
  with same(3) have "trace_within (safe_call p) s t" by (rule trace_within_mono)
  with s same have "safe_on p B t" by (auto simp: patches_safe_def available_def trace_within_def list_all_iff)
  with rt show "case m s of (Inl e, t) \<Rightarrow> patches_safe p t | (Inr x, t) \<Rightarrow> safe_on p B t"
    by (simp split: sum.split)
qed

lemma triple_keeps_safe:
  fixes m :: "('w, 'a) op"
  assumes "obeys (keeps_nodes E) m" "plan_identity E"
  shows "triple (patches_safe p) m (\<lambda>_. patches_safe p) (patches_safe p)"
  by (rule triple_weaken [OF triple_keeps [OF assms, where B = "{}"]]) (auto simp: available_def)

lemma patch_plan_safe:
  assumes "plan_identity E" "\<And>p. plan_Name (f p) = plan_Name p"
  shows "triple (patches_safe p) (patch_plan E f) (\<lambda>_. patches_safe p) (patches_safe p)"
  using assms(2)
  by (auto simp: triple_def patch_plan_def go_bind_def go_then_def go_run client_call_def patches_safe_def
      split: prod.split sum.split dest: plan_identity_patch [OF assms(1)])

lemma ensureFinalizer_safe:
  assumes "plan_identity E"
  shows "triple (patches_safe p) (ensureFinalizer E) (\<lambda>_. patches_safe p) (patches_safe p)"
  unfolding ensureFinalizer_def
  by (rule triple_bind [OF triple_get_plan], assumption, intro triple_if triple_ret patch_plan_safe [OF assms])
    (simp_all add: add_finalizer_def)

lemma record_metrics_safe: "triple (patches_safe p) (record_metrics f) (\<lambda>_. patches_safe p) X"
  unfolding record_metrics_def by (rule triple_modify) (simp add: patches_safe_def)

lemma handleDeletion_safe:
  assumes "range_laws E" "plan_identity E"
  shows "triple (patches_safe p) (handleDeletion E) (\<lambda>_. patches_safe p) (patches_safe p)"
proof -
  have patch: "triple (patches_safe p) (go_try (patch_plan E (remove_finalizer E))) (\<lambda>_. patches_safe p) (patches_safe p)"
    by (rule triple_try_inv, rule patch_plan_safe [OF assms(2)]) (simp add: remove_finalizer_def)
  show ?thesis unfolding handleDeletion_def
    by (rule triple_bind [OF triple_get_plan], assumption, rule triple_if, rule triple_ret, assumption,
        rule triple_then [OF CleanUp_safe [OF assms(1)]], rule triple_then [OF record_metrics_safe],
        rule triple_bind [OF patch]) (auto intro!: triple_raise triple_ret split: sum.split)
qed

lemma ComputeOwnershipResolution_ok:
  assumes range: "range_laws E"
  shows "triple (patches_safe p) (ComputeOwnershipResolution E)
    (\<lambda>res s. patches_safe p s \<and> resolution_ok p (st_heap s) res) (patches_safe p)"
proof -
  have plan: "triple (patches_safe p) get_plan (\<lambda>plan s. patches_safe p s \<and> plan_Name plan = p) (patches_safe p)"
    by (rule triple_get_plan) (simp add: patches_safe_def)
  have desired: "triple (patches_safe p) (desired_nodes E plan) (\<lambda>_. patches_safe p) (patches_safe p)" for plan
    by (rule triple_of_effects) (rule desired_nodes_effects)+
  have finish: "triple (\<lambda>s. patches_safe p s \<and> distinct (map fst managed) \<and> (\<forall>a n. map_of managed a = Some n \<longrightarrow> owner_of n = p))
      (go_then (point_to desired managed) (go_ret ((ComputeOwnership E desired managed p)\<lparr>SnapshotNodes := sn\<rparr>)))
      (\<lambda>res s. patches_safe p s \<and> resolution_ok p (st_heap s) res) (patches_safe p)"
    if "distinct (map fst desired)" for desired managed sn
    unfolding point_to_def
    using resolution_ok_ComputeOwnership [OF range that, of managed p sn]
    by (auto simp: triple_def go_then_def go_bind_def go_run patches_safe_def)
  have rest: "triple (patches_safe p)
      (case r of (result, snapshotNodes) \<Rightarrow>
         let desired = (case result of None \<Rightarrow> [] | Some r \<Rightarrow> by_name (rr_Nodes r))
         in go_bind (go_map_err (Wrapped ''resolving owned nodes'') (ResolveOwnedNodes E p))
              (\<lambda>managed. go_then (point_to desired managed)
                 (go_ret ((ComputeOwnership E desired managed p)\<lparr>SnapshotNodes := snapshotNodes\<rparr>))))
      (\<lambda>res s. patches_safe p s \<and> resolution_ok p (st_heap s) res) (patches_safe p)" for r
    by (cases r, simp only: prod.case Let_def,
        rule triple_bind [OF triple_map_err [OF triple_resolve_owned]], rule finish)
      (simp add: by_name_distinct split: option.split)
  have body: "triple (\<lambda>s. patches_safe p s \<and> plan_Name plan = p)
      (go_bind (desired_nodes E plan) (\<lambda>(result, snapshotNodes).
       let desired = (case result of None \<Rightarrow> [] | Some r \<Rightarrow> by_name (rr_Nodes r))
       in go_bind (go_map_err (Wrapped ''resolving owned nodes'') (ResolveOwnedNodes E (plan_Name plan)))
            (\<lambda>managed. go_then (point_to desired managed)
               (go_ret ((ComputeOwnership E desired managed (plan_Name plan))\<lparr>SnapshotNodes := snapshotNodes\<rparr>)))))
      (\<lambda>res s. patches_safe p s \<and> resolution_ok p (st_heap s) res) (patches_safe p)" for plan
    by (rule triple_fact) (simp only:, rule triple_bind [OF desired rest])
  show ?thesis unfolding ComputeOwnershipResolution_def
    by (rule triple_bind [OF plan body])
qed

text \<open>What the later parts need of the resolution.\<close>

definition lists_apart :: "OwnershipResolution \<Rightarrow> bool" where
  "lists_apart res \<longleftrightarrow> distinct (ToAdopt res) \<and> distinct (ToRelease res) \<and>
     set (ToAdopt res) \<inter> set (ToRelease res) = {} \<and> set (Stable res) \<inter> set (ToRelease res) = {}"

lemma resolution_ok_apart: "resolution_ok p h res \<Longrightarrow> lists_apart res"
  by (auto simp: resolution_ok_def lists_apart_def)

lemma resolution_ok_available:
  "resolution_ok p (st_heap s) res \<Longrightarrow> available p (set (ToAdopt res) \<union> set (ToRelease res)) s"
  by (fastforce simp: resolution_ok_def available_def unclaimed_by_others_def)

lemma reconcile_live_safe:
  fixes E :: "'w env"
  assumes range: "range_laws E" and plan: "plan_identity E"
  shows "triple (patches_safe p) (reconcile_live E) (\<lambda>_. patches_safe p) (patches_safe p)"
proof -
  have resolve: "triple (patches_safe p) (ComputeOwnershipResolution E)
      (\<lambda>res s. safe_on p (set (ToAdopt res) \<union> set (ToRelease res)) s \<and> lists_apart res) (patches_safe p)"
    by (rule triple_weaken [OF ComputeOwnershipResolution_ok [OF range]])
      (auto dest: resolution_ok_apart resolution_ok_available)
  have schedule: "triple (\<lambda>s. safe_on p B s) (ComputeSchedule E) (\<lambda>_ s. safe_on p B s) (patches_safe p)" for B
    unfolding ComputeSchedule_def
    by (rule triple_keeps [OF _ plan]) (intro pass_nodes.obeys_intros pass_nodes.obeys_prims)
  have act: "triple (\<lambda>s. safe_on p (set (ToAdopt res) \<union> set (ToRelease res)) s)
      (go_then (ReconcileOwnership E res c) (go_then (UpdateStatus E res) (go_then (ReconcilePreview E res)
        (go_then (ReconcileDrift E res) (go_then (go_when c (ReconcileCordon E res)) m)))))
      (\<lambda>_. patches_safe p) (patches_safe p)"
    if apart: "lists_apart res" and m: "triple (patches_safe p) m (\<lambda>_. patches_safe p) (patches_safe p)" for res c and m :: "('w, duration) op"
  proof -
    note a = apart [unfolded lists_apart_def]
    have own: "triple (\<lambda>s. safe_on p (set (ToAdopt res) \<union> set (ToRelease res)) s) (ReconcileOwnership E res c)
        (\<lambda>_ s. safe_on p (set (ToRelease res)) s) (patches_safe p)"
      by (rule ReconcileOwnership_safe) (use a in auto)
    have cordon: "triple (\<lambda>s. safe_on p (set (ToRelease res)) s) (go_when c (ReconcileCordon E res)) (\<lambda>_. patches_safe p) (patches_safe p)"
      by (rule triple_when, rule ReconcileCordon_safe) (use a in auto)
    show ?thesis
      by (rule triple_then [OF own], rule triple_then [OF triple_keeps [OF pass_nodes.obeys_UpdateStatus plan]], simp,
          rule triple_then [OF triple_keeps [OF pass_nodes.obeys_ReconcilePreview plan]], metis dry_call.simps reads_nodes.elims(3),
          rule triple_then [OF ReconcileDrift_safe], use a in blast,
          rule triple_then [OF cordon m])
  qed
  have drain: "triple (patches_safe p) (go_bind (if c then ReconcileDrain E res else go_ret 0) (\<lambda>drainRequeue.
       let requeueAfter = (if drainRequeue \<noteq> 0 then drainRequeue else r) in
       go_then (record_metrics RecordPlan) (go_ret requeueAfter))) (\<lambda>_. patches_safe p) (patches_safe p)" for c r res
  proof -
    have "triple (patches_safe p) (ReconcileDrain E res) (\<lambda>_. patches_safe p) (patches_safe p)"
      by (rule triple_keeps_safe [OF pass_nodes.obeys_ReconcileDrain plan]) (auto elim: pod_call.elims)
    then have "triple (patches_safe p) (if c then ReconcileDrain E res else go_ret 0) (\<lambda>_. patches_safe p) (patches_safe p)"
      by (intro triple_if triple_ret)
    then show ?thesis
      unfolding Let_def by (rule triple_bind) (rule triple_then [OF record_metrics_safe], rule triple_ret, assumption)
  qed
  show ?thesis unfolding reconcile_live_def
    by (rule triple_then [OF ensureFinalizer_safe [OF plan]], rule triple_bind [OF resolve],
        rule triple_fact, rule triple_bind [OF schedule], rule act, assumption, rule drain)
qed

section \<open>A pass that is not yet due\<close>

text \<open>Both phases lie at or after \<open>T\<close>, or are switched off.\<close>

definition not_due :: "time \<Rightarrow> bool \<Rightarrow> time option \<Rightarrow> bool" where
  "not_due T on start \<longleftrightarrow> \<not> on \<or> (\<exists>t. start = Some t \<and> T \<le> t)"

definition waits :: "time \<Rightarrow> Plan \<Rightarrow> bool" where
  "waits T plan \<longleftrightarrow> not_due T (cordonEnabled plan) (cordon_start plan) \<and> not_due T (drainEnabled plan) (drain_start plan)"

definition clock_before :: "'w env \<Rightarrow> time \<Rightarrow> bool" where
  "clock_before E T \<longleftrightarrow> (\<forall>w. fst (k_clockNow E w) < T)"

text \<open>A call that takes no node out of service and touches no pod.\<close>

definition gentle :: "call \<Rightarrow> bool" where
  "gentle c \<longleftrightarrow> \<not> evicts c \<and> \<not> cordons c"

lemma waits_schedule:
  assumes "waits T plan" "now < T"
  shows "(ShouldAct (ps_Cordon (schedule_at plan now)) \<longrightarrow> \<not> cordonEnabled plan) \<and> \<not> ShouldAct (ps_Drain (schedule_at plan now))"
  using assms
  by (auto simp: waits_def not_due_def schedule_at_def CheckSchedule_def cordon_start_def drain_start_def Let_def
      split: option.splits if_splits bind_splits)

text \<open>The writers of nodes, under the two effects.\<close>

lemma spec_patch_node: "obeys (keeps_spec E) (patch_node E a f)"
proof -
  have "obeys (keeps_spec E) (store_node a n)" for n by (simp add: obeys_def go_run keeps_spec_def)
  then show ?thesis unfolding patch_node_def
    by (intro pass_spec.obeys_bind pass_spec.obeys_then pass_spec.obeys_load_node pass_spec.obeys_client_call) simp_all
qed

lemma node_ops_spec:
  "obeys (keeps_spec E) (CordonNode E a)" "obeys (keeps_spec E) (UncordonNode E a)"
  "obeys (keeps_spec E) (ReleaseNode E a)" "obeys (keeps_spec E) (AdoptNode E a c)"
  unfolding CordonNode_def UncordonNode_def ReleaseNode_def AdoptNode_def
  by (intro pass_spec.obeys_intros pass_spec.obeys_prims spec_patch_node)+

lemma node_ops_gentle:
  "obeys (trace_within gentle) (UncordonNode E a)" "obeys (trace_within gentle) (ReleaseNode E a)"
  "obeys (trace_within gentle) (AdoptNode E a False)"
  unfolding UncordonNode_def ReleaseNode_def AdoptNode_def
  by (intro tr.obeys_intros tr_prims; simp add: gentle_def)+

lemma give_back_gentle: "obeys (trace_within gentle) (give_back E u r n a)"
  unfolding give_back_def by (intro tr.obeys_intros tr_prims node_ops_gentle)

lemma give_back_spec: "obeys (keeps_spec E) (give_back E u r n a)"
  unfolding give_back_def by (intro pass_spec.obeys_intros pass_spec.obeys_prims node_ops_spec)

lemma CleanUp_gentle: "obeys (trace_within gentle) (CleanUp E)"
  unfolding CleanUp_def ResolveOwnedNodes_def point_to_def clean_one_def
  by (intro tr.obeys_intros tr_prims give_back_gentle) (simp_all add: gentle_def obeys_def go_run trace_within_def)

fun patches_plan :: "call \<Rightarrow> bool" where
  "patches_plan (PatchPlan _ _) = True"
| "patches_plan _ = False"

lemma CleanUp_keeps_plan: "obeys (trace_within (\<lambda>c. \<not> patches_plan c)) (CleanUp E)"
  unfolding CleanUp_def ResolveOwnedNodes_def point_to_def clean_one_def give_back_def UncordonNode_def ReleaseNode_def
  by (intro tr.obeys_intros tr_prims) (simp_all add: obeys_def go_run trace_within_def)

lemma ComputeOwnershipResolution_effects:
  "obeys (keeps_spec E) (ComputeOwnershipResolution E)" "obeys (trace_within gentle) (ComputeOwnershipResolution E)"
proof -
  have point: "obeys (keeps_spec E) (point_to d m)" "obeys (trace_within gentle) (point_to d m)" for d m
    by (simp_all add: point_to_def obeys_def go_run keeps_spec_def trace_within_def)
  show "obeys (keeps_spec E) (ComputeOwnershipResolution E)"
    unfolding ComputeOwnershipResolution_def desired_nodes_def ResolveNodes_def resolveExplicitNodes_def
      resolveSnapshotNodes_def resolveSelectorNodes_def ResolveOwnedNodes_def get_node_def Let_def
    by (intro pass_spec.obeys_intros pass_spec.obeys_prims point TrueI) auto
  show "obeys (trace_within gentle) (ComputeOwnershipResolution E)"
    unfolding ComputeOwnershipResolution_def desired_nodes_def ResolveNodes_def resolveExplicitNodes_def
      resolveSnapshotNodes_def resolveSelectorNodes_def ResolveOwnedNodes_def get_node_def Let_def
    by (intro tr.obeys_intros tr_prims point) (simp_all add: gentle_def)
qed

lemma ReconcileDrift_effects:
  "obeys (keeps_spec E) (ReconcileDrift E res)" "obeys (trace_within gentle) (ReconcileDrift E res)"
  unfolding ReconcileDrift_def drift_node_def
  by (intro pass_spec.obeys_intros pass_spec.obeys_prims node_ops_spec, intro tr.obeys_intros tr_prims node_ops_gentle)

lemma ReconcileOwnership_spec: "obeys (keeps_spec E) (ReconcileOwnership E res now)"
  unfolding ReconcileOwnership_def conflict_event_def adopt_one_def
  by (intro pass_spec.obeys_intros pass_spec.obeys_prims node_ops_spec)

lemma adopt_one_gentle:
  assumes "\<not> (cordonEnabled plan \<and> now)"
  shows "obeys (trace_within gentle) (adopt_one E plan now a)"
proof -
  have off: "(cordonEnabled plan \<and> now) = False" using assms by blast
  show ?thesis unfolding adopt_one_def off by (intro tr.obeys_intros tr_prims node_ops_gentle)
qed

lemma cordon_stable_gentle:
  assumes "\<not> cordonEnabled plan"
  shows "obeys (trace_within gentle) (cordon_stable E plan a)"
proof -
  have off: "cordonEnabled plan = False" using assms by blast
  show ?thesis unfolding cordon_stable_def off if_False by (intro tr.obeys_intros tr_prims node_ops_gentle)
qed

lemma ReconcileCordon_spec: "obeys (keeps_spec E) (ReconcileCordon E res)"
  unfolding ReconcileCordon_def cordon_stable_def release_one_def
  by (intro pass_spec.obeys_intros pass_spec.obeys_prims node_ops_spec give_back_spec)

text \<open>The invariant of such a pass: the spec it started with, and gentle calls only.\<close>

definition quiet :: "Plan \<Rightarrow> 'w st \<Rightarrow> bool" where
  "quiet p s \<longleftrightarrow> Spec (st_plan s) = Spec p \<and> (\<forall>c \<in> set (st_trace s). gentle c)"

definition gentle_so_far :: "'w st \<Rightarrow> bool" where
  "gentle_so_far s \<longleftrightarrow> (\<forall>c \<in> set (st_trace s). gentle c)"

lemma triple_gentle:
  fixes m :: "('w, 'a) op"
  assumes "obeys (trace_within gentle) m"
  shows "triple gentle_so_far m (\<lambda>_. gentle_so_far) gentle_so_far"
  unfolding triple_def
proof (intro allI impI)
  fix s :: "'w st" assume s: "gentle_so_far s"
  obtain r t where rt: "m s = (r, t)" by force
  with obeysD [OF assms rt] s have "gentle_so_far t"
    by (auto simp: gentle_so_far_def trace_within_def list_all_iff)
  with rt show "case m s of (Inl e, t) \<Rightarrow> gentle_so_far t | (Inr x, t) \<Rightarrow> gentle_so_far t" by (simp split: sum.split)
qed

lemma triple_quiet:
  fixes m :: "('w, 'a) op"
  assumes "obeys (keeps_spec E) m" "obeys (trace_within gentle) m" "spec_kept E"
  shows "triple (quiet p) m (\<lambda>_. quiet p) gentle_so_far"
  unfolding triple_def
proof (intro allI impI)
  fix s :: "'w st" assume s: "quiet p s"
  obtain r t where rt: "m s = (r, t)" by force
  with obeysD [OF assms(1) rt] obeysD [OF assms(2) rt] s assms(3) have "quiet p t"
    by (auto simp: quiet_def keeps_spec_def trace_within_def list_all_iff)
  with rt show "case m s of (Inl e, t) \<Rightarrow> gentle_so_far t | (Inr x, t) \<Rightarrow> quiet p t"
    by (simp add: quiet_def gentle_so_far_def split: sum.split)
qed

lemma quiet_plan:
  assumes "\<And>plan. cordonEnabled plan = cordonEnabled p \<Longrightarrow> obeys (keeps_spec E) (f plan)"
    and "\<And>plan. cordonEnabled plan = cordonEnabled p \<Longrightarrow> obeys (trace_within gentle) (f plan)" and "spec_kept E"
  shows "triple (quiet p) (go_bind get_plan f) (\<lambda>_. quiet p) gentle_so_far"
proof (rule triple_bind [where R = "\<lambda>plan s. quiet p s \<and> cordonEnabled plan = cordonEnabled p"])
  show "triple (quiet p) get_plan (\<lambda>plan s. quiet p s \<and> cordonEnabled plan = cordonEnabled p) gentle_so_far"
    by (rule triple_get_plan) (simp add: quiet_def cordonEnabled_def)
  show "triple (\<lambda>s. quiet p s \<and> cordonEnabled plan = cordonEnabled p) (f plan) (\<lambda>_. quiet p) gentle_so_far" for plan
    by (rule triple_fact, rule triple_quiet) (use assms in auto)
qed

lemma ReconcileOwnership_quiet:
  fixes E :: "'w env"
  assumes "spec_kept E" "c \<longrightarrow> \<not> cordonEnabled p"
  shows "triple (quiet p) (ReconcileOwnership E res c) (\<lambda>_. quiet p) gentle_so_far"
  unfolding ReconcileOwnership_def
proof (rule triple_then)
  show "triple (quiet p) (go_for (Conflicting res) conflict_event) (\<lambda>_. quiet p) (gentle_so_far :: 'w st \<Rightarrow> bool)"
    unfolding conflict_event_def
    by (rule triple_quiet [OF _ _ assms(1)])
      (intro pass_spec.obeys_intros pass_spec.obeys_prims, intro tr.obeys_intros tr_prims)
  show "triple (quiet p) (go_bind get_plan (\<lambda>plan. go_for (ToAdopt res) (adopt_one E plan c))) (\<lambda>_. quiet p) gentle_so_far"
  proof (rule quiet_plan [OF _ _ assms(1)])
    fix plan assume "cordonEnabled plan = cordonEnabled p"
    then show "obeys (trace_within gentle) (go_for (ToAdopt res) (adopt_one E plan c))"
      using assms(2) by (intro tr.obeys_for adopt_one_gentle) auto
    show "obeys (keeps_spec E) (go_for (ToAdopt res) (adopt_one E plan c))"
      unfolding adopt_one_def by (intro pass_spec.obeys_intros pass_spec.obeys_prims node_ops_spec)
  qed
qed

lemma ReconcileCordon_quiet:
  assumes "spec_kept E" "c \<longrightarrow> \<not> cordonEnabled p"
  shows "triple (quiet p) (go_when c (ReconcileCordon E res)) (\<lambda>_. quiet p) gentle_so_far"
proof (rule triple_when)
  assume c
  show "triple (quiet p) (ReconcileCordon E res) (\<lambda>_. quiet p) gentle_so_far"
    unfolding ReconcileCordon_def
  proof (rule quiet_plan [OF _ _ assms(1)])
    fix plan assume "cordonEnabled plan = cordonEnabled p"
    then have off: "\<not> cordonEnabled plan" using \<open>c\<close> assms(2) by simp
    show "obeys (trace_within gentle) (go_then (go_for (Stable res) (cordon_stable E plan)) (go_for (ToRelease res) (release_one E)))"
      unfolding release_one_def
      by (intro tr.obeys_intros cordon_stable_gentle [OF off] tr_load_node give_back_gentle)
    show "obeys (keeps_spec E) (go_then (go_for (Stable res) (cordon_stable E plan)) (go_for (ToRelease res) (release_one E)))"
      unfolding cordon_stable_def release_one_def
      by (intro pass_spec.obeys_intros pass_spec.obeys_prims node_ops_spec give_back_spec)
  qed
qed simp

lemma ensureFinalizer_quiet:
  assumes "spec_kept E"
  shows "triple (quiet p) (ensureFinalizer E) (\<lambda>_. quiet p) gentle_so_far"
proof -
  have spec: "k_patchPlan E o1 m w = (Inr q, w') \<Longrightarrow> Spec q = Spec m" for o1 m w q w'
    using assms unfolding spec_kept_def by blast
  show ?thesis
    by (auto simp: triple_def ensureFinalizer_def patch_plan_def add_finalizer_def go_bind_def go_then_def go_run
        client_call_def quiet_def gentle_so_far_def gentle_def split: prod.split sum.split dest: spec)
qed

lemma ComputeSchedule_quiet:
  fixes E :: "'w env"
  assumes "clock_before E T" "waits T p"
  shows "triple (quiet p) (ComputeSchedule E)
    (\<lambda>schedule s. quiet p s \<and> (ShouldAct (ps_Cordon schedule) \<longrightarrow> \<not> cordonEnabled p) \<and> \<not> ShouldAct (ps_Drain schedule)) X"
proof -
  have sched: "Spec plan = Spec p \<Longrightarrow> schedule_at plan now = schedule_at p now" for plan now
    by (simp add: schedule_at_def cordonEnabled_def drainEnabled_def)
  have now: "now < T" if "k_clockNow E w = (now, w')" for w now w'
    using assms(1) that unfolding clock_before_def by (metis fst_conv)
  show ?thesis
    unfolding triple_def
  proof (intro allI impI)
    fix s :: "'w st" assume s: "quiet p s"
    obtain t w where tw: "k_clockNow E (st_world s) = (t, w)" by force
    have "schedule_at (st_plan s) t = schedule_at p t" by (rule sched) (use s in \<open>simp add: quiet_def\<close>)
    moreover have "quiet p (s\<lparr>st_world := w\<rparr>)" using s by (simp add: quiet_def)
    ultimately show "case ComputeSchedule E s of (Inl e, t) \<Rightarrow> X t
      | (Inr x, t) \<Rightarrow> quiet p t \<and> (ShouldAct (ps_Cordon x) \<longrightarrow> \<not> cordonEnabled p) \<and> \<not> ShouldAct (ps_Drain x)"
      using waits_schedule [OF assms(2) now [OF tw]] by (simp add: ComputeSchedule_run [OF tw])
  qed
qed

lemma handleDeletion_gentle: "obeys (trace_within gentle) (handleDeletion E)"
  unfolding handleDeletion_def patch_plan_def record_metrics_def
  by (intro tr.obeys_intros tr_prims CleanUp_gentle) (simp_all add: gentle_def obeys_def go_run trace_within_def)

lemma reconcile_live_quiet:
  assumes clock: "clock_before E T" and spec: "spec_kept E" and p: "waits T p"
  shows "triple (quiet p) (reconcile_live E) (\<lambda>_. gentle_so_far) gentle_so_far"
proof -
  have resolve: "triple (quiet p) (ComputeOwnershipResolution E) (\<lambda>_. quiet p) gentle_so_far"
    by (rule triple_quiet [OF ComputeOwnershipResolution_effects spec])
  have status: "triple (quiet p) (UpdateStatus E res) (\<lambda>_. quiet p) gentle_so_far" for res
    by (rule triple_quiet [OF pass_spec.obeys_UpdateStatus pass_trace.obeys_UpdateStatus spec]) (simp_all add: gentle_def)
  have dry: "dry_call c \<Longrightarrow> gentle c" for c by (cases c) (simp_all add: gentle_def)
  have preview: "triple (quiet p) (ReconcilePreview E res) (\<lambda>_. quiet p) gentle_so_far" for res
    by (rule triple_quiet [OF pass_spec.obeys_ReconcilePreview pass_trace.obeys_ReconcilePreview spec]) (simp_all add: dry)
  have drift: "triple (quiet p) (ReconcileDrift E res) (\<lambda>_. quiet p) gentle_so_far" for res
    by (rule triple_quiet [OF ReconcileDrift_effects spec])
  have finish: "triple (quiet p) (go_bind (go_ret 0) (\<lambda>drainRequeue.
       let requeueAfter = (if drainRequeue \<noteq> 0 then drainRequeue else r) in
       go_then (record_metrics RecordPlan) (go_ret requeueAfter))) (\<lambda>_. gentle_so_far) gentle_so_far" for r
    by (simp add: triple_def go_bind_def go_then_def record_metrics_def go_run quiet_def gentle_so_far_def)
  show ?thesis unfolding reconcile_live_def
    by (rule triple_then [OF ensureFinalizer_quiet [OF spec]], rule triple_bind [OF resolve],
        rule triple_bind [OF ComputeSchedule_quiet [OF clock p]], rule triple_fact, elim conjE, simp only: if_False,
        rule triple_then [OF ReconcileOwnership_quiet [OF spec]], assumption, rule triple_then [OF status],
        rule triple_then [OF preview], rule triple_then [OF drift],
        rule triple_then [OF ReconcileCordon_quiet [OF spec]], assumption, rule finish)
qed

section \<open>Cleaning up\<close>

text \<open>The objects of \<open>D\<close> no longer carry the mark of \<open>p\<close>.\<close>

definition given_back :: "string \<Rightarrow> string set \<Rightarrow> 'w st \<Rightarrow> bool" where
  "given_back p D s \<longleftrightarrow> plan_Name (st_plan s) = p \<and> (\<forall>a \<in> D. \<exists>n. st_heap s a = Some n \<and> owner_of n \<noteq> p)"

lemma ReleaseNode_gives_back:
  fixes E :: "'w env"
  assumes "merge_patch_law E" "p \<noteq> ''''"
  shows "triple (\<lambda>s. given_back p D s) (ReleaseNode E a) (\<lambda>_ s. given_back p (insert a D) s) (\<lambda>_. True)"
  unfolding triple_def
proof (intro allI impI)
  fix s :: "'w st" assume s: "given_back p D s"
  have "given_back p (insert a D) t" if t: "ReleaseNode E a s = (Inr x, t)" for x t
  proof -
    from t obtain n where n: "st_heap s a = Some n" and cases:
      "(t = s \<and> owner_of n \<noteq> p) \<or> (owner_of n = p \<and> patch_node E a release_change s = (Inr x, t))"
      using s assms(2)
      by (auto simp: ReleaseNode_def go_bind_Inr load_node_Inr go_run given_back_def owner_of_def split: if_splits)
    from cases show ?thesis
    proof (elim disjE conjE)
      assume own: "owner_of n = p" and patch: "patch_node E a release_change s = (Inr x, t)"
      then obtain n' w where "k_patchNode E n (release_change n) (st_world s) = (Inr n', w)"
        and t: "t = s\<lparr>st_world := w, st_trace := st_trace s @ [PatchNode n (release_change n)], st_heap := (st_heap s)(a := Some n')\<rparr>"
        using n by (auto simp: patch_node_Inr)
      then have "owner_of n' = ''''"
        using assms own release_owner [of n] unfolding merge_patch_law_def by metis
      with s t assms(2) show ?thesis by (auto simp: given_back_def)
    qed (use s n in \<open>auto simp: given_back_def\<close>)
  qed
  then show "case ReleaseNode E a s of (Inl e, t) \<Rightarrow> True | (Inr x, t) \<Rightarrow> given_back p (insert a D) t"
    by (cases "ReleaseNode E a s") (simp split: sum.split)
qed

lemma UncordonNode_others:
  fixes E :: "'w env"
  assumes "a \<notin> D"
  shows "triple (\<lambda>s. given_back p D s) (UncordonNode E a) (\<lambda>_ s. given_back p D s) (\<lambda>_. True)"
  unfolding triple_def
proof (intro allI impI)
  fix s :: "'w st" assume s: "given_back p D s"
  have "given_back p D t" if t: "UncordonNode E a s = (Inr x, t)" for x t
  proof -
    from t obtain n where "t = s \<or> patch_node E a uncordon_change s = (Inr (), t)"
      by (rule UncordonNode_Inr) blast
    with s assms show ?thesis by (auto simp: given_back_def patch_node_Inr)
  qed
  then show "case UncordonNode E a s of (Inl e, t) \<Rightarrow> True | (Inr x, t) \<Rightarrow> given_back p D t"
    by (cases "UncordonNode E a s") (simp split: sum.split)
qed

lemma clean_one_gives_back:
  assumes "merge_patch_law E" "p \<noteq> ''''" "a \<notin> D"
  shows "triple (\<lambda>s. given_back p D s) (clean_one E a) (\<lambda>_ s. given_back p (insert a D) s) (\<lambda>_. True)"
proof -
  have load: "triple (\<lambda>s. given_back p D' s) (load_node a) (\<lambda>_ s. given_back p D' s) (\<lambda>_. True)" for D'
    by (rule triple_load_node) simp_all
  have event: "triple (\<lambda>s. given_back p D' s) (Eventf r ty re ac no ar) (\<lambda>_ s. given_back p D' s) (\<lambda>_. True)" for D' r ty re ac no ar
    by (rule triple_Eventf) (simp add: given_back_def)
  show ?thesis unfolding clean_one_def give_back_def
    by (rule triple_bind [OF load], rule triple_bind [OF load],
        rule triple_then [OF triple_map_err [OF UncordonNode_others [OF assms(3)]]],
        rule triple_then [OF triple_map_err [OF ReleaseNode_gives_back [OF assms(1,2)]]],
        rule triple_bind [OF load], rule event)
qed

lemma clean_all_gives_back:
  assumes "merge_patch_law E" "p \<noteq> ''''" "distinct xs" "set xs \<inter> D = {}"
  shows "triple (\<lambda>s. given_back p D s) (go_for xs (clean_one E)) (\<lambda>_ s. given_back p (set xs \<union> D) s) (\<lambda>_. True)"
  using assms(3,4)
proof (induction xs arbitrary: D)
  case Nil
  show ?case unfolding go_for.simps by (rule triple_ret) simp
next
  case (Cons x xs)
  have "triple (\<lambda>s. given_back p (insert x D) s) (go_for xs (clean_one E)) (\<lambda>_ s. given_back p (set xs \<union> insert x D) s) (\<lambda>_. True)"
    by (rule Cons.IH) (use Cons.prems in auto)
  moreover have "triple (\<lambda>s. given_back p D s) (clean_one E x) (\<lambda>_ s. given_back p (insert x D) s) (\<lambda>_. True)"
    by (rule clean_one_gives_back [OF assms(1,2)]) (use Cons.prems in auto)
  ultimately show ?case unfolding go_for.simps by (auto intro: triple_then)
qed

lemma CleanUp_releases:
  assumes range: "range_laws E" and patch: "merge_patch_law E" and p: "plan_Name (st_plan s) \<noteq> ''''"
    and run: "CleanUp E s = (Inr (), t)"
  shows "\<exists>items w. k_listNodes E None (st_world s) = (Inr items, w) \<and>
    (\<forall>node \<in> set items. owner_of node = plan_Name (st_plan s) \<longrightarrow>
      (\<exists>n. st_heap t (node_Name node) = Some n \<and> owner_of n \<noteq> plan_Name (st_plan s)))"
proof -
  let ?p = "plan_Name (st_plan s)"
  let ?owned = "\<lambda>items. by_name (filter (\<lambda>node. mget (Annotations node) ManagedByAnnotation = ?p) items)"
  from run obtain items u where list: "k_listNodes E None (st_world s) = (Inr items, st_world u)"
    and u: "u = s\<lparr>st_world := st_world u, st_trace := st_trace s @ [ListNodes]\<rparr>"
    and loop: "go_for (k_range E ''owned'' (map fst (?owned items))) (clean_one E) (u\<lparr>st_heap := map_of (?owned items)\<rparr>) = (Inr (), t)"
    by (auto simp: CleanUp_def ResolveOwnedNodes_def point_to_def go_Inr go_run client_call_Inr)
  let ?keys = "map fst (?owned items)"
  have p_u: "plan_Name (st_plan u) = ?p" by (subst u) simp
  have "distinct (k_range E ''owned'' ?keys)" using range_distinct [OF range] by_name_distinct by blast
  then have "given_back ?p (set (k_range E ''owned'' ?keys) \<union> {}) t"
    by (intro tripleD_Inr [OF clean_all_gives_back [OF patch p] _ loop]) (simp_all add: given_back_def p_u)
  moreover have "node_Name node \<in> set (k_range E ''owned'' ?keys)" if "node \<in> set items" "owner_of node = ?p" for node
    using that unfolding range_set [OF range] by_name_dom by (auto simp: owner_of_def)
  ultimately show ?thesis using list by (auto simp: given_back_def)
qed

lemma Reconcile_found:
  assumes "k_getPlan E name (st_world s) = (Inr p, w)"
  shows "Reconcile E name s =
    (if plan_DeletionTimestamp p \<noteq> None then go_then (handleDeletion E) (go_ret 0) else reconcile_live E)
      (s\<lparr>st_world := w, st_trace := st_trace s @ [GetPlan name], st_plan := p\<rparr>)"
  unfolding Reconcile_def go_try_bind
  by (simp only: client_call_def assms prod.case fst_conv snd_conv sum.case, subst go_then_def)
    (simp add: go_bind_def go_run)

lemma pass_is_safe:
  assumes range: "range_laws E" and plan: "plan_identity E"
    and start: "st_trace s = []" and run: "Reconcile E name s = (r, t)"
  shows "\<forall>c \<in> set (st_trace t). safe_call name c"
proof -
  have inv: "triple (patches_safe name)
      (if c then go_then (handleDeletion E) (go_ret 0) else reconcile_live E) (\<lambda>_. patches_safe name) (patches_safe name)" for c
    by (intro triple_if triple_then [OF handleDeletion_safe [OF range plan]] triple_ret reconcile_live_safe range plan)
  obtain a w where get: "k_getPlan E name (st_world s) = (a, w)" by force
  show ?thesis
  proof (cases a)
    case (Inl e)
    then show ?thesis
      using run start get by (auto simp: Reconcile_def go_try_bind client_call_def go_run split: if_splits)
  next
    case (Inr p)
    let ?u = "s\<lparr>st_world := w, st_trace := [GetPlan name], st_plan := p\<rparr>"
    have "(if plan_DeletionTimestamp p \<noteq> None then go_then (handleDeletion E) (go_ret 0) else reconcile_live E) ?u = (r, t)"
      using run start Reconcile_found [of E name s p w] get Inr by simp
    moreover have "patches_safe name ?u"
      using plan_identity_get [OF plan] get Inr by (simp add: patches_safe_def)
    ultimately have "patches_safe name t" using tripleD_state [OF inv] by (metis snd_conv)
    then show ?thesis by (simp add: patches_safe_def)
  qed
qed

section \<open>Example passes\<close>

text \<open>
  A plan under deletion that owns a node; a plan whose phases start at time 100, on a cluster
  whose clock stands at 0 and whose server refuses node patches.
\<close>

definition deleted_plan :: Plan where
  "deleted_plan = (example_plan ''p'' [''a''])\<lparr>plan_DeletionTimestamp := Some 1\<rparr>"

definition owned_node :: Node where
  "owned_node = adopt_change deleted_plan True (example_node ''a'')"

definition deletion_state :: "cluster st" where
  "deletion_state = start_state deleted_plan (empty_cluster\<lparr>cl_nodes := [owned_node], cl_plans := [deleted_plan]\<rparr>)"

definition later_plan :: Plan where
  "later_plan = (example_plan ''p'' [''a''])\<lparr>Spec := (example_spec [''a''])\<lparr>
     Cordon := Some \<lparr>cordon_Enabled = True, cordon_StartAt = Some 100\<rparr>,
     Drain := Some \<lparr>drain_Enabled = True, drain_StartAt = Some 100, drain_Options = None, TimeoutMinutes = None\<rparr>\<rparr>\<rparr>"

definition waiting_state :: "cluster st" where
  "waiting_state = start_state later_plan (empty_cluster\<lparr>cl_nodes := [example_node ''a''], cl_plans := [later_plan]\<rparr>)"

definition refusing_env :: "cluster env" where
  "refusing_env = memory_env\<lparr>k_clockNow := \<lambda>w. (0, w),
     k_patchNode := \<lambda>o1 m w. (Inl (ApiError (ReasonOther ''Conflict'')), w)\<rparr>"

lemma memory_laws:
  "range_laws memory_env" "plan_identity memory_env" "merge_patch_law memory_env"
  by (auto simp: range_laws_def plan_identity_def merge_patch_law_def memory_env_def found_def find_Some_iff
      split: option.splits)

lemma refusing_laws: "clock_before refusing_env 100" "spec_kept refusing_env"
  by (auto simp: clock_before_def spec_kept_def refusing_env_def memory_env_def)

section \<open>Properties\<close>

text \<open>
  C1. A pass of a plan writes only to its own nodes: whatever happens, at every exit, each
  node patch of the pass started from an object that carried no mark or this plan's mark, and
  changed nothing but the operator's annotations and label and the unschedulable flag.
\<close>

theorem Reconcile_safe:
  assumes range: "range_laws E" and plan: "plan_identity E"
    and start: "st_trace s = []" and run: "Reconcile E name s = (r, t)" and sent: "PatchNode o1 m \<in> set (st_trace t)"
  shows "(owner_of o1 = '''' \<or> owner_of o1 = name) \<and> footprint_ok o1 m"
proof -
  have "safe_call name (PatchNode o1 m)" using pass_is_safe [OF range plan start run] sent by blast
  then show ?thesis by (simp add: unclaimed_by_others_def)
qed

theorem Reconcile_safe_witness:
  "PatchNode (uncordon_change owned_node) (release_change (uncordon_change owned_node))
      \<in> set (st_trace (snd (Reconcile memory_env ''p'' deletion_state))) \<and>
   footprint_ok (uncordon_change owned_node) (release_change (uncordon_change owned_node))"
proof -
  have sent: "PatchNode (uncordon_change owned_node) (release_change (uncordon_change owned_node))
      \<in> set (st_trace (snd (Reconcile memory_env ''p'' deletion_state)))"
    by code_simp
  have "st_trace deletion_state = []" by (simp add: deletion_state_def start_state_def)
  from Reconcile_safe [OF memory_laws(1,2) this prod.collapse [symmetric] sent] sent show ?thesis by blast
qed

text \<open>
  C16. Before their start times, a plan's phases leave the cluster alone: with cordon and drain
  each switched off or scheduled for \<open>T\<close> or later, and every clock reading before \<open>T\<close>, a pass
  evicts and deletes no pod and makes no node unschedulable (nobody editing the plan meanwhile).
\<close>

theorem Reconcile_waits:
  assumes clock: "clock_before E T" and spec: "spec_kept E"
    and plan: "k_getPlan E name (st_world s) = (Inr p, w)" "waits T p"
    and start: "st_trace s = []" and run: "Reconcile E name s = (r, t)" and call: "c \<in> set (st_trace t)"
  shows "\<not> evicts c \<and> \<not> cordons c"
proof -
  let ?u = "s\<lparr>st_world := w, st_trace := [GetPlan name], st_plan := p\<rparr>"
  have "triple (quiet p) (go_then (handleDeletion E) (go_ret (0 :: duration))) (\<lambda>_. gentle_so_far) gentle_so_far"
    by (rule triple_weaken [OF triple_then [OF triple_gentle [OF handleDeletion_gentle] triple_ret]])
      (simp_all add: quiet_def gentle_so_far_def)
  then have inv: "triple (quiet p) (if b then go_then (handleDeletion E) (go_ret 0) else reconcile_live E)
      (\<lambda>_. gentle_so_far) gentle_so_far" for b
    by (intro triple_if reconcile_live_quiet [OF clock spec plan(2)])
  have "(if plan_DeletionTimestamp p \<noteq> None then go_then (handleDeletion E) (go_ret 0) else reconcile_live E) ?u = (r, t)"
    using run start Reconcile_found [OF plan(1)] by simp
  moreover have "quiet p ?u" by (simp add: quiet_def gentle_def)
  ultimately have "gentle_so_far t" using tripleD_state [OF inv] by (metis snd_conv)
  with call show ?thesis by (auto simp: gentle_so_far_def gentle_def)
qed

theorem Reconcile_waits_witness:
  "PatchNode (example_node ''a'') (adopt_change later_plan False (example_node ''a''))
      \<in> set (st_trace (snd (Reconcile refusing_env ''p'' waiting_state))) \<and>
   \<not> cordons (PatchNode (example_node ''a'') (adopt_change later_plan False (example_node ''a'')))"
proof -
  have sent: "PatchNode (example_node ''a'') (adopt_change later_plan False (example_node ''a''))
      \<in> set (st_trace (snd (Reconcile refusing_env ''p'' waiting_state)))"
    by code_simp
  have get: "k_getPlan refusing_env ''p'' (st_world waiting_state) = (Inr later_plan, st_world waiting_state)"
    by (simp add: refusing_env_def memory_env_def waiting_state_def start_state_def found_def later_plan_def example_plan_def)
  have due: "waits 100 later_plan"
    by (simp add: waits_def not_due_def later_plan_def cordonEnabled_def drainEnabled_def cordon_start_def drain_start_def)
  have "st_trace waiting_state = []" by (simp add: waiting_state_def start_state_def)
  from Reconcile_waits [OF refusing_laws get due this prod.collapse [symmetric] sent] sent show ?thesis by blast
qed

text \<open>
  C8. The finalizer goes last: if handling a deletion sends a patch of the plan at all, then
  the listing of the nodes had succeeded, no node listed with the plan's mark is still held
  with it, and the patch is the last call made.
\<close>

theorem finalizer_goes_last:
  assumes range: "range_laws E" and patch: "merge_patch_law E" and p: "plan_Name (st_plan s) \<noteq> ''''"
    and start: "st_trace s = []" and run: "handleDeletion E s = (r, t)" and sent: "PatchPlan o1 m \<in> set (st_trace t)"
  shows "last (st_trace t) = PatchPlan o1 m \<and> (\<exists>items w. k_listNodes E None (st_world s) = (Inr items, w) \<and>
    (\<forall>node \<in> set items. owner_of node = plan_Name (st_plan s) \<longrightarrow>
      (\<exists>n. st_heap t (node_Name node) = Some n \<and> owner_of n \<noteq> plan_Name (st_plan s))))"
proof -
  obtain c u where c: "CleanUp E s = (c, u)" by force
  have "trace_within (\<lambda>c. \<not> patches_plan c) s u" by (rule obeysD [OF CleanUp_keeps_plan c])
  then have "\<forall>c \<in> set (st_trace u). \<not> patches_plan c"
    using start by (auto simp: trace_within_def list_all_iff)
  then have none: "PatchPlan a b \<notin> set (st_trace u)" for a b by force
  have held: "k_ContainsFinalizer E (Finalizers (st_plan s)) NodeMaintenancePlanFinalizer"
    using run sent start by (auto simp: handleDeletion_def go_bind_def go_run split: if_splits)
  have ok: "c = Inr ()"
    using run sent none c held by (cases c) (auto simp: handleDeletion_def go_bind_def go_then_def go_run)
  have "st_heap t = st_heap u \<and> st_trace t = st_trace u @ [PatchPlan (st_plan u) (remove_finalizer E (st_plan u))]"
  proof -
    obtain a w where "k_patchPlan E (st_plan u) (remove_finalizer E (st_plan u)) (st_world u) = (a, w)" by force
    then show ?thesis
      using run c ok held
      by (cases a) (auto simp: handleDeletion_def record_metrics_def patch_plan_def go_try_bind go_then_def go_bind_def go_run
          client_call_def go_try_def split: if_splits)
  qed
  moreover from this have "PatchPlan o1 m = PatchPlan (st_plan u) (remove_finalizer E (st_plan u))"
    using sent none by auto
  ultimately show ?thesis using CleanUp_releases [OF range patch p] c ok by simp
qed

theorem finalizer_goes_last_witness:
  "last (st_trace (snd (handleDeletion memory_env deletion_state))) = PatchPlan deleted_plan (remove_finalizer memory_env deleted_plan) \<and>
   (\<exists>n. st_heap (snd (handleDeletion memory_env deletion_state)) ''a'' = Some n \<and> owner_of n \<noteq> ''p'')"
proof -
  have sent: "PatchPlan deleted_plan (remove_finalizer memory_env deleted_plan)
      \<in> set (st_trace (snd (handleDeletion memory_env deletion_state)))"
    by code_simp
  have start: "st_trace deletion_state = []" and p: "plan_Name (st_plan deletion_state) = ''p''"
    by (simp_all add: deletion_state_def start_state_def deleted_plan_def example_plan_def)
  have list: "k_listNodes memory_env None (st_world deletion_state) = (Inr [owned_node], st_world deletion_state)"
    by (simp add: memory_env_def deletion_state_def start_state_def)
  have node: "owner_of owned_node = ''p''" "node_Name owned_node = ''a''" by code_simp+
  show ?thesis
    using finalizer_goes_last [OF memory_laws(1,3) _ start prod.collapse [symmetric] sent] p list node by simp
qed

end
