(* ===== verification/Deletion.thy ===== *)
theory Deletion
  imports Reconciler
begin

text \<open>
  Deleting a plan comes to an end: on an API server that accepts the requests, one pass over a
  plan being deleted gives every node back and takes the finalizer off. The lemmas show that
  no branch of the clean-up fails on its own: every node object it dereferences is there.
\<close>

section \<open>Definitions\<close>

definition willing :: "'w env \<Rightarrow> bool" where
  "willing E \<longleftrightarrow> (\<forall>w. \<exists>items w'. k_listNodes E None w = (Inr items, w')) \<and>
     (\<forall>o1 m w. \<exists>n w'. k_patchNode E o1 m w = (Inr n, w')) \<and> (\<forall>o1 m w. \<exists>p w'. k_patchPlan E o1 m w = (Inr p, w'))"

definition held :: "string set \<Rightarrow> 'w st \<Rightarrow> bool" where
  "held B s \<longleftrightarrow> (\<forall>a\<in>B. st_heap s a \<noteq> None)"

section \<open>Lemmas\<close>

text \<open>\<open>fine B m\<close>: from a state that holds the objects of \<open>B\<close>, \<open>m\<close> returns no error and keeps them.\<close>

abbreviation (input) fine :: "string set \<Rightarrow> ('w, 'a) op \<Rightarrow> bool" where
  "fine B m \<equiv> triple (held B) m (\<lambda>_. held B) (\<lambda>_. False)"

lemma fine_load: "a \<in> B \<Longrightarrow> fine B (load_node a)"
  by (rule triple_load_node) (auto simp: held_def)

lemma fine_store: "fine B (store_node a n)"
  by (rule triple_store_node) (simp add: held_def)

lemma fine_event: "fine B (Eventf r ty re ac no ar)"
  by (rule triple_Eventf) (simp add: held_def)

lemma fine_patch:
  fixes E :: "'w env"
  assumes "willing E" "a \<in> B"
  shows "fine B (patch_node E a f)"
proof -
  have "fine B (client_call (PatchNode o1 m) (k_patchNode E o1 m))" for o1 m
  proof (rule triple_client_call)
    fix s :: "'w st" and e w assume "k_patchNode E o1 m (st_world s) = (Inl e, w)"
    moreover obtain n w' where "k_patchNode E o1 m (st_world s) = (Inr n, w')" using assms(1) unfolding willing_def by blast
    ultimately show False by simp
  qed (simp add: held_def)
  then show ?thesis
    unfolding patch_node_def
    by (rule triple_bind [OF fine_load [OF assms(2)] triple_then [OF fine_store triple_bind [OF _ fine_store]]])
qed

lemma fine_uncordon:
  assumes "willing E" "a \<in> B"
  shows "fine B (UncordonNode E a)"
  unfolding UncordonNode_def
  by (rule triple_bind [OF fine_load [OF assms(2)]], rule triple_if, rule triple_ret, assumption,
      rule triple_then [OF fine_patch [OF assms]], rule triple_ret, assumption)

lemma fine_release:
  assumes "willing E" "a \<in> B"
  shows "fine B (ReleaseNode E a)"
  unfolding ReleaseNode_def
  by (rule triple_bind [where R = "\<lambda>_. held B"], rule triple_get_plan, assumption,
      rule triple_bind [OF fine_load [OF assms(2)]], rule triple_if, rule triple_ret, assumption,
      rule triple_if, rule triple_ret, assumption, rule fine_patch [OF assms])

lemma fine_clean:
  assumes "willing E" "a \<in> B"
  shows "fine B (clean_one E a)"
  unfolding clean_one_def give_back_def
  by (rule triple_bind [OF fine_load [OF assms(2)]], rule triple_bind [OF fine_load [OF assms(2)]],
      rule triple_then [OF triple_map_err [OF fine_uncordon [OF assms]]],
      rule triple_then [OF triple_map_err [OF fine_release [OF assms]]],
      rule triple_bind [OF fine_load [OF assms(2)]], rule fine_event)

lemma CleanUp_returns:
  fixes E :: "'w env" and s :: "'w st"
  assumes ok: "willing E" and range: "range_laws E"
  shows "\<exists>t. CleanUp E s = (Inr (), t)"
proof -
  let ?p = "plan_Name (st_plan s)"
  obtain items w where list: "k_listNodes E None (st_world s) = (Inr items, w)" using ok unfolding willing_def by blast
  define owned where "owned = by_name (filter (\<lambda>node. mget (Annotations node) ManagedByAnnotation = ?p) items)"
  let ?xs = "k_range E ''owned'' (map fst owned)"
  define u where "u = s\<lparr>st_world := w, st_trace := st_trace s @ [ListNodes], st_heap := map_of owned\<rparr>"
  have run: "CleanUp E s = go_for ?xs (clean_one E) u"
    using list by (simp add: CleanUp_def ResolveOwnedNodes_def point_to_def get_plan_def go_bind_def go_then_def go_run
        client_call_def go_map_err_def owned_def u_def)
  have "held (set ?xs) u"
    using range_set [OF range, of "''owned''" "map fst owned"] by (auto simp: held_def u_def map_of_eq_None_iff)
  moreover have "triple (held (set ?xs)) (go_for ?xs (clean_one E)) (\<lambda>_. held (set ?xs)) (\<lambda>_. False)"
    by (rule triple_for) (rule fine_clean [OF ok])
  ultimately show ?thesis
    unfolding run by (cases "go_for ?xs (clean_one E) u"; cases "fst (go_for ?xs (clean_one E) u)") (fastforce simp: triple_def)+
qed

section \<open>Properties\<close>

text \<open>
  C9. Deletion completes: when the API server accepts the requests, a pass over a plan that
  still carries the finalizer returns without error, and its last request is the patch that
  takes the finalizer off, after every node listed with the plan's mark was given back.
\<close>

theorem deletion_completes:
  fixes E :: "'w env" and s :: "'w st"
  assumes ok: "willing E" and range: "range_laws E" and patch: "merge_patch_law E" and p: "plan_Name (st_plan s) \<noteq> ''''"
    and final: "k_ContainsFinalizer E (Finalizers (st_plan s)) NodeMaintenancePlanFinalizer"
  shows "\<exists>t o1. handleDeletion E s = (Inr (), t) \<and> last (st_trace t) = PatchPlan o1 (remove_finalizer E o1) \<and>
    (\<exists>items w. k_listNodes E None (st_world s) = (Inr items, w) \<and>
      (\<forall>node \<in> set items. owner_of node = plan_Name (st_plan s) \<longrightarrow>
        (\<exists>n. st_heap t (node_Name node) = Some n \<and> owner_of n \<noteq> plan_Name (st_plan s))))"
proof -
  obtain u where u: "CleanUp E s = (Inr (), u)" using CleanUp_returns [OF ok range] by blast
  obtain q w where q: "k_patchPlan E (st_plan u) (remove_finalizer E (st_plan u)) (st_world u) = (Inr q, w)"
    using ok unfolding willing_def by blast
  have "\<exists>t. handleDeletion E s = (Inr (), t) \<and> st_heap t = st_heap u \<and>
      st_trace t = st_trace u @ [PatchPlan (st_plan u) (remove_finalizer E (st_plan u))]"
    using final u q
    by (simp add: handleDeletion_def record_metrics_def patch_plan_def get_plan_def modify_plan_def go_bind_def go_then_def go_run
        client_call_def go_try_def)
  then obtain t where "handleDeletion E s = (Inr (), t)" "st_heap t = st_heap u"
    "st_trace t = st_trace u @ [PatchPlan (st_plan u) (remove_finalizer E (st_plan u))]" by blast
  then show ?thesis using CleanUp_releases [OF range patch p u] by auto
qed

definition willing_env :: "cluster env" where
  "willing_env = memory_env\<lparr>k_patchNode := (\<lambda>o1 m w. (Inr m, w\<lparr>cl_nodes := replace_node m (cl_nodes w)\<rparr>))\<rparr>"

lemma willing_laws: "willing willing_env" "range_laws willing_env" "merge_patch_law willing_env"
  by (auto simp: willing_def range_laws_def merge_patch_law_def willing_env_def memory_env_def)

theorem deletion_completes_witness:
  "\<exists>t o1. handleDeletion willing_env deletion_state = (Inr (), t) \<and> last (st_trace t) = PatchPlan o1 (remove_finalizer willing_env o1) \<and>
     (\<exists>n. st_heap t ''a'' = Some n \<and> owner_of n \<noteq> ''p'')"
proof -
  have name: "plan_Name (st_plan deletion_state) = ''p''"
    by (simp add: deletion_state_def start_state_def deleted_plan_def example_plan_def)
  have final: "k_ContainsFinalizer willing_env (Finalizers (st_plan deletion_state)) NodeMaintenancePlanFinalizer"
    by (simp add: willing_env_def memory_env_def deletion_state_def start_state_def deleted_plan_def example_plan_def)
  have list: "k_listNodes willing_env None (st_world deletion_state) = (Inr [owned_node], st_world deletion_state)"
    by (simp add: willing_env_def memory_env_def deletion_state_def start_state_def)
  have node: "owner_of owned_node = ''p''" "node_Name owned_node = ''a''" by code_simp+
  from deletion_completes [OF willing_laws _ final] name list node show ?thesis by fastforce
qed

end
