(* ===== verification/Validator.thy ===== *)
theory Validator
  imports Ownership
begin

text \<open>
  \<open>internal/webhook/validator.go\<close>: the admission webhook of plans. It reads the cluster and
  answers; decoding the request is \<open>json.Unmarshal\<close>, whose result is part of the request here.
\<close>

section \<open>Definitions\<close>

datatype response = Allowed string | Denied string | Errored nat go_error

record request =
  req_Operation :: string
  req_Object :: "go_error + Plan"

abbreviation "StatusBadRequest \<equiv> 400 :: nat"
abbreviation "StatusInternalServerError \<equiv> 500 :: nat"

definition quoted_owner :: "string \<Rightarrow> string \<Rightarrow> string" where
  "quoted_owner nodeName owner = ''node '' @ go_quote nodeName @ '' is already owned by plan '' @ go_quote owner"

definition respond :: "string list \<Rightarrow> response" where
  "respond denied = (if 0 < length denied then Denied (join ''; '' denied) else Allowed ''ok'')"

text \<open>The loop over \<open>spec.nodes\<close>, with the list of objections so far; an error ends it.\<close>

fun check_nodes :: "'w env \<Rightarrow> string \<Rightarrow> string list \<Rightarrow> string list \<Rightarrow> ('w, response) op" where
  "check_nodes E planName [] denied = go_ret (respond denied)"
| "check_nodes E planName (nodeName # rest) denied =
     go_bind (go_try (get_node E nodeName)) (\<lambda>r. case r of
       Inl err \<Rightarrow>
         if IsNotFound err then check_nodes E planName rest (denied @ [''node '' @ go_quote nodeName @ '' does not exist''])
         else go_ret (Errored StatusInternalServerError err)
     | Inr node \<Rightarrow>
         let owner = mget (Annotations node) ManagedByAnnotation in
         if owner \<noteq> '''' \<and> owner \<noteq> planName
         then check_nodes E planName rest (denied @ [quoted_owner nodeName owner])
         else check_nodes E planName rest denied)"

definition planOwnedNodes :: "Plan \<Rightarrow> string list" where
  "planOwnedNodes plan = (if 0 < length (spec_Nodes (Spec plan)) then spec_Nodes (Spec plan) else ResolvedNodes (Status plan))"

text \<open>The inner loop over one plan's nodes: the objections, or the response that ends it.\<close>

fun check_owned :: "'w env \<Rightarrow> (gomap \<Rightarrow> bool) \<Rightarrow> string \<Rightarrow> string list \<Rightarrow> string list \<Rightarrow> ('w, response + string list) op" where
  "check_owned E s owner [] denied = go_ret (Inr denied)"
| "check_owned E s owner (nodeName # rest) denied =
     go_bind (go_try (get_node E nodeName)) (\<lambda>r. case r of
       Inl err \<Rightarrow>
         if IsNotFound err then check_owned E s owner rest denied
         else go_ret (Inl (Errored StatusInternalServerError err))
     | Inr node \<Rightarrow>
         if s (Labels node) then check_owned E s owner rest (denied @ [quoted_owner nodeName owner])
         else check_owned E s owner rest denied)"

fun check_plans :: "'w env \<Rightarrow> (gomap \<Rightarrow> bool) \<Rightarrow> string \<Rightarrow> Plan list \<Rightarrow> string list \<Rightarrow> ('w, response) op" where
  "check_plans E s planName [] denied = go_ret (respond denied)"
| "check_plans E s planName (existing # rest) denied =
     (if plan_Name existing = planName then check_plans E s planName rest denied
      else go_bind (check_owned E s (plan_Name existing) (planOwnedNodes existing) denied) (\<lambda>r. case r of
        Inl resp \<Rightarrow> go_ret resp
      | Inr denied' \<Rightarrow> check_plans E s planName rest denied'))"

definition validateNodeSelector :: "'w env \<Rightarrow> string \<Rightarrow> LabelSelector \<Rightarrow> ('w, response) op" where
  "validateNodeSelector E planName selector = (case k_LabelSelectorAsSelector E selector of
     Inl err \<Rightarrow> go_ret (Errored StatusBadRequest (Wrapped ''invalid nodeSelector'' err))
   | Inr s \<Rightarrow>
       go_bind (go_try (client_call ListNodes (k_listNodes E (Some s)))) (\<lambda>r. case r of
         Inl err \<Rightarrow> go_ret (Errored StatusInternalServerError err)
       | Inr sample \<Rightarrow>
           if length sample = 0 then go_ret (Denied ''nodeSelector matches no existing nodes'')
           else go_bind (go_try (client_call ListPlans (k_listPlans E))) (\<lambda>r. case r of
             Inl err \<Rightarrow> go_ret (Errored StatusInternalServerError err)
           | Inr plans \<Rightarrow> check_plans E s planName plans [])))"

definition Handle :: "'w env \<Rightarrow> request \<Rightarrow> ('w, response) op" where
  "Handle E req =
     (if req_Operation req = ''DELETE'' then go_ret (Allowed ''ok'')
      else case req_Object req of
        Inl err \<Rightarrow> go_ret (Errored StatusBadRequest err)
      | Inr plan \<Rightarrow>
          if length (spec_Nodes (Spec plan)) = 0 then
            (case NodeSelector (Spec plan) of
               Some sel \<Rightarrow> if req_Operation req = ''CREATE'' then validateNodeSelector E (plan_Name plan) sel
                           else go_ret (Allowed ''ok'')
             | None \<Rightarrow> go_ret (Allowed ''ok''))
          else check_nodes E (plan_Name plan) (spec_Nodes (Spec plan)) [])"

text \<open>A read of the cluster.\<close>

fun read_call :: "call \<Rightarrow> bool" where
  "read_call (GetNode _) = True" | "read_call ListNodes = True" | "read_call ListPlans = True" | "read_call _ = False"

text \<open>The cluster as a snapshot: a get answers from \<open>store\<close>, whatever happened before.\<close>

definition snapshot :: "'w env \<Rightarrow> (string \<Rightarrow> Node option) \<Rightarrow> bool" where
  "snapshot E store \<longleftrightarrow> (\<forall>nm w. fst (k_getNode E nm w) = (case store nm of
     None \<Rightarrow> Inl (ApiError ReasonNotFound) | Some n \<Rightarrow> Inr n))"

definition admissible_node :: "(string \<Rightarrow> Node option) \<Rightarrow> string \<Rightarrow> string \<Rightarrow> bool" where
  "admissible_node store planName nm \<longleftrightarrow> (\<exists>n. store nm = Some n \<and> unclaimed_by_others planName n)"

section \<open>Lemmas\<close>

lemma check_nodes_tr: "obeys (trace_within read_call) (check_nodes E p nms denied)"
  by (induction nms arbitrary: denied) (auto simp: get_node_def Let_def intro!: tr.obeys_intros tr_client_call)

lemma check_owned_tr: "obeys (trace_within read_call) (check_owned E s ow nms denied)"
  by (induction nms arbitrary: denied) (auto simp: get_node_def intro!: tr.obeys_intros tr_client_call)

lemma check_plans_tr: "obeys (trace_within read_call) (check_plans E s p plans denied)"
  by (induction plans arbitrary: denied) (auto intro!: tr.obeys_intros check_owned_tr)

lemma Handle_tr: "obeys (trace_within read_call) (Handle E req)"
  unfolding Handle_def validateNodeSelector_def
  by (intro tr.obeys_intros tr_client_call check_nodes_tr check_plans_tr) simp_all

lemma get_node_snapshot:
  "snapshot E store \<Longrightarrow> fst (get_node E nm s) = (case store nm of None \<Rightarrow> Inl (ApiError ReasonNotFound) | Some n \<Rightarrow> Inr n)"
  by (simp add: get_node_def client_call_def snapshot_def split: prod.split) (metis fst_conv)

lemma check_nodes_snapshot:
  assumes "snapshot E store"
  shows "\<exists>denied' t. check_nodes E p nms denied s = (Inr (respond denied'), t) \<and>
    (denied' = [] \<longleftrightarrow> denied = [] \<and> (\<forall>nm \<in> set nms. admissible_node store p nm))"
proof (induction nms arbitrary: denied s)
  case Nil
  show ?case by (auto simp: go_ret_def)
next
  case (Cons nm nms)
  let ?s = "snd (get_node E nm s)"
  have g: "fst (get_node E nm s) = (case store nm of None \<Rightarrow> Inl (ApiError ReasonNotFound) | Some n \<Rightarrow> Inr n)"
    by (rule get_node_snapshot [OF assms])
  show ?case
  proof (cases "admissible_node store p nm")
    case True
    then have "check_nodes E p (nm # nms) denied s = check_nodes E p nms denied ?s"
      by (auto simp: go_try_bind g admissible_node_def unclaimed_by_others_def owner_of_def Let_def)
    then show ?thesis using True Cons.IH [of denied ?s] by auto
  next
    case False
    then obtain d where "check_nodes E p (nm # nms) denied s = check_nodes E p nms (denied @ [d]) ?s"
      by (cases "store nm") (auto simp: go_try_bind g admissible_node_def unclaimed_by_others_def owner_of_def Let_def)
    then show ?thesis using False Cons.IH [of "denied @ [d]" ?s] by auto
  qed
qed

lemma respond_allowed: "respond denied = Allowed ''ok'' \<longleftrightarrow> denied = []"
  by (simp add: respond_def)

section \<open>Properties\<close>

text \<open>
  C37. A plan with an explicit node list is admitted exactly when every node it lists exists and
  is unmarked or marked with this plan's name; otherwise it is denied, never an error, as long
  as the cluster answers.
\<close>

theorem Handle_explicit_nodes:
  assumes snap: "snapshot E store" and op: "req_Operation req \<noteq> ''DELETE''" and obj: "req_Object req = Inr plan"
    and nodes: "spec_Nodes (Spec plan) \<noteq> []"
  shows "\<exists>denied t. Handle E req s = (Inr (respond denied), t) \<and>
    (respond denied = Allowed ''ok'' \<longleftrightarrow> (\<forall>nm \<in> set (spec_Nodes (Spec plan)). admissible_node store (plan_Name plan) nm))"
  using check_nodes_snapshot [OF snap, of "plan_Name plan" "spec_Nodes (Spec plan)" "[]" s] op obj nodes
  by (auto simp: Handle_def respond_allowed)

theorem Handle_explicit_nodes_witness:
  "\<exists>denied t. Handle memory_env \<lparr>req_Operation = ''CREATE'', req_Object = Inr (example_plan ''p'' [''a''])\<rparr>
     (start_state (example_plan ''p'' [''a'']) empty_cluster) = (Inr (Denied denied), t)"
proof -
  let ?E = "memory_env\<lparr>k_getNode := (\<lambda>nm w. (Inl (ApiError ReasonNotFound), w))\<rparr>"
  let ?req = "\<lparr>req_Operation = ''CREATE'', req_Object = Inr (example_plan ''p'' [''a''])\<rparr>"
  let ?s = "start_state (example_plan ''p'' [''a'']) empty_cluster"
  have "snapshot ?E (\<lambda>_. None)" by (simp add: snapshot_def)
  from Handle_explicit_nodes [OF this, of ?req "example_plan ''p'' [''a'']" ?s] obtain denied t
    where "Handle ?E ?req ?s = (Inr (respond denied), t)" "respond denied \<noteq> Allowed ''ok''"
    by (auto simp: example_plan_def example_spec_def admissible_node_def)
  moreover have "Handle ?E ?req ?s = Handle memory_env ?req ?s"
    by (simp add: Handle_def example_plan_def example_spec_def start_state_def empty_cluster_def
        go_try_bind get_node_def client_call_def found_def)
  ultimately show ?thesis by (auto simp: respond_def split: if_splits)
qed

text \<open>The webhook only reads, and a deletion is always admitted without a look.\<close>

theorem Handle_reads_only:
  "obeys (trace_within read_call) (Handle E req) \<and>
   Handle E (req\<lparr>req_Operation := ''DELETE''\<rparr>) s = (Inr (Allowed ''ok''), s)"
  by (intro conjI Handle_tr) (simp add: Handle_def go_run)

end
