(* ===== verification/Drain_Ready.thy ===== *)
theory Drain_Ready
  imports Drain_Reconcile
begin

text \<open>
  The other half of readiness. \<open>Drain_Reconcile\<close> shows that an entry is not reported ready
  without its node being drained; here, that draining is enough: the entry of a cordoned node
  whose result is drained leaves the pass ready, whatever the other results are, and a drain
  pass over nodes with nothing left to move makes the plan ready.
\<close>

section \<open>Definitions\<close>

definition named :: "(NodeStatus \<Rightarrow> bool) \<Rightarrow> string \<Rightarrow> Plan \<Rightarrow> bool" where
  "named P nm plan \<longleftrightarrow> (\<exists>ns. find_status plan nm = Some ns \<and> P ns)"

text \<open>What the steps of the loop keep: the trace, and the two marks of every entry.\<close>

definition keeps_marks :: "'w st \<Rightarrow> 'w st \<Rightarrow> bool" where
  "keeps_marks s t \<longleftrightarrow> st_trace t = st_trace s \<and>
     (\<forall>nm. (named Cordoned nm (st_plan s) \<longrightarrow> named Cordoned nm (st_plan t)) \<and>
           (named ReadyForMaintenance nm (st_plan s) \<longrightarrow> named ReadyForMaintenance nm (st_plan t)))"

text \<open>Nothing that a drain with this configuration would wait for or act on.\<close>

definition emptied :: "'w env \<Rightarrow> drainConfig \<Rightarrow> string \<Rightarrow> bool" where
  "emptied E cfg nm \<longleftrightarrow> (\<forall>w. \<exists>items w'. k_listPods E nm w = (Inr items, w') \<and>
     (\<forall>pod \<in> set items. \<forall>now. pod_class cfg now pod = BSkipped))"

fun lists_pods :: "call \<Rightarrow> bool" where
  "lists_pods (ListPods _) = True"
| "lists_pods _ = False"

fun thread_idle :: "drainConfig \<Rightarrow> drain_thread \<Rightarrow> bool" where
  "thread_idle cfg (Evicting c result pods out pdb) = (pods = [] \<and> pdb = [] \<and> fr_Blocked result = [] \<and> out = zero_outcome)"
| "thread_idle cfg (Deleting c result pod pods out pdb) = False"
| "thread_idle cfg (Returned out err) = (out = zero_outcome \<and> err = None)"
| "thread_idle cfg (Exited r) = (Outcome r = zero_outcome \<and> Err r = None)"
| "thread_idle cfg _ = True"

section \<open>The loop keeps marks and sets them\<close>

interpretation marks: effect keeps_marks
  by unfold_locales (auto simp: keeps_marks_def)

context entry_write
begin

lemma named_update:
  "named Cordoned nm plan \<Longrightarrow> named Cordoned nm (update_entry nm' upd plan)"
  "named ReadyForMaintenance nm plan \<Longrightarrow> named ReadyForMaintenance nm (update_entry nm' upd plan)"
  using upd_frame by (auto simp: named_def find_after entry_frame_def)

lemma marks_update: "obeys keeps_marks (modify_plan (update_entry nm upd))"
  by (simp add: obeys_def go_run keeps_marks_def named_update)

end

lemma marks_Eventf: "obeys keeps_marks (Eventf r ty re ac no ar)"
  by (simp add: obeys_def Eventf_def go_bind_def go_run keeps_marks_def)

lemma marks_read_clock: "obeys keeps_marks (read_clock f)"
  by (simp add: obeys_def read_clock_def keeps_marks_def split: prod.split)

lemma marks_get_plan: "obeys keeps_marks get_plan"
  by (simp add: obeys_def go_run marks.R_refl)

lemma marks_drain: "obeys keeps_marks (modify_plan (updateNodeDrainStatus nm out iss))"
  unfolding updateNodeDrainStatus_def by (rule drain_write.marks_update)

lemma marks_issues: "obeys keeps_marks (modify_plan (setNodeIssues nm iss))"
  unfolding setNodeIssues_def by (rule issues_write.marks_update)

lemmas marks_prims = marks_Eventf marks_read_clock marks_get_plan marks_drain marks_issues

lemma mark_keeps:
  "named Cordoned nm plan \<Longrightarrow> named Cordoned nm (fst (markNodeReadyForMaintenance nm' plan))"
  "named ReadyForMaintenance nm plan \<Longrightarrow> named ReadyForMaintenance nm (fst (markNodeReadyForMaintenance nm' plan))"
  "named Cordoned nm plan \<Longrightarrow> named ReadyForMaintenance nm (fst (markNodeReadyForMaintenance nm plan))"
  using ready_write.named_update [of nm plan nm']
  by (auto simp: markNodeReadyForMaintenance_def named_def ready_write.find_after ready_entry_def split: option.split)

text \<open>A drained result: its counters are written, then its entry is marked.\<close>

lemma result_drained_run:
  "\<exists>t. result_drained nm out original fl s = (Inr fl, t) \<and> st_trace t = st_trace s \<and>
     st_plan t = fst (markNodeReadyForMaintenance nm (updateNodeDrainStatus nm out [] (st_plan s)))"
  by (cases "markNodeReadyForMaintenance nm (updateNodeDrainStatus nm out [] (st_plan s))")
    (simp add: result_drained_def Let_def go_then_def go_bind_def go_when_def Eventf_def go_run go_ret_def)

lemma result_drained_marks: "obeys keeps_marks (result_drained nm out original fl)"
  unfolding obeys_def
proof
  fix s :: "'w st"
  obtain t where "result_drained nm out original fl s = (Inr fl, t)" "st_trace t = st_trace s"
    "st_plan t = fst (markNodeReadyForMaintenance nm (updateNodeDrainStatus nm out [] (st_plan s)))"
    using result_drained_run by blast
  then show "keeps_marks s (snd (result_drained nm out original fl s))"
    by (simp add: keeps_marks_def mark_keeps updateNodeDrainStatus_def drain_write.named_update)
qed

lemma result_drained_ready:
  assumes "named Cordoned nm (st_plan s)"
  shows "named ReadyForMaintenance nm (st_plan (snd (result_drained nm out original fl s)))"
proof -
  have "named Cordoned nm (updateNodeDrainStatus nm out [] (st_plan s))"
    unfolding updateNodeDrainStatus_def by (rule drain_write.named_update(1) [OF assms])
  then show ?thesis using result_drained_run [of nm out original fl s] mark_keeps(3) by auto
qed

lemma apply_result_returns: "\<exists>fl' t. apply_result E original r fl s = (Inr fl', t)"
proof -
  have T: "triple (in_loop (st_plan s) False UNIV (st_heap s) (st_trace s)) (apply_result E original r fl)
      (\<lambda>_ _. True) (\<lambda>_. False)"
    by (rule triple_weaken [OF apply_result_loop]) auto
  have "in_loop (st_plan s) False UNIV (st_heap s) (st_trace s) s"
    by (auto simp: in_loop_def list_all2_refl entry_step_refl intro!: exI [of _ "status_Nodes (Status (st_plan s))"])
  with T show ?thesis
    by (cases "apply_result E original r fl s"; cases "fst (apply_result E original r fl s)") (auto simp: triple_def)
qed

lemma apply_result_marks: "obeys keeps_marks (apply_result E original r fl)"
  unfolding apply_result_def Let_def result_evicting_def result_stuck_def result_not_ready_def result_blocked_def result_error_def
  by (auto intro!: marks.obeys_intros marks_prims result_drained_marks split: option.split prod.split)

lemma apply_drained:
  assumes "drained r" "named Cordoned (NodeName r) (st_plan s)"
  shows "named ReadyForMaintenance (NodeName r) (st_plan (snd (apply_result E original r fl s)))"
  using assms result_drained_ready by (simp add: apply_result_def drained_def Let_def)

text \<open>After the loop, every cordoned node with a drained result is marked ready.\<close>

lemma loop_marks:
  "triple (\<lambda>s. s = s0) (go_fold results fl (apply_result E original))
    (\<lambda>_ s. st_trace s = st_trace s0 \<and> (\<forall>r \<in> set results. drained r \<longrightarrow> named Cordoned (NodeName r) (st_plan s0) \<longrightarrow>
       named ReadyForMaintenance (NodeName r) (st_plan s))) X"
proof -
  define I where "I = (\<lambda>rest (fl :: drain_flags) s. keeps_marks s0 s \<and> (\<forall>r \<in> set results. r \<in> set rest \<or>
    (drained r \<longrightarrow> named Cordoned (NodeName r) (st_plan s0) \<longrightarrow> named ReadyForMaintenance (NodeName r) (st_plan s))))"
  have "triple (I results fl) (go_fold results fl (apply_result E original)) (I []) X"
  proof (rule triple_fold_rest)
    fix r rest and acc :: drain_flags
    assume "r \<in> set results"
    show "triple (I (r # rest) acc) (apply_result E original r acc) (\<lambda>acc'. I rest acc') X"
      unfolding triple_def
    proof (intro allI impI)
      fix s assume s: "I (r # rest) acc s"
      obtain acc' t where run: "apply_result E original r acc s = (Inr acc', t)" using apply_result_returns by blast
      have t: "keeps_marks s t" using obeysD [OF apply_result_marks run] .
      have start: "keeps_marks s0 s" using s by (simp add: I_def)
      have "named ReadyForMaintenance (NodeName x) (st_plan t)"
        if x: "x \<in> set results" "x \<notin> set rest" "drained x" "named Cordoned (NodeName x) (st_plan s0)" for x
      proof (cases "x = r")
        case True
        have "named Cordoned (NodeName r) (st_plan s)" using start x(4) True by (simp add: keeps_marks_def)
        from apply_drained [OF _ this, of E original acc] x(3) run True show ?thesis by simp
      next
        case False
        then have "named ReadyForMaintenance (NodeName x) (st_plan s)" using s x by (auto simp: I_def)
        then show ?thesis using t by (simp add: keeps_marks_def)
      qed
      then have "I rest acc' t" using marks.R_trans [OF start t] by (auto simp: I_def)
      then show "case apply_result E original r acc s of (Inl e, t) \<Rightarrow> X t | (Inr x, t) \<Rightarrow> I rest x t" by (simp add: run)
    qed
  qed
  then show ?thesis
    by (rule triple_weaken) (auto simp: I_def marks.R_refl, simp add: keeps_marks_def)
qed

section \<open>What is sent\<close>

text \<open>The server accepts what it is sent, as it is sent.\<close>

definition accepts_status :: "'w env \<Rightarrow> bool" where
  "accepts_status E \<longleftrightarrow> (\<forall>o1 m w. \<exists>w'. k_patchPlanStatus E o1 m w = (Inr m, w'))"

text \<open>
  After the loop nothing touches the entries: the patch carries them as the loop left them,
  and it is the plan the pass goes on with when the server accepts it.
\<close>

definition sends_entries :: "'w env \<Rightarrow> Plan \<Rightarrow> call list \<Rightarrow> (NodeStatus list \<Rightarrow> bool) \<Rightarrow> 'w st \<Rightarrow> bool" where
  "sends_entries E original tr J s \<longleftrightarrow> (\<exists>p. st_trace s = tr @ [PatchPlanStatus original p] \<and> J (status_Nodes (Status p)) \<and>
     (accepts_status E \<longrightarrow> st_plan s = p))"

definition refuses_entries :: "'w env \<Rightarrow> Plan \<Rightarrow> call list \<Rightarrow> (NodeStatus list \<Rightarrow> bool) \<Rightarrow> 'w st \<Rightarrow> bool" where
  "refuses_entries E original tr J s \<longleftrightarrow> \<not> accepts_status E \<and> sends_entries E original tr J s"

definition entries_at :: "call list \<Rightarrow> (NodeStatus list \<Rightarrow> bool) \<Rightarrow> 'w st \<Rightarrow> bool" where
  "entries_at tr J s \<longleftrightarrow> st_trace s = tr \<and> J (status_Nodes (Status (st_plan s)))"

lemma entries_modify:
  "(\<And>p. status_Nodes (Status (f p)) = status_Nodes (Status p)) \<Longrightarrow> triple (entries_at tr J) (modify_plan f) (\<lambda>_. entries_at tr J) X"
  by (rule triple_modify_plan) (simp add: entries_at_def)

lemma entries_Eventf: "triple (entries_at tr J) (Eventf r ty re ac no ar) (\<lambda>_. entries_at tr J) X"
  by (rule triple_Eventf) (simp add: entries_at_def)

lemma entries_read_clock: "triple (entries_at tr J) (read_clock f) (\<lambda>_. entries_at tr J) X"
  by (rule triple_read_clock) (simp add: entries_at_def)

lemma entries_get_plan: "triple (entries_at tr J) get_plan (\<lambda>_. entries_at tr J) X"
  by (rule triple_get_plan)

lemma entries_patch:
  "triple (entries_at tr J) (go_then (go_map_err f (patch_plan_status E original)) (go_ret d))
     (\<lambda>_. sends_entries E original tr J) (refuses_entries E original tr J)"
  by (intro triple_then [where R = "sends_entries E original tr J"] triple_map_err triple_patch_plan_status triple_ret)
    (auto simp: refuses_entries_def sends_entries_def entries_at_def accepts_status_def, (metis Inl_Inr_False prod.inject Inr_inject)+)

lemma entries_abort:
  "triple (entries_at tr J) (abort_drain E original minutes) (\<lambda>_. sends_entries E original tr J) (refuses_entries E original tr J)"
  unfolding abort_drain_def
  by (rule triple_then [OF entries_modify triple_then [OF entries_Eventf entries_patch]]) simp

lemma entries_conclude:
  "triple (entries_at tr J) (conclude_drain E original fl) (\<lambda>_. sends_entries E original tr J) (refuses_entries E original tr J)"
  unfolding conclude_drain_def
  by (rule triple_then [OF entries_modify triple_bind [OF entries_get_plan triple_then [OF triple_when [OF entries_Eventf]
        triple_then [OF entries_modify entries_patch]]]]) simp_all

lemma applyDrainResults_entries:
  assumes loop: "triple (\<lambda>s. s = s0) (go_fold results start_flags (apply_result E (st_plan s0)))
      (\<lambda>_. entries_at tr J) (refuses_entries E (st_plan s0) tr J)"
    and run: "applyDrainResults E results s0 = (r, t)"
  shows "sends_entries E (st_plan s0) tr J t \<and> (accepts_status E \<longrightarrow> (\<exists>d. r = Inr d))"
proof -
  have finish: "triple (entries_at tr J) (case (if allDone fl then None else overdue plan now) of
      Some minutes \<Rightarrow> abort_drain E (st_plan s0) minutes | None \<Rightarrow> conclude_drain E (st_plan s0) fl)
    (\<lambda>_. sends_entries E (st_plan s0) tr J) (refuses_entries E (st_plan s0) tr J)" for fl plan now
    by (cases "if allDone fl then None else overdue plan now") (simp_all add: entries_abort entries_conclude)
  have start: "triple (entries_at tr J) (go_when b (modify_plan (record_start now))) (\<lambda>_. entries_at tr J)
      (refuses_entries E (st_plan s0) tr J)" for b now
    by (rule triple_when [OF entries_modify]) simp_all
  have get: "triple (\<lambda>s. s = s0) get_plan (\<lambda>original s. s = s0 \<and> original = st_plan s0) (refuses_entries E (st_plan s0) tr J)"
    by (rule triple_get_plan) simp
  have "triple (\<lambda>s. s = s0) (applyDrainResults E results) (\<lambda>_. sends_entries E (st_plan s0) tr J) (refuses_entries E (st_plan s0) tr J)"
    unfolding applyDrainResults_def
    by (rule triple_bind [OF get], rule triple_fact, hypsubst, rule triple_bind [OF loop], rule triple_bind [OF entries_read_clock],
        rule triple_then [OF start], rule triple_bind [OF entries_get_plan], rule finish)
  with run show ?thesis by (cases r) (force simp: triple_def refuses_entries_def)+
qed

lemma drained_marks_sent:
  assumes run: "applyDrainResults E results s = (r, t)"
  shows "\<exists>p. st_trace t = st_trace s @ [PatchPlanStatus (st_plan s) p] \<and>
    (accepts_status E \<longrightarrow> st_plan t = p \<and> (\<exists>d. r = Inr d)) \<and>
    (\<forall>x \<in> set results. drained x \<longrightarrow> named Cordoned (NodeName x) (st_plan s) \<longrightarrow> named ReadyForMaintenance (NodeName x) p)"
proof -
  define J where "J = (\<lambda>nss :: NodeStatus list. \<forall>x \<in> set results. drained x \<longrightarrow> named Cordoned (NodeName x) (st_plan s) \<longrightarrow>
    (\<exists>ns. find (\<lambda>ns. ns_Name ns = NodeName x) nss = Some ns \<and> ReadyForMaintenance ns))"
  have "triple (\<lambda>u. u = s) (go_fold results start_flags (apply_result E (st_plan s)))
      (\<lambda>_. entries_at (st_trace s) J) (refuses_entries E (st_plan s) (st_trace s) J)"
    by (rule triple_weaken [OF loop_marks]) (auto simp: J_def named_def find_status_def entries_at_def)
  from applyDrainResults_entries [OF this run] show ?thesis
    by (auto simp: sends_entries_def J_def named_def find_status_def)
qed

section \<open>A pool over emptied nodes\<close>

lemma emptied_filter:
  assumes "emptied E cfg (node_Name node)" "filterPodsForDrain E node cfg s = (r, t)"
  shows "\<exists>result. r = Inr result \<and> fr_Evictable result = [] \<and> fr_Blocked result = [] \<and> initial_outcome result = zero_outcome"
proof -
  obtain items w' where list: "k_listPods E (node_Name node) (st_world s) = (Inr items, w')"
    and skip: "\<And>now. \<forall>pod \<in> set items. pod_class cfg now pod = BSkipped"
    using assms(1) unfolding emptied_def by blast
  have "fr_Evictable (classifyPods items cfg now) = []" "fr_Blocked (classifyPods items cfg now) = []"
    "initial_outcome (classifyPods items cfg now) = zero_outcome" for now
    using skip [of now] by (auto simp: classifyPods_filters filter_empty_conv initial_outcome_def zero_outcome_def len32_def filter_False)
  then show ?thesis using assms(2) list
    by (auto simp: filterPodsForDrain_def go_bind_def go_map_err_def client_call_def read_clock_def go_ret_def split: prod.splits)
qed

lemma drain_turn_idle:
  assumes cfg: "getDrainConfig plan = Some cfg" and empty: "emptied E cfg (node_Name node)" and th: "thread_idle cfg th"
    and turn: "drain_turn E plan node th s = (Inr th', t)"
  shows "thread_idle cfg th' \<and> trace_within lists_pods s t"
proof (cases th)
  case Started
  obtain r u where f: "filterPodsForDrain E node cfg s = (r, u)" by force
  have "trace_within lists_pods s u" by (rule obeysD [OF filterPods_tr f]) simp
  with emptied_filter [OF empty f] show ?thesis
    using turn cfg f Started by (auto simp: go_try_bind go_ret_def)
next
  case (Evicting c result pods out pdb)
  with th turn show ?thesis by (auto simp: go_ret_def final_error_def tr.R_refl)
qed (use th turn in \<open>auto simp: go_ret_def tr.R_refl\<close>)

lemma pool_idle:
  assumes run: "(pool_step E plan nodes k)\<^sup>*\<^sup>* x y" and cfg: "getDrainConfig plan = Some cfg"
    and empty: "\<forall>node \<in> set nodes. emptied E cfg (node_Name node)"
    and start: "length (threads (fst x)) = length nodes" "list_all (thread_idle cfg) (threads (fst x))"
  shows "length (threads (fst y)) = length nodes \<and> list_all (thread_idle cfg) (threads (fst y)) \<and>
    trace_within lists_pods (snd x) (snd y)"
  using run
proof (induction rule: rtranclp_induct)
  case base
  show ?case using start by (simp add: tr.R_refl)
next
  case (step y z)
  obtain P s P' t where yz: "y = (P, s)" "z = (P', t)" by (cases y; cases z)
  from step(2) obtain i where i: "i \<in> set (enabled k P)" "pool_turn E plan nodes i P s = (Inr P', t)"
    unfolding yz by (rule pool_stepE)
  have len: "length (threads P) = length nodes" and idle: "list_all (thread_idle cfg) (threads P)"
    using step.IH yz by simp_all
  have bound: "i < length nodes" using i(1) len by (simp add: enabled_iff)
  have th: "thread_idle cfg (threads P ! i)" using idle bound len by (simp add: list_all_length)
  have upd: "list_all (thread_idle cfg) ((threads P)[i := th'])" if "thread_idle cfg th'" for th'
    using idle that by (auto simp: list_all_iff dest: set_update_subset_insert [THEN subsetD])
  from i(2,1) show ?case
  proof (cases rule: pool_turn_cases)
    case enter
    then show ?thesis using len upd yz step.IH by simp
  next
    case (leave out err)
    then show ?thesis using len th upd yz step.IH by simp
  next
    case (work th')
    have "emptied E cfg (node_Name (nodes ! i))" using empty bound by simp
    from drain_turn_idle [OF cfg this th work(1)] show ?thesis
      using len upd yz work(2) step.IH by (auto intro: tr.R_trans)
  qed
qed

lemma drainNodes_idle:
  assumes k: "0 < k" and cfg: "getDrainConfig plan = Some cfg"
    and empty: "\<forall>node \<in> set nodes. emptied E cfg (node_Name node)" and run: "drainNodes E plan nodes k s = (Inr results, t)"
  shows "(\<forall>x \<in> set results. drained x) \<and> trace_within lists_pods s t"
proof -
  obtain P u where loop: "pool_loop E plan nodes k 0 (start_pool (length nodes)) s = (Inr P, u)"
      "(pool_step E plan nodes k)\<^sup>*\<^sup>* (start_pool (length nodes), s) (P, u)" "enabled k P = []"
    using pool_loop_run by blast
  have results: "results = map result_of (threads P)" and t: "t = u"
    using run by (simp_all add: drainNodes_def go_bind_def loop(1) go_ret_def)
  have inv: "pool_inv nodes k P" using pool_inv_reachable [OF loop(2)] pool_inv_start by simp
  have idle: "length (threads P) = length nodes" "list_all (thread_idle cfg) (threads P)" "trace_within lists_pods s t"
    unfolding t using pool_idle [OF loop(2) cfg empty] by (simp_all add: start_pool_def list_all_length)
  have "drained x" if "x \<in> set results" for x
  proof -
    from that obtain i where i: "i < length nodes" "x = result_of (threads P ! i)" using results idle(1) by (auto simp: in_set_conv_nth)
    moreover obtain r where "threads P ! i = Exited r" using pool_finished [OF inv k loop(3) i(1)] by blast
    moreover have "thread_idle cfg (threads P ! i)" using idle i(1) by (simp add: list_all_length)
    ultimately show ?thesis by (simp add: result_of_def drained_def zero_outcome_def)
  qed
  then show ?thesis using idle(3) by blast
qed

section \<open>All drained\<close>

lemma find_distinct:
  "distinct (map ns_Name nss) \<Longrightarrow> e \<in> set nss \<Longrightarrow> find (\<lambda>ns. ns_Name ns = ns_Name e) nss = Some e"
  by (induction nss) auto

lemma all_ready_sent:
  assumes L: "condition_laws E" and run: "applyDrainResults E results s = (r, t)"
    and fin: "\<forall>x \<in> set results. drained x" and some: "status_Nodes (Status (st_plan s)) \<noteq> []"
    and names: "distinct (map ns_Name (status_Nodes (Status (st_plan s))))"
    and entries: "\<forall>e \<in> set (status_Nodes (Status (st_plan s))). Cordoned e \<and> ns_Name e \<in> NodeName ` set results"
  shows "\<exists>p. st_trace t = st_trace s @ [PatchPlanStatus (st_plan s) p] \<and>
    map ns_Name (status_Nodes (Status p)) = map ns_Name (status_Nodes (Status (st_plan s))) \<and>
    list_all ReadyForMaintenance (status_Nodes (Status p)) \<and>
    AllNodesReadyForMaintenance (Status p) \<and> drain_concluded E (st_plan s) results p noRequeue \<and>
    (accepts_status E \<longrightarrow> st_plan t = p \<and> r = Inr noRequeue)"
proof -
  let ?old = "status_Nodes (Status (st_plan s))"
  obtain p d where p: "st_trace t = st_trace s @ [PatchPlanStatus (st_plan s) p]"
      "drain_report E False (st_plan s) results p d" "\<forall>x. r = Inr x \<longrightarrow> x = d"
    using applyDrainResults_sends [OF run, of False] by blast
  obtain q where q: "st_trace t = st_trace s @ [PatchPlanStatus (st_plan s) q]"
      "\<forall>x \<in> set results. drained x \<longrightarrow> named Cordoned (NodeName x) (st_plan s) \<longrightarrow> named ReadyForMaintenance (NodeName x) q"
      "accepts_status E \<longrightarrow> st_plan t = q \<and> (\<exists>d. r = Inr d)"
    using drained_marks_sent [OF run] by blast
  have same: "q = p" using p(1) q(1) by simp
  from drain_report_conditions [OF L p(2)] fin
  have step: "list_all2 (entry_step False (NodeName ` {r \<in> set results. drained r})) ?old (status_Nodes (Status p))"
    and concluded: "drain_concluded E (st_plan s) results p d" by auto
  have d: "d = noRequeue" using concluded fin by (simp add: drain_concluded_def noRequeue_def)
  have new_names: "map ns_Name (status_Nodes (Status p)) = map ns_Name ?old"
    using step by (induction rule: list_all2_induct) (auto simp: entry_step_def entry_frame_def)
  have marked: "named ReadyForMaintenance (ns_Name e) p" if "e \<in> set ?old" for e
  proof -
    have "ns_Name e \<in> NodeName ` set results" using entries that by blast
    then obtain x where "x \<in> set results" "NodeName x = ns_Name e" by auto
    moreover have "named Cordoned (ns_Name e) (st_plan s)"
      using find_distinct [OF names that] entries that by (simp add: named_def find_status_def)
    ultimately show ?thesis using q(2) fin same by metis
  qed
  have "ReadyForMaintenance e" if e: "e \<in> set (status_Nodes (Status p))" for e
  proof -
    have "ns_Name e \<in> set (map ns_Name ?old)" using e new_names [symmetric] by simp
    then obtain e' where "e' \<in> set ?old" "ns_Name e' = ns_Name e" by auto
    with marked [of e'] have "named ReadyForMaintenance (ns_Name e) p" by simp
    then show ?thesis using find_distinct [of _ e] e names new_names by (simp add: named_def find_status_def)
  qed
  then have all: "list_all ReadyForMaintenance (status_Nodes (Status p))" by (simp add: list_all_iff)
  moreover have "status_Nodes (Status p) \<noteq> []" using some new_names by auto
  ultimately have "AllNodesReadyForMaintenance (Status p)" using concluded by (simp add: drain_concluded_def allNodesReady_def)
  then show ?thesis using p(1,3) q(3) all concluded d same new_names by blast
qed

text \<open>The same, with the conditions and the phase.\<close>

lemma drained_pass:
  assumes L: "condition_laws E" and run: "applyDrainResults E ds s = (r, t)" and fin: "\<forall>x \<in> set ds. drained x"
    and live: "\<not> isConditionTrue E (st_plan s) ConditionDrainTimedOut"
    and some: "status_Nodes (Status (st_plan s)) \<noteq> []" and names: "distinct (map ns_Name (status_Nodes (Status (st_plan s))))"
    and entries: "\<forall>e \<in> set (status_Nodes (Status (st_plan s))). Cordoned e \<and> ns_Name e \<in> NodeName ` set ds"
  shows "\<exists>p. st_trace t = st_trace s @ [PatchPlanStatus (st_plan s) p] \<and>
    map ns_Name (status_Nodes (Status p)) = map ns_Name (status_Nodes (Status (st_plan s))) \<and>
    list_all ReadyForMaintenance (status_Nodes (Status p)) \<and> AllNodesReadyForMaintenance (Status p) \<and>
    isConditionTrue E p ConditionDrainSucceeded \<and> \<not> isConditionTrue E p ConditionDrainInProgress \<and>
    \<not> isConditionTrue E p ConditionDrainBlocked \<and>
    Phase (Status p) = (if isConditionTrue E p ConditionConflict then PhaseConflict else PhaseReady) \<and>
    (isConditionTrue E p ConditionConflict \<longleftrightarrow> isConditionTrue E (st_plan s) ConditionConflict) \<and>
    (accepts_status E \<longrightarrow> st_plan t = p \<and> r = Inr noRequeue)"
proof -
  obtain p where p: "st_trace t = st_trace s @ [PatchPlanStatus (st_plan s) p]"
      "map ns_Name (status_Nodes (Status p)) = map ns_Name (status_Nodes (Status (st_plan s)))"
      "list_all ReadyForMaintenance (status_Nodes (Status p))" "AllNodesReadyForMaintenance (Status p)"
      "drain_concluded E (st_plan s) ds p noRequeue" "accepts_status E \<longrightarrow> st_plan t = p \<and> r = Inr noRequeue"
    using all_ready_sent [OF L run fin some names entries] by blast
  have "isConditionTrue E p ConditionDrainSucceeded" "\<not> isConditionTrue E p ConditionDrainInProgress"
    "\<not> isConditionTrue E p ConditionDrainBlocked" "\<not> isConditionTrue E p ConditionDrainTimedOut" "Phase (Status p) = computePhase E p"
    using p(5) fin live unfolding drain_concluded_def by auto
  moreover have "isConditionTrue E p ConditionConflict \<longleftrightarrow> isConditionTrue E (st_plan s) ConditionConflict"
    using p(5) unfolding drain_concluded_def by simp
  ultimately show ?thesis using p by (intro exI [of _ p]) (simp add: computePhase_def)
qed

text \<open>When all stable nodes are cordoned and ready, the pass drains all of them.\<close>

lemma ReconcileDrain_body:
  assumes cfg: "getDrainConfig (st_plan s) = Some cfg" and live: "\<not> isConditionTrue E (st_plan s) ConditionDrainTimedOut"
    and heap: "map Some nodes = map (st_heap s) (Stable res)" and ready: "\<forall>n \<in> set nodes. Unschedulable n \<and> isNodeReady n"
    and some: "nodes \<noteq> []" and run: "ReconcileDrain E res s = (r, t)"
  shows "\<exists>ds t1. drainNodes E (st_plan s) nodes (max_parallel (st_plan s)) s = (Inr ds, t1) \<and> map NodeName ds = map node_Name nodes \<and>
    st_plan t1 = st_plan s \<and> applyDrainResults E ds t1 = (r, t)"
proof -
  have heap': "\<forall>a \<in> set (Stable res). st_heap s a \<noteq> None"
  proof
    fix a assume "a \<in> set (Stable res)"
    then have "st_heap s a \<in> set (map Some nodes)" unfolding heap by simp
    then show "st_heap s a \<noteq> None" by auto
  qed
  have nodes: "nodes = map (\<lambda>a. the (st_heap s a)) (Stable res)"
    using heap [THEN arg_cong [of _ _ "map the"]] by (simp add: o_def)
  have load: "load_nodes (Stable res) s = (Inr nodes, s)" unfolding nodes by (rule load_nodes_run) (use heap' in blast)
  have split: "split_stable (not_ready_since (st_plan s)) nodes ([], []) = ([], nodes)"
    using ready by (simp add: split_stable_result filter_empty_conv)
  have body: "go_bind (drainNodes E (st_plan s) nodes (max_parallel (st_plan s))) (\<lambda>ds. applyDrainResults E ([] @ ds)) s = (r, t)"
    using run cfg live some by (simp add: ReconcileDrain_def go_bind_def go_run load split)
  obtain ds t1 where d1: "drainNodes E (st_plan s) nodes (max_parallel (st_plan s)) s = (Inr ds, t1)"
      "map NodeName ds = map node_Name nodes" "same_pass s t1"
    using drainNodes_run [OF max_parallel_pos cfg] by blast
  moreover have "st_plan t1 = st_plan s" using d1(3) by (simp add: same_pass_def)
  moreover have "applyDrainResults E ds t1 = (r, t)" using body by (simp add: go_bind_def d1(1))
  ultimately show ?thesis by blast
qed

text \<open>
  When the stable nodes of a plan are cordoned and ready and nothing is left on them that a
  drain would move or wait for, and every entry of the status is cordoned and belongs to one of
  them, then the drain pass, in whatever order its goroutines run, only lists pods and reports
  every entry and the plan as ready, the drain as succeeded, the phase \<open>Ready\<close> unless the plan
  conflicts; and it does not ask to be run again.
\<close>

lemma ReconcileDrain_ready:
  assumes cfg: "getDrainConfig (st_plan s) = Some cfg" and live: "\<not> isConditionTrue E (st_plan s) ConditionDrainTimedOut"
    and L: "condition_laws E" and heap: "map Some nodes = map (st_heap s) (Stable res)"
    and ready: "\<forall>n \<in> set nodes. Unschedulable n \<and> isNodeReady n \<and> emptied E cfg (node_Name n)"
    and some: "status_Nodes (Status (st_plan s)) \<noteq> []" and names: "distinct (map ns_Name (status_Nodes (Status (st_plan s))))"
    and entries: "\<forall>e \<in> set (status_Nodes (Status (st_plan s))). Cordoned e \<and> ns_Name e \<in> node_Name ` set nodes"
    and run: "ReconcileDrain E res s = (r, t)"
  shows "\<exists>cs p. st_trace t = st_trace s @ cs @ [PatchPlanStatus (st_plan s) p] \<and> list_all lists_pods cs \<and>
    map ns_Name (status_Nodes (Status p)) = map ns_Name (status_Nodes (Status (st_plan s))) \<and>
    list_all ReadyForMaintenance (status_Nodes (Status p)) \<and> AllNodesReadyForMaintenance (Status p) \<and>
    isConditionTrue E p ConditionDrainSucceeded \<and> \<not> isConditionTrue E p ConditionDrainInProgress \<and>
    \<not> isConditionTrue E p ConditionDrainBlocked \<and>
    Phase (Status p) = (if isConditionTrue E p ConditionConflict then PhaseConflict else PhaseReady) \<and>
    (isConditionTrue E p ConditionConflict \<longleftrightarrow> isConditionTrue E (st_plan s) ConditionConflict) \<and>
    (accepts_status E \<longrightarrow> st_plan t = p \<and> r = Inr noRequeue)"
proof -
  have "nodes \<noteq> []" using some entries by (cases "status_Nodes (Status (st_plan s))") auto
  then obtain ds t1 where d1: "drainNodes E (st_plan s) nodes (max_parallel (st_plan s)) s = (Inr ds, t1)"
      "map NodeName ds = map node_Name nodes" "st_plan t1 = st_plan s" "applyDrainResults E ds t1 = (r, t)"
    using ReconcileDrain_body [OF cfg live heap _ _ run] ready by blast
  have idle: "(\<forall>x \<in> set ds. drained x) \<and> trace_within lists_pods s t1"
    by (rule drainNodes_idle [OF max_parallel_pos cfg _ d1(1)]) (use ready in blast)
  then obtain cs where cs: "st_trace t1 = st_trace s @ cs" "list_all lists_pods cs" unfolding trace_within_def by blast
  have "node_Name ` set nodes = NodeName ` set ds" using d1(2) by (metis list.set_map)
  with drained_pass [OF L d1(4)] idle live some names entries d1(3) cs show ?thesis by fastforce
qed

end
