(* ===== verification/Pass_Steps.thy ===== *)
theory Pass_Steps
  imports Reconciler Drain_Ready
begin

text \<open>
  The steps of a pass put together. Each step is described by what it leaves to the next
  (\<open>stage\<close>): the node objects, the spec and the name of the plan, the calls made so far, and what
  holds of its entries. The passes of \<open>Pass_Ready\<close> and \<open>First_Pass\<close> are these steps in a row.
\<close>

section \<open>Definitions\<close>

text \<open>The calls that change no node and no pod.\<close>

fun idle_call :: "call \<Rightarrow> bool" where
  "idle_call (PatchNode _ _) = False"
| "idle_call (EvictPod _ _) = False"
| "idle_call (DeletePod _) = False"
| "idle_call _ = True"

definition permits :: "(call \<Rightarrow> bool) \<Rightarrow> bool" where
  "permits ok \<longleftrightarrow> (\<forall>c. idle_call c \<longrightarrow> ok c)"

text \<open>A resolution without conflicts and without nodes to give back: the named nodes, each once.\<close>

definition calm :: "string list \<Rightarrow> OwnershipResolution \<Rightarrow> bool" where
  "calm names res \<longleftrightarrow> ToRelease res = [] \<and> Conflicting res = [] \<and> mset (res_All res) = mset names \<and>
     mset (Stable res @ ToAdopt res) = mset names"

text \<open>
  What each step leaves to the next: the node objects, the spec and the name of the plan, that
  it has not timed out, that only the calls \<open>ok\<close> were made, and of the plan \<open>J\<close>.
\<close>

definition stage :: "'w env \<Rightarrow> (call \<Rightarrow> bool) \<Rightarrow> Plan \<Rightarrow> (string \<Rightarrow> Node option) \<Rightarrow> (Plan \<Rightarrow> bool) \<Rightarrow> 'w st \<Rightarrow> bool" where
  "stage E ok plan h J s \<longleftrightarrow> st_heap s = h \<and> Spec (st_plan s) = Spec plan \<and> plan_Name (st_plan s) = plan_Name plan \<and>
     \<not> isConditionTrue E (st_plan s) ConditionDrainTimedOut \<and> list_all ok (st_trace s) \<and> J (st_plan s)"

text \<open>No conflict, and one cordoned entry per node, in the order of the resolution.\<close>

definition entries_for :: "'w env \<Rightarrow> string list \<Rightarrow> Plan \<Rightarrow> bool" where
  "entries_for E order p \<longleftrightarrow> \<not> isConditionTrue E p ConditionConflict \<and> map ns_Name (status_Nodes (Status p)) = order \<and>
     (\<forall>e \<in> set (status_Nodes (Status p)). Cordoned e)"

section \<open>Resolution and schedule\<close>

lemma permitsD: "permits ok \<Longrightarrow> idle_call c \<Longrightarrow> ok c"
  by (simp add: permits_def)

text \<open>The nodes named by the plan are found, in worlds with \<open>W\<close>, which the reads keep.\<close>

definition finds :: "'w env \<Rightarrow> ('w \<Rightarrow> bool) \<Rightarrow> Node list \<Rightarrow> (Node list \<Rightarrow> bool) \<Rightarrow> bool" where
  "finds E W nodes listed \<longleftrightarrow>
     (\<forall>n \<in> set nodes. \<forall>w. W w \<longrightarrow> (\<exists>w'. k_getNode E (node_Name n) w = (Inr n, w') \<and> W w')) \<and>
     (\<forall>w. W w \<longrightarrow> (\<exists>items w'. k_listNodes E None w = (Inr items, w') \<and> W w' \<and> listed items))"

lemma fold_found:
  assumes "\<And>n acc s. n \<in> set ns \<Longrightarrow> I s \<Longrightarrow> \<exists>t. f (node_Name n) acc s = (Inr (acc\<lparr>rr_Nodes := rr_Nodes acc @ [n]\<rparr>), t) \<and> I t"
    and "I s"
  shows "\<exists>t. go_fold (map node_Name ns) acc f s = (Inr (acc\<lparr>rr_Nodes := rr_Nodes acc @ ns\<rparr>), t) \<and> I t"
  using assms
proof (induction ns arbitrary: acc s)
  case Nil
  then show ?case by (simp add: go_ret_def)
next
  case (Cons n ns)
  let ?acc = "acc\<lparr>rr_Nodes := rr_Nodes acc @ [n]\<rparr>"
  obtain t where t: "f (node_Name n) acc s = (Inr ?acc, t)" "I t" using Cons.prems(1) [of n s acc] Cons.prems(2) by auto
  obtain u where "go_fold (map node_Name ns) ?acc f t = (Inr (?acc\<lparr>rr_Nodes := rr_Nodes ?acc @ ns\<rparr>), u)" "I u"
    using Cons.IH [of t ?acc] Cons.prems(1) t(2) by auto
  then show ?case using t by (simp add: go_bind_def)
qed

lemma explicit_found:
  assumes found: "finds E W ns listed" and spec: "spec_Nodes (Spec plan) = map node_Name ns" and s: "W (st_world s)"
  shows "\<exists>t. resolveExplicitNodes E plan s = (Inr \<lparr>rr_Nodes = ns, rr_Issues = []\<rparr>, t) \<and> W (st_world t)"
proof -
  let ?none = "\<lparr>rr_Nodes = [], rr_Issues = []\<rparr> :: NodeResolutionResult"
  have "\<exists>t. resolveExplicitNodes E plan s = (Inr (?none\<lparr>rr_Nodes := rr_Nodes ?none @ ns\<rparr>), t) \<and> W (st_world t)"
    unfolding resolveExplicitNodes_def spec
  proof (rule fold_found [where I = "\<lambda>s. W (st_world s)", OF _ s], goal_cases)
    case (1 n acc u)
    then obtain w where "k_getNode E (node_Name n) (st_world u) = (Inr n, w)" "W w" using found unfolding finds_def by blast
    then show ?case by (simp add: go_try_bind get_node_def client_call_def go_ret_def)
  qed
  then show ?thesis by simp
qed

lemma by_name_self:
  assumes "distinct (map node_Name nodes)" "n \<in> set nodes"
  shows "map_of (by_name nodes) (node_Name n) = Some n"
proof -
  have "node_Name n \<in> set (map fst (by_name nodes))" using assms(2) by (simp only: by_name_dom) simp
  then obtain n' where n': "map_of (by_name nodes) (node_Name n) = Some n'" by (metis map_of_eq_None_iff not_Some_eq set_map)
  then have "n' \<in> set nodes" "node_Name n' = node_Name n" using by_name_keyed by blast+
  then have "n' = n" using assms by (metis distinct_map inj_onD)
  with n' show ?thesis by simp
qed

lemma by_name_mset:
  assumes "distinct (map node_Name nodes)"
  shows "mset (map fst (by_name nodes)) = mset (map node_Name nodes)"
  by (rule set_eq_iff_mset_eq_distinct [OF by_name_distinct assms, THEN iffD1]) (use by_name_dom [of nodes] in simp)

lemma resolution_found:
  assumes found: "finds E W nodes listed" and plan: "NodeSelector (Spec plan) = None" "spec_Nodes (Spec plan) = map node_Name nodes" "nodes \<noteq> []"
    and ok: "permits ok"
    and s: "st_plan s = plan" "W (st_world s)" "list_all ok (st_trace s)"
  shows "\<exists>items t. listed items \<and> W (st_world t) \<and> st_plan t = plan \<and> list_all ok (st_trace t) \<and>
    (let managed = by_name (filter (\<lambda>node. mget (Annotations node) ManagedByAnnotation = plan_Name plan) items)
     in ComputeOwnershipResolution E s = (Inr ((ComputeOwnership E (by_name nodes) managed (plan_Name plan))\<lparr>SnapshotNodes := None\<rparr>), t) \<and>
       st_heap t = map_of (by_name nodes @ managed))"
proof -
  obtain t1 where d1: "resolveExplicitNodes E plan s = (Inr \<lparr>rr_Nodes = nodes, rr_Issues = []\<rparr>, t1)" "W (st_world t1)"
    using explicit_found [OF found plan(2) s(2)] by blast
  have des: "desired_nodes E plan s = (Inr (Some \<lparr>rr_Nodes = nodes, rr_Issues = []\<rparr>, None), t1)"
    using plan d1(1) by (simp add: desired_nodes_def ResolveNodes_def go_bind_def go_map_err_def go_ret_def)
  have "same_pass s t1" by (rule obeysD [OF desired_nodes_effects(1) des])
  then have plan1: "st_plan t1 = plan" using s(1) by (simp add: same_pass_def)
  have "obeys (trace_within ok) (desired_nodes E plan)"
    unfolding desired_nodes_def ResolveNodes_def resolveExplicitNodes_def resolveSnapshotNodes_def resolveSelectorNodes_def
    by (intro tr.obeys_intros tr_prims get_node_effects) (simp_all add: permitsD [OF ok])
  from obeysD [OF this des] have tr1: "list_all ok (st_trace t1)" using s(3) by (auto simp: trace_within_def)
  obtain items w where list: "k_listNodes E None (st_world t1) = (Inr items, w)" "W w" "listed items"
    using found d1(2) unfolding finds_def by blast
  define managed where "managed = by_name (filter (\<lambda>node. mget (Annotations node) ManagedByAnnotation = plan_Name plan) items)"
  define t2 where "t2 = t1\<lparr>st_world := w, st_trace := st_trace t1 @ [ListNodes]\<rparr>"
  have owned: "ResolveOwnedNodes E (plan_Name plan) t1 = (Inr managed, t2)"
    by (simp add: ResolveOwnedNodes_def go_bind_def go_map_err_def client_call_def go_ret_def list(1) managed_def t2_def)
  have "ComputeOwnershipResolution E s = (Inr ((ComputeOwnership E (by_name nodes) managed (plan_Name plan))\<lparr>SnapshotNodes := None\<rparr>),
      t2\<lparr>st_heap := map_of (by_name nodes @ managed)\<rparr>)"
    using s(1) by (simp add: ComputeOwnershipResolution_def go_bind_def go_then_def go_map_err_def go_run des owned Let_def
        point_to_def go_modify_def go_ret_def)
  then show ?thesis using list(2,3) plan1 tr1 permitsD [OF ok]
    by (intro exI [of _ items] exI [of _ "t2\<lparr>st_heap := map_of (by_name nodes @ managed)\<rparr>"]) (simp add: Let_def managed_def t2_def)
qed

text \<open>The named nodes are all unmarked, or all the plan's, and no other node is the plan's.\<close>

lemma resolution_lists:
  assumes range: "range_laws E" and d: "distinct (map node_Name nodes)" and p: "p \<noteq> ''''"
    and owner: "\<forall>n \<in> set nodes. owner_of n = ow" "ow = '''' \<or> ow = p"
    and items: "\<forall>n \<in> set items. owner_of n = p \<longrightarrow> node_Name n \<in> node_Name ` set nodes"
    and res: "res = (ComputeOwnership E (by_name nodes)
      (by_name (filter (\<lambda>node. mget (Annotations node) ManagedByAnnotation = p) items)) p)\<lparr>SnapshotNodes := None\<rparr>"
  shows "calm (map node_Name nodes) res" "ow = '''' \<Longrightarrow> Stable res = [] \<and> ToAdopt res = res_All res"
    "ow = p \<Longrightarrow> ToAdopt res = [] \<and> Stable res = res_All res"
proof -
  let ?order = "k_range E ''desired'' (map fst (by_name nodes))"
  let ?managed = "by_name (filter (\<lambda>node. mget (Annotations node) ManagedByAnnotation = p) items)"
  have own: "desired_owner (by_name nodes) nm = Some ow" if nm: "nm \<in> set ?order" for nm
  proof -
    from nm obtain n where n: "n \<in> set nodes" "nm = node_Name n" unfolding range_set [OF range] by_name_dom by auto
    then show ?thesis using by_name_self [OF d n(1)] owner(1) n(1) by (simp add: desired_owner_def)
  qed
  have "filter P ?order = (if P' then ?order else [])" if "\<And>nm. desired_owner (by_name nodes) nm = Some ow \<Longrightarrow> P nm = P'" for P P'
  proof -
    have "\<And>nm. nm \<in> set ?order \<Longrightarrow> P nm = P'" using that own by blast
    then have "filter P ?order = filter (\<lambda>_. P') ?order" by (metis filter_cong)
    then show ?thesis by simp
  qed
  moreover have "filter (\<lambda>nm. map_of (by_name nodes) nm = None) (k_range E ''managed'' (map fst ?managed)) = []"
  proof (rule filter_False, rule ballI)
    fix nm assume "nm \<in> set (k_range E ''managed'' (map fst ?managed))"
    then obtain n where "n \<in> set items" "mget (Annotations n) ManagedByAnnotation = p" "nm = node_Name n"
      unfolding range_set [OF range] by_name_dom by auto
    then have "nm \<in> node_Name ` set nodes" using items by (auto simp: owner_of_def)
    then show "map_of (by_name nodes) nm \<noteq> None" using by_name_self [OF d] by auto
  qed
  ultimately have lists: "ToAdopt res = (if ow = '''' then ?order else [])" "Stable res = (if ow = p then ?order else [])"
    "Conflicting res = []" "res_All res = ?order" "ToRelease res = []"
    using p owner(2) by (cases "ow = ''''"; simp add: res ComputeOwnership_lists)+
  have "mset ?order = mset (map node_Name nodes)" using by_name_mset [OF d] range by (simp add: range_laws_def)
  then show "calm (map node_Name nodes) res" "ow = '''' \<Longrightarrow> Stable res = [] \<and> ToAdopt res = res_All res"
    "ow = p \<Longrightarrow> ToAdopt res = [] \<and> Stable res = res_All res"
    using lists p owner(2) by (auto simp: calm_def)
qed

lemma found_heap:
  "distinct (map node_Name nodes) \<Longrightarrow> n \<in> set nodes \<Longrightarrow> map_of (by_name nodes @ managed) (node_Name n) = Some n"
  using by_name_self by simp

lemma schedule_due:
  assumes none: "pending_starts plan now = {}" and on: "cordonEnabled plan" "drainEnabled plan"
  shows "ShouldAct (ps_Cordon (schedule_at plan now))" "ShouldAct (ps_Drain (schedule_at plan now))"
    "ps_RequeueAfter (schedule_at plan now) = 0"
proof -
  have "Option.bind (Cordon (Spec plan)) cordon_StartAt = Some t \<Longrightarrow> \<not> now < t"
    "Option.bind (Drain (Spec plan)) drain_StartAt = Some t \<Longrightarrow> \<not> now < t" for t
    using none on by (auto simp: pending_starts_def cordon_start_def drain_start_def)
  then have "CheckSchedule (Option.bind (Cordon (Spec plan)) cordon_StartAt) False now = \<lparr>ShouldAct = True, RequeueAfter = 0\<rparr>"
    "CheckSchedule (Option.bind (Drain (Spec plan)) drain_StartAt) False now = \<lparr>ShouldAct = True, RequeueAfter = 0\<rparr>"
    by (auto simp: CheckSchedule_def split: option.split)
  then show "ShouldAct (ps_Cordon (schedule_at plan now))" "ShouldAct (ps_Drain (schedule_at plan now))"
    "ps_RequeueAfter (schedule_at plan now) = 0"
    using on by (simp_all add: schedule_at_def Let_def)
qed

section \<open>The steps\<close>

lemma stage_get_plan: "triple (stage E ok plan h J) get_plan (\<lambda>p s. stage E ok plan h J s \<and> st_plan s = p) X"
  by (rule triple_get_plan) simp

lemma stage_read_clock: "triple (stage E ok plan h J) (read_clock f) (\<lambda>_. stage E ok plan h J) X"
  by (rule triple_read_clock) (simp add: stage_def)

lemma stage_patch:
  assumes "accepts_status E" and ok: "permits ok"
  shows "triple (stage E ok plan h J) (patch_plan_status E original) (\<lambda>_. stage E ok plan h J) X"
proof (rule triple_patch_plan_status)
  fix s p' w
  assume s: "stage E ok plan h J s" and p': "k_patchPlanStatus E original (st_plan s) (st_world s) = (Inr p', w)"
  then have "p' = st_plan s" using assms(1) by (metis accepts_status_def prod.inject sum.inject(2))
  with s show "stage E ok plan h J (s\<lparr>st_world := w, st_trace := st_trace s @ [PatchPlanStatus original (st_plan s)], st_plan := p'\<rparr>)"
    by (simp add: stage_def permitsD [OF ok])
next
  fix s :: "'a st" and e w
  assume "k_patchPlanStatus E original (st_plan s) (st_world s) = (Inl e, w)"
  then show "X (s\<lparr>st_world := w, st_trace := st_trace s @ [PatchPlanStatus original (st_plan s)]\<rparr>)"
    using assms(1) by (metis accepts_status_def prod.inject sum.distinct(1))
qed

text \<open>A change of the plan that leaves its conditions, its name and spec and the marks of its entries.\<close>

lemma stage_modify:
  assumes "\<And>p. Spec (f p) = Spec p" "\<And>p. plan_Name (f p) = plan_Name p" "\<And>p. Conditions (Status (f p)) = Conditions (Status p)"
    and names: "\<And>p. map ns_Name (status_Nodes (Status (f p))) = map ns_Name (status_Nodes (Status p))"
    and marks: "\<And>p. map Cordoned (status_Nodes (Status (f p))) = map Cordoned (status_Nodes (Status p))"
  shows "triple (stage E ok plan h (entries_for E order)) (modify_plan f) (\<lambda>_. stage E ok plan h (entries_for E order)) X"
proof (rule triple_modify_plan)
  fix s assume s: "stage E ok plan h (entries_for E order) s"
  have true: "isConditionTrue E (f p) c = isConditionTrue E p c" for p c by (rule isConditionTrue_cong) (rule assms(3))
  have "(\<forall>e \<in> set (status_Nodes (Status (f p))). Cordoned e) \<longleftrightarrow> (\<forall>e \<in> set (status_Nodes (Status p)). Cordoned e)" for p
    using marks [of p, THEN arg_cong [of _ _ "\<lambda>bs. \<forall>b \<in> set bs. b"]] by simp
  with s show "stage E ok plan h (entries_for E order) (s\<lparr>st_plan := f (st_plan s)\<rparr>)"
    by (simp add: stage_def entries_for_def true names assms)
qed

lemma marks_map: "list_all2 entry_frame xs ys \<Longrightarrow> map ns_Name ys = map ns_Name xs \<and> map Cordoned ys = map Cordoned xs"
  by (induction rule: list_all2_induct) (auto simp: entry_frame_def)

text \<open>The status of the pass: one entry per node, each cordoned.\<close>

lemma sent_entries:
  assumes heap: "\<And>n. n \<in> set nodes \<Longrightarrow> h (node_Name n) = Some n" and all: "set (res_All res) = node_Name ` set nodes"
    and seen: "map Some ns = map h (res_All res)" and cordoned: "\<And>n. n \<in> set nodes \<Longrightarrow> Unschedulable n"
  shows "map ns_Name (buildNodeStatuses existing ns plan now) = res_All res"
    "\<forall>e \<in> set (buildNodeStatuses existing ns plan now). Cordoned e"
proof -
  have node: "h a = Some n \<Longrightarrow> n \<in> set nodes \<and> node_Name n = a" if "a \<in> set (res_All res)" for a n
    using that heap unfolding all by auto
  have name: "ns_Name (node_status existing plan now n) = node_Name n" "Cordoned (node_status existing plan now n) = Unschedulable n" for n
    by (simp_all add: node_status_def Let_def)
  have "map node_Name ns = as \<and> set ns \<subseteq> set nodes" if "map Some ns = map h as" "set as \<subseteq> set (res_All res)" for as
    using that
  proof (induction ns arbitrary: as)
    case (Cons n ns)
    then obtain a as' where "as = a # as'" "h a = Some n" "map Some ns = map h as'" by (cases as) auto
    with Cons.IH [of as'] Cons.prems(2) node [of a n] show ?case by auto
  qed simp
  from this [OF seen] have "map node_Name ns = res_All res" "set ns \<subseteq> set nodes" by auto
  then show "map ns_Name (buildNodeStatuses existing ns plan now) = res_All res"
    "\<forall>e \<in> set (buildNodeStatuses existing ns plan now). Cordoned e"
    using cordoned by (auto simp: buildNodeStatuses_def name o_def)
qed

lemma triple_ghost:
  assumes "\<And>s0. P s0 \<Longrightarrow> triple (P' s0) m Q X" and "\<And>s. P s \<Longrightarrow> P' s s"
  shows "triple P m Q X"
  unfolding triple_def
proof (intro allI impI)
  fix s assume "P s"
  then show "case m s of (Inl e, t) \<Rightarrow> X t | (Inr x, t) \<Rightarrow> Q x t"
    using assms(1) [of s] assms(2) [of s] by (simp add: triple_def)
qed

lemma triple_returns: "triple P m Q (\<lambda>_. False) \<Longrightarrow> P s \<Longrightarrow> \<exists>x t. m s = (Inr x, t) \<and> Q x t"
  by (cases "m s"; cases "fst (m s)") (auto simp: triple_def)

lemma UpdateStatus_stage:
  assumes heap: "\<And>n. n \<in> set nodes \<Longrightarrow> h (node_Name n) = Some n" and calm: "calm (map node_Name nodes) res"
    and L: "condition_laws E" and accepts: "accepts_status E" "permits ok" and cordoned: "\<And>n. n \<in> set nodes \<Longrightarrow> Unschedulable n"
  shows "triple (stage E ok plan h (\<lambda>p. p = plan)) (UpdateStatus E res) (\<lambda>_. stage E ok plan h (entries_for E (res_All res))) (\<lambda>_. False)"
proof (rule triple_ghost [where P' = "\<lambda>s. sits plan h (st_trace s)"])
  fix s :: "'a st" assume s: "stage E ok plan h (\<lambda>p. p = plan) s"
  then show "sits plan h (st_trace s) s" by (simp add: stage_def sits_def)
next
  fix s :: "'a st" assume s: "stage E ok plan h (\<lambda>p. p = plan) s"
  have all: "set (res_All res) = node_Name ` set nodes"
    using calm [unfolded calm_def] by (metis mset_eq_setD list.set_map)
  have rest: "ToRelease res = []" "Conflicting res = []" using calm by (simp_all add: calm_def)
  show "triple (sits plan h (st_trace s)) (UpdateStatus E res) (\<lambda>_. stage E ok plan h (entries_for E (res_All res))) (\<lambda>_. False)"
  proof (rule UpdateStatus_to_patch)
    show "h a \<noteq> None" if "a \<in> set (res_All res @ ToRelease res)" for a using that heap rest by (auto simp: all)
  next
    fix ns now sch b f statuses
    assume seen: "map Some ns = map h (res_All res)"
      and st: "statuses = buildNodeStatuses (index_nodes (status_Nodes (Status plan))) ns plan now"
      and w: "writes_condition E ConditionNodeNotReady b f"
    have e: "map ns_Name statuses = res_All res" "\<forall>e \<in> set statuses. Cordoned e"
      unfolding st using sent_entries [OF heap all seen cordoned] by blast+
    have "stage E ok plan h (entries_for E (res_All res)) u" if "sits (status_sent E res plan statuses sch f) h (st_trace s) u" for u
      using that s e by (auto simp: sits_def stage_def entries_for_def status_sent_frame [OF w] status_sent_true [OF L w] rest)
    then show "triple (sits (status_sent E res plan statuses sch f) h (st_trace s)) (patch_plan_status E plan)
        (\<lambda>_. stage E ok plan h (entries_for E (res_All res))) (\<lambda>_. False)"
      by (rule triple_weaken [OF stage_patch [OF accepts(1,2)]])
  qed
qed

text \<open>What a drain pass finds when every named node is stable: the nodes, and an entry for each.\<close>

lemma drain_targets:
  assumes heap: "\<And>n. n \<in> set nodes \<Longrightarrow> h (node_Name n) = Some n" and calm: "calm (map node_Name nodes) res"
    and stable: "Stable res = res_All res" and nodes: "nodes \<noteq> []" "distinct (map node_Name nodes)"
    and s: "stage E ok plan h (entries_for E (res_All res)) s"
  obtains ns where "map Some ns = map (st_heap s) (Stable res)" "set ns = set nodes" "ns \<noteq> []" "mset (map node_Name ns) = mset (map node_Name nodes)"
    "mset (map ns_Name (status_Nodes (Status (st_plan s)))) = mset (map node_Name nodes)" "status_Nodes (Status (st_plan s)) \<noteq> []"
    "distinct (map ns_Name (status_Nodes (Status (st_plan s))))"
    "\<forall>e \<in> set (status_Nodes (Status (st_plan s))). Cordoned e \<and> ns_Name e \<in> node_Name ` set ns"
proof -
  define ns where "ns = map (\<lambda>a. the (h a)) (Stable res)"
  have order: "mset (res_All res) = mset (map node_Name nodes)" using calm by (simp add: calm_def)
  then have names: "set (Stable res) = node_Name ` set nodes" using stable by (metis mset_eq_setD list.set_map)
  have loaded: "map Some ns = map h (Stable res)" unfolding ns_def using heap names by auto
  have "set ns = (\<lambda>a. the (h a)) ` node_Name ` set nodes" unfolding ns_def set_map names ..
  then have same: "set ns = set nodes" using heap by (auto simp: image_image)
  have at: "st_heap s = h" "map ns_Name (status_Nodes (Status (st_plan s))) = res_All res" "\<forall>e \<in> set (status_Nodes (Status (st_plan s))). Cordoned e"
    using s by (simp_all add: stage_def entries_for_def)
  show ?thesis
  proof (rule that)
    show "map Some ns = map (st_heap s) (Stable res)" "set ns = set nodes" using loaded same at(1) by simp_all
    show "ns \<noteq> []" using same nodes(1) by auto
    have "map node_Name ns = Stable res" unfolding ns_def using heap names by (auto intro!: map_idI)
    then show "mset (map node_Name ns) = mset (map node_Name nodes)" using order stable by simp
    show listed: "mset (map ns_Name (status_Nodes (Status (st_plan s)))) = mset (map node_Name nodes)" unfolding at(2) by (rule order)
    then show "status_Nodes (Status (st_plan s)) \<noteq> []" using nodes(1) by auto
    show "distinct (map ns_Name (status_Nodes (Status (st_plan s))))" using listed nodes(2) mset_eq_imp_distinct_iff by metis
    show "\<forall>e \<in> set (status_Nodes (Status (st_plan s))). Cordoned e \<and> ns_Name e \<in> node_Name ` set ns"
      using at(2,3) names same stable by (metis imageI set_map)
  qed
qed

text \<open>The preview: nothing to evict, so no budget is looked at.\<close>

lemma preview_write_marks:
  "map ns_Name (status_Nodes (Status (setNodePreview nm v p))) = map ns_Name (status_Nodes (Status p))"
  "map Cordoned (status_Nodes (Status (setNodePreview nm v p))) = map Cordoned (status_Nodes (Status p))"
  unfolding setNodePreview_def using marks_map [OF preview_write.frame_plan] by blast+

lemma stage_setNodePreview:
  "triple (stage E ok plan h (entries_for E order)) (modify_plan (setNodePreview nm v)) (\<lambda>_. stage E ok plan h (entries_for E order)) X"
  by (rule stage_modify; (rule preview_write_marks)?) (simp_all add: setNodePreview_def update_entry_def)

lemma stage_filterPods:
  assumes "emptied E cfg (node_Name node)" and ok: "permits ok"
  shows "triple (stage E ok plan h J) (filterPodsForDrain E node cfg) (\<lambda>result s. stage E ok plan h J s \<and> fr_Evictable result = []) X"
  unfolding triple_def
proof (intro allI impI)
  fix s :: "'a st" assume s: "stage E ok plan h J s"
  obtain r t where run: "filterPodsForDrain E node cfg s = (r, t)" by force
  have "trace_within ok s t" by (rule obeysD [OF filterPods_tr run]) (simp add: permitsD [OF ok])
  moreover have "same_pass s t" by (rule obeysD [OF filterPods_own run])
  ultimately have "stage E ok plan h J t" using s by (auto simp: stage_def same_pass_def trace_within_def)
  with emptied_filter [OF assms(1) run] show "case filterPodsForDrain E node cfg s of (Inl e, t) \<Rightarrow> X t
      | (Inr result, t) \<Rightarrow> stage E ok plan h J t \<and> fr_Evictable result = []"
    by (auto simp: run)
qed

lemma stage_preview_node:
  assumes "emptied E cfg (node_Name node)" and "permits ok"
  shows "triple (stage E ok plan h (entries_for E order)) (preview_node E cfg now node totals)
    (\<lambda>_. stage E ok plan h (entries_for E order)) X"
proof -
  obtain a b where totals: "totals = (a, b)" by (cases totals)
  have none: "triple (\<lambda>s. stage E ok plan h (entries_for E order) s) (buildPDBIssues E [])
      (\<lambda>_ s. stage E ok plan h (entries_for E order) s) X"
    unfolding buildPDBIssues_def by (simp add: triple_ret)
  have pdb: "triple (\<lambda>s. stage E ok plan h (entries_for E order) s \<and> fr_Evictable result = []) (buildPDBIssues E (fr_Evictable result))
      (\<lambda>_ s. stage E ok plan h (entries_for E order) s) X" for result
    by (rule triple_fact) (simp add: none)
  show ?thesis
    unfolding preview_node_def totals prod.case Let_def
    by (rule triple_bind [OF triple_map_err [OF stage_filterPods [OF assms]]], rule triple_bind [OF triple_map_err [OF pdb]],
        rule triple_then [OF stage_setNodePreview], rule triple_ret)
qed

lemma triple_case_prod: "(\<And>a b. triple P (f a b) Q X) \<Longrightarrow> triple P (case x of (a, b) \<Rightarrow> f a b) Q X"
  by (cases x) simp

lemma stage_load_nodes:
  assumes heap: "\<And>n. n \<in> set nodes \<Longrightarrow> h (node_Name n) = Some n" and as: "set as = node_Name ` set nodes"
  shows "triple (stage E ok plan h J) (load_nodes as) (\<lambda>ns s. stage E ok plan h J s \<and> set ns \<subseteq> set nodes) X"
proof (rule triple_ghost [where P' = "\<lambda>s. sits (st_plan s) h (st_trace s)"])
  fix s :: "'a st" assume "stage E ok plan h J s"
  then show "sits (st_plan s) h (st_trace s) s" by (simp add: stage_def sits_def)
next
  fix s :: "'a st" assume s: "stage E ok plan h J s"
  have "triple (sits (st_plan s) h (st_trace s)) (load_nodes as)
      (\<lambda>ns t. sits (st_plan s) h (st_trace s) t \<and> map Some ns = map h as) X"
    by (rule at_load_nodes) (use heap in \<open>auto simp: as\<close>)
  then show "triple (sits (st_plan s) h (st_trace s)) (load_nodes as) (\<lambda>ns t. stage E ok plan h J t \<and> set ns \<subseteq> set nodes) X"
  proof (rule triple_weaken)
    fix ns and t :: "'a st" assume t: "sits (st_plan s) h (st_trace s) t \<and> map Some ns = map h as"
    then have "Some ` set ns = h ` set as" by (metis list.set_map)
    also have "\<dots> = Some ` set nodes" unfolding as image_image using heap by auto
    finally have "set ns = set nodes" by (simp add: inj_image_eq_iff)
    with t s show "stage E ok plan h J t \<and> set ns \<subseteq> set nodes" by (simp add: stage_def sits_def)
  qed simp_all
qed

lemma ReconcilePreview_stage:
  assumes accepts: "accepts_status E" "permits ok"
    and cfg: "getDrainConfig plan = Some cfg" and calm: "calm (map node_Name nodes) res"
    and heap: "\<And>n. n \<in> set nodes \<Longrightarrow> h (node_Name n) = Some n" and empty: "\<And>n. n \<in> set nodes \<Longrightarrow> emptied E cfg (node_Name n)"
  shows "triple (stage E ok plan h (entries_for E order)) (ReconcilePreview E res) (\<lambda>_. stage E ok plan h (entries_for E order)) X"
proof -
  let ?S = "stage E ok plan h (entries_for E order)"
  have targets: "set (Stable res @ ToAdopt res) = node_Name ` set nodes"
    using calm [unfolded calm_def] by (metis mset_eq_setD list.set_map)
  have get: "triple ?S get_plan (\<lambda>p s. ?S s \<and> preview_config p = cfg) X"
    by (rule triple_get_plan) (use cfg in \<open>auto simp: stage_def preview_config_def getDrainConfig_def\<close>)
  have fold: "triple ?S (go_fold ns (0, 0) (preview_node E c now)) (\<lambda>_. ?S) X" if "set ns \<subseteq> set nodes" "c = cfg" for ns c now
    by (rule triple_fold [where I = "\<lambda>_. ?S"], rule stage_preview_node) (use that empty accepts(2) in blast)+
  have finish: "triple ?S (modify_plan (\<lambda>plan. plan\<lparr>Status := (Status plan)\<lparr>TotalEvictablePods := a,
        TotalPreviewIssues := b, LastPreviewTime := Some now\<rparr>\<rparr>)) (\<lambda>_. ?S) X" for a b now
    by (rule stage_modify) simp_all
  show ?thesis
    unfolding ReconcilePreview_def Let_def
    by (rule triple_bind [OF get], rule triple_fact, rule triple_if, rule triple_ret, assumption,
        rule triple_bind [OF stage_load_nodes [OF heap targets]], assumption, rule triple_fact, rule triple_if, rule triple_ret,
        assumption, rule triple_bind [OF stage_read_clock], rule triple_bind [OF fold], assumption, assumption,
        rule triple_case_prod, rule triple_then [OF finish stage_patch [OF accepts(1,2)]])
qed

text \<open>And with pods on the nodes, on a server that answers the lists.\<close>

definition answers_lists :: "'w env \<Rightarrow> bool" where
  "answers_lists E \<longleftrightarrow> (\<forall>nm w. \<exists>items w'. k_listPods E nm w = (Inr items, w')) \<and>
     (\<forall>ns w. \<exists>items w'. k_listPDBs E ns w = (Inr items, w'))"

lemma stage_call:
  assumes "\<And>w. \<exists>x w'. f w = (Inr x, w')" "ok c"
  shows "triple (stage E ok plan h J) (client_call c f) (\<lambda>_. stage E ok plan h J) X"
  unfolding triple_def
proof (intro allI impI)
  fix s :: "'a st" assume s: "stage E ok plan h J s"
  obtain x w where "f (st_world s) = (Inr x, w)" using assms(1) by blast
  then show "case client_call c f s of (Inl e, t) \<Rightarrow> X t | (Inr x, t) \<Rightarrow> stage E ok plan h J t"
    using s assms(2) by (simp add: client_call_def stage_def)
qed

lemma stage_filterPods_runs:
  assumes "answers_lists E" and ok: "permits ok"
  shows "triple (stage E ok plan h J) (filterPodsForDrain E node cfg) (\<lambda>_. stage E ok plan h J) X"
  unfolding filterPodsForDrain_def
  by (rule triple_bind [OF triple_map_err [OF stage_call]], use assms in \<open>simp add: answers_lists_def\<close>,
      use permitsD [OF ok] in simp, rule triple_bind [OF stage_read_clock], rule triple_ret)

lemma stage_buildPDBIssues_runs:
  assumes "answers_lists E" and ok: "permits ok"
  shows "triple (stage E ok plan h J) (buildPDBIssues E pods) (\<lambda>_. stage E ok plan h J) X"
proof -
  have one: "triple (stage E ok plan h J) (namespace_issues E m ns acc) (\<lambda>_. stage E ok plan h J) X" for m ns acc
    unfolding namespace_issues_def
    by (rule triple_bind [OF triple_map_err [OF stage_call]], use assms in \<open>simp add: answers_lists_def\<close>,
        use permitsD [OF ok] in simp, rule triple_ret)
  show ?thesis unfolding buildPDBIssues_def
    by (rule triple_if, rule triple_ret, assumption, rule triple_fold [where I = "\<lambda>_. stage E ok plan h J"], rule one)
qed

lemma ReconcilePreview_runs:
  assumes accepts: "accepts_status E" "permits ok" and lists: "answers_lists E"
    and calm: "calm (map node_Name nodes) res" and heap: "\<And>n. n \<in> set nodes \<Longrightarrow> h (node_Name n) = Some n"
  shows "triple (stage E ok plan h (entries_for E order)) (ReconcilePreview E res) (\<lambda>_. stage E ok plan h (entries_for E order)) X"
proof -
  let ?S = "stage E ok plan h (entries_for E order)"
  have targets: "set (Stable res @ ToAdopt res) = node_Name ` set nodes"
    using calm [unfolded calm_def] by (metis mset_eq_setD list.set_map)
  have get: "triple ?S get_plan (\<lambda>_. ?S) X" by (rule triple_get_plan)
  have node: "triple ?S (preview_node E c now n totals) (\<lambda>_. ?S) X" for c now n totals
    unfolding preview_node_def Let_def
    by (rule triple_case_prod, rule triple_bind [OF triple_map_err [OF stage_filterPods_runs [OF lists accepts(2)]]],
        rule triple_bind [OF triple_map_err [OF stage_buildPDBIssues_runs [OF lists accepts(2)]]],
        rule triple_then [OF stage_setNodePreview], rule triple_ret)
  have fold: "triple ?S (go_fold ns (0, 0) (preview_node E c now)) (\<lambda>_. ?S) X" for ns c now
    by (rule triple_fold [where I = "\<lambda>_. ?S"], rule node)
  have finish: "triple ?S (modify_plan (\<lambda>plan. plan\<lparr>Status := (Status plan)\<lparr>TotalEvictablePods := a,
        TotalPreviewIssues := b, LastPreviewTime := Some now\<rparr>\<rparr>)) (\<lambda>_. ?S) X" for a b now
    by (rule stage_modify) simp_all
  show ?thesis
    unfolding ReconcilePreview_def Let_def
    by (rule triple_bind [OF get], rule triple_if, rule triple_ret, assumption,
        rule triple_bind [OF stage_load_nodes [OF heap targets]], assumption, rule triple_fact, rule triple_if, rule triple_ret,
        assumption, rule triple_bind [OF stage_read_clock], rule triple_bind [OF fold],
        rule triple_case_prod, rule triple_then [OF finish stage_patch [OF accepts(1,2)]])
qed

end
