(* ===== verification/Pass_Ready.thy ===== *)
theory Pass_Ready
  imports Pass_Steps
begin

text \<open>
  A whole pass, from the request to the result, on a cluster where the plan's work is done but
  not yet reported: every node it names carries its mark and the operator's cordon, is ready,
  and has no pod left to move. The pass succeeds, patches no node, evicts nothing, and leaves
  the plan ready.
\<close>

section \<open>Definitions\<close>

text \<open>
  The cluster as the reads of the pass find it, in worlds with \<open>W\<close>: every node the plan names
  carries its mark and the operator's cordon, and is ready.
\<close>

definition owned :: "'w env \<Rightarrow> ('w \<Rightarrow> bool) \<Rightarrow> Plan \<Rightarrow> drainConfig \<Rightarrow> Node list \<Rightarrow> bool" where
  "owned E W plan cfg nodes \<longleftrightarrow>
     (\<forall>w. W w \<longrightarrow> (\<exists>w'. k_getPlan E (plan_Name plan) w = (Inr plan, w') \<and> W w')) \<and>
     finds E W nodes (\<lambda>items. \<forall>n \<in> set items. owner_of n = plan_Name plan \<longrightarrow> node_Name n \<in> node_Name ` set nodes) \<and>
     k_ContainsFinalizer E (Finalizers plan) NodeMaintenancePlanFinalizer \<and> plan_DeletionTimestamp plan = None \<and>
     plan_Name plan \<noteq> '''' \<and> NodeSelector (Spec plan) = None \<and> spec_Nodes (Spec plan) = map node_Name nodes \<and>
     nodes \<noteq> [] \<and> distinct (map node_Name nodes) \<and>
     (\<forall>n \<in> set nodes. owner_of n = plan_Name plan \<and> operator_cordoned n \<and> Unschedulable n \<and> isNodeReady n) \<and>
     accepts_status E \<and> cordonEnabled plan \<and> getDrainConfig plan = Some cfg \<and>
     \<not> isConditionTrue E plan ConditionDrainTimedOut \<and>
     (\<forall>w now w'. k_clockNow E w = (now, w') \<longrightarrow> pending_starts plan now = {})"

text \<open>And no pod is left to move.\<close>

definition settled :: "'w env \<Rightarrow> ('w \<Rightarrow> bool) \<Rightarrow> Plan \<Rightarrow> drainConfig \<Rightarrow> Node list \<Rightarrow> bool" where
  "settled E W plan cfg nodes \<longleftrightarrow> owned E W plan cfg nodes \<and> (\<forall>n \<in> set nodes. emptied E cfg (node_Name n))"

text \<open>What the pass reports: every node ready, and the plan with them.\<close>

definition all_reported :: "string list \<Rightarrow> Plan \<Rightarrow> bool" where
  "all_reported names p \<longleftrightarrow> mset (map ns_Name (status_Nodes (Status p))) = mset names \<and>
     list_all ReadyForMaintenance (status_Nodes (Status p)) \<and> AllNodesReadyForMaintenance (Status p) \<and>
     Phase (Status p) = PhaseReady"

section \<open>The steps\<close>

lemma owned_facts:
  assumes "owned E W plan cfg nodes"
  shows "\<And>w. W w \<Longrightarrow> \<exists>w'. k_getPlan E (plan_Name plan) w = (Inr plan, w') \<and> W w'" "plan_DeletionTimestamp plan = None"
    "k_ContainsFinalizer E (Finalizers plan) NodeMaintenancePlanFinalizer"
    "plan_Name plan \<noteq> ''''" "NodeSelector (Spec plan) = None" "spec_Nodes (Spec plan) = map node_Name nodes"
    "nodes \<noteq> []" "distinct (map node_Name nodes)"
    "finds E W nodes (\<lambda>items. \<forall>n \<in> set items. owner_of n = plan_Name plan \<longrightarrow> node_Name n \<in> node_Name ` set nodes)"
    "accepts_status E" "cordonEnabled plan"
    "\<And>n. n \<in> set nodes \<Longrightarrow> owner_of n = plan_Name plan \<and> operator_cordoned n \<and> Unschedulable n \<and> isNodeReady n"
    "getDrainConfig plan = Some cfg" "\<not> isConditionTrue E plan ConditionDrainTimedOut"
    "\<And>w now w'. k_clockNow E w = (now, w') \<Longrightarrow> pending_starts plan now = {}"
  using assms unfolding owned_def by blast+

lemma settled_facts:
  assumes "settled E W plan cfg nodes"
  shows "owned E W plan cfg nodes" "\<And>n. n \<in> set nodes \<Longrightarrow> emptied E cfg (node_Name n)"
  using assms unfolding settled_def by blast+

lemma resolution_stable:
  assumes own: "owned E W plan cfg nodes" and range: "range_laws E"
    and s: "st_plan s = plan" "W (st_world s)" "list_all idle_call (st_trace s)"
  shows "\<exists>res t. ComputeOwnershipResolution E s = (Inr res, t) \<and> calm (map node_Name nodes) res \<and> Stable res = res_All res \<and>
    ToAdopt res = [] \<and> st_plan t = plan \<and> W (st_world t) \<and> (\<forall>n \<in> set nodes. st_heap t (node_Name n) = Some n) \<and>
    list_all idle_call (st_trace t)"
proof -
  note f = owned_facts [OF own]
  have "permits idle_call" by (simp add: permits_def)
  from resolution_found [OF f(9,5,6,7) this s] obtain items t where found:
    "\<forall>n \<in> set items. owner_of n = plan_Name plan \<longrightarrow> node_Name n \<in> node_Name ` set nodes"
    "st_plan t = plan" "W (st_world t)" "list_all idle_call (st_trace t)"
    "ComputeOwnershipResolution E s = (Inr ((ComputeOwnership E (by_name nodes)
      (by_name (filter (\<lambda>node. mget (Annotations node) ManagedByAnnotation = plan_Name plan) items)) (plan_Name plan))\<lparr>SnapshotNodes := None\<rparr>), t)"
    "st_heap t = map_of (by_name nodes @ by_name (filter (\<lambda>node. mget (Annotations node) ManagedByAnnotation = plan_Name plan) items))"
    unfolding Let_def by blast
  have owner: "\<forall>n \<in> set nodes. owner_of n = plan_Name plan" using f(12) by blast
  note lists = resolution_lists [OF range f(8,4) owner disjI2 [OF refl] found(1) refl]
  have "\<forall>n \<in> set nodes. st_heap t (node_Name n) = Some n" using found(6) found_heap [OF f(8)] by simp
  then show ?thesis using found(2-5) lists(1) lists(3) [OF refl] by blast
qed

text \<open>Nothing has drifted, and every cordon is in place.\<close>

lemma go_for_idle: "(\<And>x. x \<in> set xs \<Longrightarrow> f x s = (Inr (), s)) \<Longrightarrow> go_for xs f s = (Inr (), s)"
  by (induction xs) (simp_all add: go_ret_def go_then_def go_bind_def)

lemma cordoned_stay:
  assumes heap: "\<And>n. n \<in> set nodes \<Longrightarrow> st_heap s (node_Name n) = Some n" and calm: "calm (map node_Name nodes) res" and stable: "ToAdopt res = []"
    and on: "cordonEnabled (st_plan s)" and owned: "\<And>n. n \<in> set nodes \<Longrightarrow> operator_cordoned n \<and> Unschedulable n"
  shows "ReconcileOwnership E res b s = (Inr (), s)" "ReconcileDrift E res s = (Inr (), s)" "ReconcileCordon E res s = (Inr (), s)"
proof -
  have node: "\<exists>n \<in> set nodes. st_heap s a = Some n" if "a \<in> set (Stable res)" for a
  proof -
    have "set (Stable res) = node_Name ` set nodes" using calm [unfolded calm_def] stable by (metis mset_eq_setD list.set_map append_Nil2)
    with that heap show ?thesis by auto
  qed
  show "ReconcileOwnership E res b s = (Inr (), s)"
    using calm stable by (simp add: ReconcileOwnership_def calm_def go_then_def go_bind_def go_run)
  have "drift_node E (st_plan s) a s = (Inr (), s)" if a: "a \<in> set (Stable res)" for a
  proof -
    obtain n where n: "n \<in> set nodes" "st_heap s a = Some n" using node [OF a] by blast
    then have "DetectNodeDrift n (st_plan s) = (False, '''')"
      using owned [OF n(1)] on by (auto simp: DetectNodeDrift_def operator_cordoned_def Let_def)
    then show ?thesis using n(2) by (simp add: drift_node_def go_bind_def go_run)
  qed
  then show "ReconcileDrift E res s = (Inr (), s)"
    by (simp add: ReconcileDrift_def go_bind_def go_run go_for_idle)
  have "cordon_stable E (st_plan s) a s = (Inr (), s)" if a: "a \<in> set (Stable res)" for a
  proof -
    obtain n where n: "n \<in> set nodes" "st_heap s a = Some n" using node [OF a] by blast
    then have "CordonNode E a s = (Inr False, s)"
      by (intro CordonNode_already) (use owned [OF n(1)] in \<open>auto simp: operator_cordoned_def\<close>)
    then show ?thesis using n(2) on by (simp add: cordon_stable_def go_bind_def go_run go_map_err_def go_when_def)
  qed
  then show "ReconcileCordon E res s = (Inr (), s)"
    using calm by (simp add: ReconcileCordon_def calm_def go_then_def go_bind_def go_run go_for_idle)
qed

lemma cordoned_stay_stage:
  assumes heap: "\<And>n. n \<in> set nodes \<Longrightarrow> h (node_Name n) = Some n" and calm: "calm (map node_Name nodes) res" and stable: "ToAdopt res = []"
    and on: "cordonEnabled plan" and owned: "\<And>n. n \<in> set nodes \<Longrightarrow> operator_cordoned n \<and> Unschedulable n"
    and at: "\<And>s. P s \<Longrightarrow> \<exists>J. stage E ok plan h J s"
  shows "triple P (ReconcileOwnership E res b) (\<lambda>_. P) X" "triple P (ReconcileDrift E res) (\<lambda>_. P) X"
    "triple P (ReconcileCordon E res) (\<lambda>_. P) X"
proof -
  have "ReconcileOwnership E res b s = (Inr (), s)" "ReconcileDrift E res s = (Inr (), s)" "ReconcileCordon E res s = (Inr (), s)"
    if s: "P s" for s
  proof -
    have "cordonEnabled (st_plan s)" "st_heap s = h" using at [OF s] on by (auto simp: stage_def cordonEnabled_def)
    then show "ReconcileOwnership E res b s = (Inr (), s)" "ReconcileDrift E res s = (Inr (), s)" "ReconcileCordon E res s = (Inr (), s)"
      using cordoned_stay [OF _ calm stable _ owned, of s] heap by simp_all
  qed
  then show "triple P (ReconcileOwnership E res b) (\<lambda>_. P) X" "triple P (ReconcileDrift E res) (\<lambda>_. P) X"
    "triple P (ReconcileCordon E res) (\<lambda>_. P) X"
    by (simp_all add: triple_def)
qed

lemma ReconcileDrain_stage:
  assumes set: "settled E W plan cfg nodes" and L: "condition_laws E" and calm: "calm (map node_Name nodes) res" and stable: "Stable res = res_All res"
    and heap: "\<And>n. n \<in> set nodes \<Longrightarrow> h (node_Name n) = Some n"
  shows "triple (stage E idle_call plan h (entries_for E (res_All res))) (ReconcileDrain E res)
    (\<lambda>d s. d = 0 \<and> list_all idle_call (st_trace s) \<and> all_reported (map node_Name nodes) (st_plan s)) X"
  unfolding triple_def
proof (intro allI impI)
  note f = owned_facts [OF settled_facts(1) [OF set]] and empty = settled_facts(2) [OF set]
  fix s :: "'a st" assume s: "stage E idle_call plan h (entries_for E (res_All res)) s"
  obtain r t where run: "ReconcileDrain E res s = (r, t)" by force
  let ?p = "st_plan s"
  have at: "Spec ?p = Spec plan" "list_all idle_call (st_trace s)" "\<not> isConditionTrue E ?p ConditionDrainTimedOut"
    "\<not> isConditionTrue E ?p ConditionConflict"
    using s by (simp_all add: stage_def entries_for_def)
  obtain ns where ns: "map Some ns = map (st_heap s) (Stable res)" "set ns = set nodes"
      "mset (map ns_Name (status_Nodes (Status ?p))) = mset (map node_Name nodes)" "status_Nodes (Status ?p) \<noteq> []"
      "distinct (map ns_Name (status_Nodes (Status ?p)))"
      "\<forall>e \<in> set (status_Nodes (Status ?p)). Cordoned e \<and> ns_Name e \<in> node_Name ` set ns"
    by (rule drain_targets [OF heap calm stable f(7,8) s])
  have "getDrainConfig ?p = Some cfg" using f(13) at(1) by (simp add: getDrainConfig_def)
  moreover have "\<forall>n \<in> set ns. Unschedulable n \<and> isNodeReady n \<and> emptied E cfg (node_Name n)" using f(12) empty ns(2) by blast
  ultimately obtain cs p where p: "st_trace t = st_trace s @ cs @ [PatchPlanStatus ?p p]" "list_all lists_pods cs"
      "map ns_Name (status_Nodes (Status p)) = map ns_Name (status_Nodes (Status ?p))" "list_all ReadyForMaintenance (status_Nodes (Status p))"
      "AllNodesReadyForMaintenance (Status p)" "Phase (Status p) = PhaseReady" "st_plan t = p" "r = Inr noRequeue"
    using ReconcileDrain_ready [OF _ at(3) L ns(1) _ ns(4-6) run, of cfg] at(4) f(10) by auto
  have listed: "mset (map ns_Name (status_Nodes (Status p))) = mset (map node_Name nodes)" unfolding p(3) by (rule ns(3))
  have "lists_pods c \<Longrightarrow> idle_call c" for c by (cases c) simp_all
  then have "list_all idle_call (st_trace t)" using p(1,2) at(2) by (auto simp: list_all_iff)
  then show "case ReconcileDrain E res s of (Inl e, t) \<Rightarrow> X t
      | (Inr d, t) \<Rightarrow> d = 0 \<and> list_all idle_call (st_trace t) \<and> all_reported (map node_Name nodes) (st_plan t)"
    using p(4-8) listed by (simp add: run all_reported_def noRequeue_def del: mset_map)
qed

text \<open>
  The live pass over owned nodes, from what its writers do: the status, the preview and the
  drain, the last of which decides what is returned.
\<close>

lemma live_owned:
  fixes E :: "'w env"
  assumes own: "owned E W plan cfg nodes" and range: "range_laws E" and ok: "permits ok"
    and s: "st_plan s = plan" "W (st_world s)" "list_all idle_call (st_trace s)"
    and status: "\<And>res h. calm (map node_Name nodes) res \<Longrightarrow> (\<And>n. n \<in> set nodes \<Longrightarrow> h (node_Name n) = Some n) \<Longrightarrow>
      triple (\<lambda>s. stage E ok plan h (\<lambda>p. p = plan) s \<and> I0 s) (UpdateStatus E res)
        (\<lambda>_ s. stage E ok plan h (entries_for E (res_All res)) s \<and> I s) (\<lambda>_. False)"
    and preview: "\<And>res h. calm (map node_Name nodes) res \<Longrightarrow> (\<And>n. n \<in> set nodes \<Longrightarrow> h (node_Name n) = Some n) \<Longrightarrow>
      triple (\<lambda>s. stage E ok plan h (entries_for E (res_All res)) s \<and> I s) (ReconcilePreview E res)
        (\<lambda>_ s. stage E ok plan h (entries_for E (res_All res)) s \<and> I s) (\<lambda>_. False)"
    and drain: "\<And>res h. calm (map node_Name nodes) res \<Longrightarrow> Stable res = res_All res \<Longrightarrow>
      (\<And>n. n \<in> set nodes \<Longrightarrow> h (node_Name n) = Some n) \<Longrightarrow>
      triple (\<lambda>s. stage E ok plan h (entries_for E (res_All res)) s \<and> I s) (ReconcileDrain E res) Q (\<lambda>_. False)"
    and gauges: "\<And>d s g. Q d s \<Longrightarrow> Q d (s\<lparr>st_gauges := g\<rparr>)"
    and clock: "\<And>t :: 'w st. W (st_world t) \<Longrightarrow> I0 (t\<lparr>st_world := snd (k_clockNow E (st_world t))\<rparr>)"
  shows "\<exists>d t. reconcile_live E s = (Inr d, t) \<and> Q d t"
proof -
  note f = owned_facts [OF own]
  obtain res t1 where res: "ComputeOwnershipResolution E s = (Inr res, t1)" "calm (map node_Name nodes) res" "st_plan t1 = plan"
      "\<forall>n \<in> set nodes. st_heap t1 (node_Name n) = Some n" "list_all idle_call (st_trace t1)" "Stable res = res_All res" "ToAdopt res = []"
      "W (st_world t1)"
    using resolution_stable [OF own range s] by blast
  obtain now w where now: "k_clockNow E (st_world t1) = (now, w)" by force
  let ?sch = "schedule_at plan now" and ?h = "st_heap t1"
  have "drainEnabled plan" using f(13) by (auto simp: drainEnabled_def getDrainConfig_def split: option.splits if_splits)
  note due = schedule_due [OF f(15) [OF now] f(11) this]
  have heap: "\<And>n. n \<in> set nodes \<Longrightarrow> ?h (node_Name n) = Some n" using res(4) by blast
  have owned: "\<And>n. n \<in> set nodes \<Longrightarrow> operator_cordoned n \<and> Unschedulable n" using f(12) by blast
  let ?before = "\<lambda>s. stage E ok plan ?h (\<lambda>p. p = plan) s \<and> I0 s"
    and ?after = "\<lambda>s. stage E ok plan ?h (entries_for E (res_All res)) s \<and> I s"
  have before: "triple ?before (ReconcileOwnership E res b) (\<lambda>_. ?before) (\<lambda>_. False)" for b
    by (rule cordoned_stay_stage(1) [OF heap res(2,7) f(11) owned]) auto
  have after: "triple ?after (ReconcileDrift E res) (\<lambda>_. ?after) (\<lambda>_. False)" "triple ?after (ReconcileCordon E res) (\<lambda>_. ?after) (\<lambda>_. False)"
    by (rule cordoned_stay_stage(2,3) [OF heap res(2,7) f(11) owned]; auto)+
  have metrics: "triple (Q d) (let requeueAfter = (if d \<noteq> 0 then d else ps_RequeueAfter ?sch)
      in go_then (record_metrics RecordPlan) (go_ret requeueAfter)) Q (\<lambda>_. False)" for d :: duration
    using due(3) gauges by (cases "d = 0") (simp_all add: triple_def go_then_def go_bind_def record_metrics_def go_run)
  let ?rest = "(go_then (ReconcileOwnership E res (ShouldAct (ps_Cordon ?sch)))
      (go_then (UpdateStatus E res)
      (go_then (ReconcilePreview E res)
      (go_then (ReconcileDrift E res)
      (go_then (go_when (ShouldAct (ps_Cordon ?sch)) (ReconcileCordon E res))
      (go_bind (if ShouldAct (ps_Drain ?sch) then ReconcileDrain E res else go_ret 0) (\<lambda>drainRequeue.
       let requeueAfter = (if drainRequeue \<noteq> 0 then drainRequeue else ps_RequeueAfter ?sch) in
       go_then (record_metrics RecordPlan) (go_ret requeueAfter))))))))"
  have T: "triple (\<lambda>s. stage E ok plan ?h (\<lambda>p. p = plan) s \<and> I0 s) ?rest Q (\<lambda>_. False)"
    unfolding go_when_def if_P [OF due(1)] if_P [OF due(2)]
    by (rule triple_then [OF before], rule triple_then [OF status [OF res(2) heap]], assumption,
        rule triple_then [OF preview [OF res(2) heap]], assumption, rule triple_then [OF after(1)], rule triple_then [OF after(2)],
        rule triple_bind [OF drain [OF res(2,6) heap]], assumption, rule metrics)
  have "list_all ok (st_trace t1)" using res(5) permitsD [OF ok] by (simp add: list_all_iff)
  then have "stage E ok plan ?h (\<lambda>p. p = plan) (t1\<lparr>st_world := w\<rparr>) \<and> I0 (t1\<lparr>st_world := w\<rparr>)"
    using res(3) f(14) clock [OF res(8)] now by (simp add: stage_def)
  from triple_returns [OF T this] obtain d t where t: "?rest (t1\<lparr>st_world := w\<rparr>) = (Inr d, t)" "Q d t" by blast
  have "ensureFinalizer E s = (Inr (), s)" using f(3) s(1) by (simp add: ensureFinalizer_def go_bind_def go_run)
  moreover have "ComputeSchedule E t1 = (Inr ?sch, t1\<lparr>st_world := w\<rparr>)" using ComputeSchedule_run [OF now] res(3) by simp
  ultimately have "reconcile_live E s = ?rest (t1\<lparr>st_world := w\<rparr>)"
    by (simp only: reconcile_live_def go_then_def [of "ensureFinalizer E"] go_bind_def [of "ensureFinalizer E"] res(1)
        go_bind_def [of "ComputeOwnershipResolution E"] go_bind_def [of "ComputeSchedule E"] prod.case sum.case)
  with t show ?thesis by auto
qed

lemma live_becomes_ready:
  assumes set: "settled E W plan cfg nodes" and L: "condition_laws E" and range: "range_laws E"
    and s: "st_plan s = plan" "W (st_world s)" "list_all idle_call (st_trace s)"
  shows "\<exists>t. reconcile_live E s = (Inr 0, t) \<and> list_all idle_call (st_trace t) \<and> all_reported (map node_Name nodes) (st_plan t)"
proof -
  note own = settled_facts(1) [OF set] and empty = settled_facts(2) [OF set]
  note f = owned_facts [OF own]
  have idle: "permits idle_call" by (simp add: permits_def)
  have cordoned: "\<And>n. n \<in> set nodes \<Longrightarrow> Unschedulable n" using f(12) by blast
  have "\<exists>d t. reconcile_live E s = (Inr d, t) \<and> d = 0 \<and> list_all idle_call (st_trace t) \<and> all_reported (map node_Name nodes) (st_plan t)"
  proof (rule live_owned [where I = "\<lambda>_. True" and I0 = "\<lambda>_. True" and Q = "\<lambda>d s. d = 0 \<and> list_all idle_call (st_trace s) \<and>
      all_reported (map node_Name nodes) (st_plan s)", OF own range idle s])
    fix res h assume calm: "calm (map node_Name nodes) res" and heap: "\<And>n. n \<in> set nodes \<Longrightarrow> h (node_Name n) = Some n"
    show "triple (\<lambda>s. stage E idle_call plan h (\<lambda>p. p = plan) s \<and> True) (UpdateStatus E res)
        (\<lambda>_ s. stage E idle_call plan h (entries_for E (res_All res)) s \<and> True) (\<lambda>_. False)"
      using UpdateStatus_stage [OF heap calm L f(10) idle cordoned] by simp
    show "triple (\<lambda>s. stage E idle_call plan h (entries_for E (res_All res)) s \<and> True) (ReconcilePreview E res)
        (\<lambda>_ s. stage E idle_call plan h (entries_for E (res_All res)) s \<and> True) (\<lambda>_. False)"
      using ReconcilePreview_stage [OF f(10) idle f(13) calm heap empty] by simp
    show "triple (\<lambda>s. stage E idle_call plan h (entries_for E (res_All res)) s \<and> True) (ReconcileDrain E res)
        (\<lambda>d s. d = 0 \<and> list_all idle_call (st_trace s) \<and> all_reported (map node_Name nodes) (st_plan s)) (\<lambda>_. False)"
      if "Stable res = res_All res"
      using ReconcileDrain_stage [OF set L calm that heap] by simp
  qed simp_all
  then show ?thesis by blast
qed

section \<open>An example cluster\<close>

text \<open>One adopted and cordoned node, on which only a daemon set's pod is left.\<close>

definition settled_node :: Node where
  "settled_node = cordon_change (adopt_change (example_plan ''p'' [''a'']) True (example_node ''a''))"

definition settled_env :: "cluster env" where
  "settled_env = memory_env\<lparr>k_getPlan := \<lambda>_ w. (Inr (example_plan ''p'' [''a'']), w), k_getNode := \<lambda>_ w. (Inr settled_node, w),
     k_listNodes := \<lambda>_ w. (Inr [settled_node], w),
     k_listPods := \<lambda>_ w. (Inr [(example_pod ''agent'')\<lparr>OwnerReferences := [\<lparr>Kind = ''DaemonSet'', Controller = Some True\<rparr>]\<rparr>], w)\<rparr>"

definition example_config :: drainConfig where
  "example_config = \<lparr>IgnoreDaemonSets = True, DeleteEmptyDirData = False, Force = False,
     PodTerminationGracePeriodSeconds = None, RespectPodDisruptionBudgets = True\<rparr>"

lemma settled_node_facts:
  "node_Name settled_node = ''a''" "owner_of settled_node = ''p''" "operator_cordoned settled_node" "Unschedulable settled_node"
  "isNodeReady settled_node"
  by code_simp+

lemma settled_env_simps:
  "k_getPlan settled_env nm w = (Inr (example_plan ''p'' [''a'']), w)" "k_getNode settled_env nm w = (Inr settled_node, w)"
  "k_listNodes settled_env sel w = (Inr [settled_node], w)"
  "k_patchPlanStatus settled_env o1 m w = (Inr m, w\<lparr>cl_plans := replace_plan m (cl_plans w)\<rparr>)"
  "k_ContainsFinalizer settled_env fs f \<longleftrightarrow> f \<in> set fs" "k_FindStatusCondition settled_env = find_cond"
  by (simp_all add: settled_env_def memory_env_def)

lemma settled_example: "settled settled_env (\<lambda>_. True) (example_plan ''p'' [''a'']) example_config [settled_node]"
proof -
  have "emptied settled_env example_config ''a''"
    by (simp add: emptied_def settled_env_def pod_class_def example_config_def example_pod_def isDaemonSetPod_def)
  moreover have "pending_starts (example_plan ''p'' [''a'']) now = {}" for now
    by (simp add: pending_starts_def cordon_start_def drain_start_def example_plan_def example_spec_def)
  moreover have "getDrainConfig (example_plan ''p'' [''a'']) = Some example_config" "cordonEnabled (example_plan ''p'' [''a''])"
    "\<not> isConditionTrue settled_env (example_plan ''p'' [''a'']) ConditionDrainTimedOut"
    by code_simp+
  moreover have "plan_Name (example_plan ''p'' [''a'']) = ''p''" "plan_DeletionTimestamp (example_plan ''p'' [''a'']) = None"
    "Finalizers (example_plan ''p'' [''a'']) = [NodeMaintenancePlanFinalizer]"
    "NodeSelector (Spec (example_plan ''p'' [''a''])) = None" "spec_Nodes (Spec (example_plan ''p'' [''a''])) = [''a'']"
    by (simp_all add: example_plan_def example_spec_def)
  ultimately show ?thesis
    by (simp add: settled_def owned_def finds_def settled_node_facts accepts_status_def settled_env_simps)
qed

lemma settled_laws: "condition_laws settled_env" "range_laws settled_env"
  using memory_laws(1) memory_conditions by (simp_all add: condition_laws_def range_laws_def settled_env_def)

section \<open>Property\<close>

text \<open>
  C4. The promise of a plan, end to end: on a cluster where every node the plan names carries
  its mark and the operator's cordon, is ready, and has nothing left that a drain would move or
  wait for, and no start is pending, one pass of \<open>Reconcile\<close> from the request to the result
  succeeds without asking to be run again, patches no node and evicts or deletes no pod, and
  leaves exactly one entry per node, each ready for maintenance, and the plan in phase \<open>Ready\<close>.
\<close>

theorem settled_plan_becomes_ready:
  assumes settled: "settled E W plan cfg nodes" and L: "condition_laws E" and range: "range_laws E" and w: "W (st_world s)"
    and start: "st_trace s = []" and run: "Reconcile E (plan_Name plan) s = (r, t)"
  shows "r = Inr 0 \<and> list_all idle_call (st_trace t) \<and> all_reported (map node_Name nodes) (st_plan t)"
proof -
  obtain w' where w': "k_getPlan E (plan_Name plan) (st_world s) = (Inr plan, w')" "W w'"
    using owned_facts(1) [OF settled_facts(1) [OF settled] w] by blast
  let ?u = "s\<lparr>st_world := w', st_trace := st_trace s @ [GetPlan (plan_Name plan)], st_plan := plan\<rparr>"
  have "reconcile_live E ?u = (r, t)"
    using run Reconcile_found [OF w'(1)] owned_facts(2) [OF settled_facts(1) [OF settled]] by simp
  moreover have "st_plan ?u = plan" "W (st_world ?u)" "list_all idle_call (st_trace ?u)" using start w'(2) by simp_all
  ultimately show ?thesis using live_becomes_ready [OF settled L range, of ?u] by auto
qed

theorem settled_plan_becomes_ready_witness:
  "fst (Reconcile settled_env ''p'' (start_state (example_plan ''q'' []) empty_cluster)) = Inr 0 \<and>
   all_reported [''a''] (st_plan (snd (Reconcile settled_env ''p'' (start_state (example_plan ''q'' []) empty_cluster))))"
proof -
  have "st_trace (start_state (example_plan ''q'' []) empty_cluster) = []" by (simp add: start_state_def)
  from settled_plan_becomes_ready [OF settled_example settled_laws TrueI this prod.collapse [symmetric]]
  show ?thesis by (simp add: settled_node_facts example_plan_def)
qed

end
