(* ===== verification/Predicates.thy ===== *)
theory Predicates
  imports Drift
begin

text \<open>
  \<open>internal/controller/nodemaintenanceplan_predicates.go\<close>: which node updates wake the
  reconciler, and which plans a node event concerns.
\<close>

section \<open>Definitions\<close>

fun ready_status_loop :: "(string \<times> string) list \<Rightarrow> string" where
  "ready_status_loop [] = ''Unknown''"
| "ready_status_loop ((ty, st) # cs) = (if ty = ''Ready'' then st else ready_status_loop cs)"

definition getNodeReadyStatus :: "Node \<Rightarrow> string" where
  "getNodeReadyStatus node = ready_status_loop (node_Conditions node)"

definition nodeReadyConditionChanged :: "Node \<Rightarrow> Node \<Rightarrow> bool" where
  "nodeReadyConditionChanged old new \<longleftrightarrow> getNodeReadyStatus old \<noteq> getNodeReadyStatus new"

definition isManagedByOperator :: "Node \<Rightarrow> bool" where
  "isManagedByOperator node = (if Annotations node = None then False else mhas (Annotations node) ManagedByAnnotation)"

definition nodeRelevantChange :: "Node \<Rightarrow> Node \<Rightarrow> bool" where
  "nodeRelevantChange old new =
     (if Unschedulable old \<noteq> Unschedulable new then True
      else if \<not> mequal (Labels old) (Labels new) then True
      else if (isManagedByOperator old \<or> isManagedByOperator new) \<and> \<not> mequal (Annotations old) (Annotations new) then True
      else if node_DeletionTimestamp old = None \<and> node_DeletionTimestamp new \<noteq> None then True
      else if (isManagedByOperator old \<or> isManagedByOperator new) \<and> nodeReadyConditionChanged old new then True
      else False)"

text \<open>
  The events of the watch and the filter over them; an event carries objects of any kind, and
  \<open>None\<close> stands for one that is not a node.
\<close>

datatype watch_event = CreateEvent "Node option" | DeleteEvent "Node option"
  | UpdateEvent "Node option" "Node option" | GenericEvent "Node option"

definition nodeMaintenancePredicates :: "watch_event \<Rightarrow> bool" where
  "nodeMaintenancePredicates e = (case e of
     CreateEvent _ \<Rightarrow> True
   | DeleteEvent _ \<Rightarrow> True
   | UpdateEvent old new \<Rightarrow> (case old of
       None \<Rightarrow> False
     | Some oldNode \<Rightarrow> (case new of None \<Rightarrow> False | Some newNode \<Rightarrow> nodeRelevantChange oldNode newNode))
   | GenericEvent _ \<Rightarrow> False)"

definition nodeRelevantToPlan :: "'w env \<Rightarrow> Node \<Rightarrow> Plan \<Rightarrow> bool" where
  "nodeRelevantToPlan E node plan =
     (if mget (Annotations node) ManagedByAnnotation = plan_Name plan then True
      else if list_ex (\<lambda>nm. nm = node_Name node) (spec_Nodes (Spec plan)) then True
      else case NodeSelector (Spec plan) of
        None \<Rightarrow> False
      | Some sel \<Rightarrow> (case k_LabelSelectorAsSelector E sel of
            Inl err \<Rightarrow> False
          | Inr selector \<Rightarrow> selector (Labels node)))"

text \<open>\<open>nodeToPlans\<close> of the controller: the names of the plans to reconcile for a node event.\<close>

definition nodeToPlans :: "'w env \<Rightarrow> Node \<Rightarrow> ('w, string list) op" where
  "nodeToPlans E node = go_bind (go_try (client_call ListPlans (k_listPlans E))) (\<lambda>r. case r of
     Inl err \<Rightarrow> go_ret []
   | Inr plans \<Rightarrow> go_ret (map plan_Name (filter (nodeRelevantToPlan E node) plans)))"

text \<open>
  The filter over plan events of \<open>SetupWithManager\<close>: an update passes when the generation
  changed or the new object is being deleted; all other events pass
  (\<open>GenerationChangedPredicate\<close> filters updates only).
\<close>

datatype plan_event = PlanCreate Plan | PlanUpdate Plan Plan | PlanDelete Plan | PlanGeneric Plan

definition generation_changed :: "plan_event \<Rightarrow> bool" where
  "generation_changed e = (case e of PlanUpdate old new \<Rightarrow> Generation new \<noteq> Generation old | _ \<Rightarrow> True)"

definition being_deleted :: "plan_event \<Rightarrow> bool" where
  "being_deleted e = (case e of PlanCreate p \<Rightarrow> plan_DeletionTimestamp p \<noteq> None
     | PlanUpdate old new \<Rightarrow> plan_DeletionTimestamp new \<noteq> None
     | PlanDelete p \<Rightarrow> plan_DeletionTimestamp p \<noteq> None | PlanGeneric p \<Rightarrow> plan_DeletionTimestamp p \<noteq> None)"

definition planPredicate :: "plan_event \<Rightarrow> bool" where
  "planPredicate e \<longleftrightarrow> generation_changed e \<or> being_deleted e"

text \<open>A selector looks at the contents of the labels, not at how the map is held.\<close>

definition selector_laws :: "'w env \<Rightarrow> bool" where
  "selector_laws E \<longleftrightarrow> (\<forall>sel f a b. k_LabelSelectorAsSelector E sel = Inr f \<longrightarrow> mequal a b \<longrightarrow> f a = f b)"

text \<open>What a reconcile pass of a plan reads off a node.\<close>

definition same_view :: "'w env \<Rightarrow> Plan \<Rightarrow> Node \<Rightarrow> Node \<Rightarrow> bool" where
  "same_view E plan old new \<longleftrightarrow> owner_of new = owner_of old \<and> Unschedulable new = Unschedulable old \<and>
     DetectNodeDrift new plan = DetectNodeDrift old plan \<and>
     nodeRelevantToPlan E new plan = nodeRelevantToPlan E old plan \<and>
     (owner_of old = plan_Name plan \<longrightarrow> isNodeReady new = isNodeReady old \<and>
        mget (Annotations new) CordonedAnnotation = mget (Annotations old) CordonedAnnotation)"

section \<open>Lemmas\<close>

lemma ready_status_ready: "isNodeReady node \<longleftrightarrow> getNodeReadyStatus node = ''True''"
proof -
  have "ready_condition cs \<longleftrightarrow> ready_status_loop cs = ''True''" for cs
    by (induction cs rule: ready_condition.induct) auto
  then show ?thesis by (simp add: isNodeReady_def getNodeReadyStatus_def)
qed

lemma unmanaged_owner: "\<not> isManagedByOperator node \<Longrightarrow> owner_of node = ''''"
  by (auto simp: isManagedByOperator_def owner_of_def mget_not_mhas split: if_splits)

lemma relevant_labels:
  assumes "selector_laws E" "mequal (Labels old) (Labels new)" "owner_of new = owner_of old" "node_Name new = node_Name old"
  shows "nodeRelevantToPlan E new plan = nodeRelevantToPlan E old plan"
  using assms
  by (auto simp: nodeRelevantToPlan_def owner_of_def selector_laws_def split: option.split sum.split)

text \<open>
  An update of a plan that keeps its generation, as the patches of the status and of the
  finalizers do, does not wake the reconciler unless the plan is being deleted.
\<close>

lemma own_patches_do_not_wake:
  "Generation new = Generation old \<Longrightarrow> planPredicate (PlanUpdate old new) \<longleftrightarrow> plan_DeletionTimestamp new \<noteq> None"
  by (simp add: planPredicate_def generation_changed_def being_deleted_def)

lemma ignored_update_view:
  assumes ignored: "\<not> nodeMaintenancePredicates (UpdateEvent (Some old) (Some new))" and name: "node_Name new = node_Name old"
    and sel: "selector_laws E" and plan: "plan_Name plan \<noteq> ''''"
  shows "same_view E plan old new"
proof -
  have un: "Unschedulable new = Unschedulable old" and lab: "mequal (Labels old) (Labels new)"
    and managed: "isManagedByOperator old \<or> isManagedByOperator new \<Longrightarrow>
      mequal (Annotations old) (Annotations new) \<and> getNodeReadyStatus old = getNodeReadyStatus new"
    using ignored by (auto simp: nodeMaintenancePredicates_def nodeRelevantChange_def nodeReadyConditionChanged_def split: if_splits)
  show ?thesis
  proof (cases "isManagedByOperator old \<or> isManagedByOperator new")
    case True
    then have ann: "mget (Annotations old) k = mget (Annotations new) k" "(Annotations old = None) = (Annotations new = None)"
      and ready: "isNodeReady new = isNodeReady old" for k
      using managed by (auto simp: mequal_iff ready_status_ready)
    then have owner: "owner_of new = owner_of old" by (simp add: owner_of_def)
    moreover have "DetectNodeDrift new plan = DetectNodeDrift old plan"
      unfolding DetectNodeDrift_def un name ann [symmetric] by (rule refl)
    ultimately show ?thesis
      using un ready ann relevant_labels [OF sel lab owner name] by (simp add: same_view_def)
  next
    case False
    then have owner: "owner_of new = ''''" "owner_of old = ''''" by (simp_all add: unmanaged_owner)
    then show ?thesis
      using un plan relevant_labels [OF sel lab _ name]
      by (simp add: same_view_def DetectNodeDrift_unowned)
  qed
qed

lemma changed_update_passes:
  "\<not> same_view E plan old new \<Longrightarrow> node_Name new = node_Name old \<Longrightarrow> selector_laws E \<Longrightarrow> plan_Name plan \<noteq> '''' \<Longrightarrow>
   nodeMaintenancePredicates (UpdateEvent (Some old) (Some new))"
  using ignored_update_view by blast

section \<open>Properties\<close>



text \<open>
  A node event reaches the plans it concerns: the plan that owns the node, every plan that
  lists it, and every plan whose selector matches its labels, and no other.
\<close>

theorem nodeToPlans_exact:
  assumes "k_listPlans E (st_world s) = (Inr plans, w)"
  shows "\<exists>names t. nodeToPlans E node s = (Inr names, t) \<and>
    set names = plan_Name ` {plan \<in> set plans. owner_of node = plan_Name plan \<or> node_Name node \<in> set (spec_Nodes (Spec plan)) \<or>
      (\<exists>sel f. NodeSelector (Spec plan) = Some sel \<and> k_LabelSelectorAsSelector E sel = Inr f \<and> f (Labels node))}"
proof -
  have rel: "nodeRelevantToPlan E node plan \<longleftrightarrow> owner_of node = plan_Name plan \<or> node_Name node \<in> set (spec_Nodes (Spec plan)) \<or>
      (\<exists>sel f. NodeSelector (Spec plan) = Some sel \<and> k_LabelSelectorAsSelector E sel = Inr f \<and> f (Labels node))" for plan
    by (auto simp: nodeRelevantToPlan_def owner_of_def list_ex_iff split: option.split sum.split)
  have "\<exists>t. nodeToPlans E node s = (Inr (map plan_Name (filter (nodeRelevantToPlan E node) plans)), t)"
    by (simp add: nodeToPlans_def go_bind_def go_try_def client_call_def assms go_ret_def)
  then obtain t where "nodeToPlans E node s = (Inr (map plan_Name (filter (nodeRelevantToPlan E node) plans)), t)" ..
  then show ?thesis by (intro exI conjI) (assumption, simp add: rel)
qed

theorem nodeToPlans_exact_witness:
  "\<exists>names t. nodeToPlans memory_env (example_node ''a'') (start_state (example_plan ''p'' [])
     (empty_cluster\<lparr>cl_plans := [example_plan ''p'' [''a''], example_plan ''q'' [''b'']]\<rparr>)) = (Inr names, t) \<and> set names = {''p''}"
proof -
  let ?s = "start_state (example_plan ''p'' []) (empty_cluster\<lparr>cl_plans := [example_plan ''p'' [''a''], example_plan ''q'' [''b'']]\<rparr>)"
  have "k_listPlans memory_env (st_world ?s) = (Inr [example_plan ''p'' [''a''], example_plan ''q'' [''b'']], st_world ?s)"
    by (simp add: memory_env_def start_state_def)
  from nodeToPlans_exact [OF this, of "example_node ''a''"]
  obtain names t where "nodeToPlans memory_env (example_node ''a'') ?s = (Inr names, t)"
    and "set names = plan_Name ` {plan \<in> set [example_plan ''p'' [''a''], example_plan ''q'' [''b'']].
      owner_of (example_node ''a'') = plan_Name plan \<or> node_Name (example_node ''a'') \<in> set (spec_Nodes (Spec plan)) \<or>
      (\<exists>sel f. NodeSelector (Spec plan) = Some sel \<and> k_LabelSelectorAsSelector memory_env sel = Inr f \<and> f (Labels (example_node ''a'')))}"
    by blast
  moreover have "{plan \<in> set [example_plan ''p'' [''a''], example_plan ''q'' [''b'']].
      owner_of (example_node ''a'') = plan_Name plan \<or> node_Name (example_node ''a'') \<in> set (spec_Nodes (Spec plan)) \<or>
      (\<exists>sel f. NodeSelector (Spec plan) = Some sel \<and> k_LabelSelectorAsSelector memory_env sel = Inr f \<and> f (Labels (example_node ''a'')))}
      = {example_plan ''p'' [''a'']}"
    by (auto simp: example_plan_def example_spec_def example_node_def owner_of_def)
  ultimately show ?thesis by (auto simp: example_plan_def)
qed

end
