(* ===== verification/First_Pass.thy ===== *)
theory First_Pass
  imports Pass_Ready Predicates
begin

text \<open>
  The first pass over a new plan, on a server that stores what it is sent and that nobody else
  writes to (\<open>stored_laws\<close>): it puts the finalizer on, adopts and cordons every node, and asks
  for no requeue; it is the updates of its own patches that wake the reconciler, and the next
  pass finds the nodes \<open>owned\<close>.
\<close>

section \<open>Definitions\<close>

text \<open>The requests that leave the stored nodes and plans alone.\<close>

fun leaves_objects :: "call \<Rightarrow> bool" where
  "leaves_objects (PatchNode _ _) = False"
| "leaves_objects (PatchPlan _ _) = False"
| "leaves_objects (PatchPlanStatus _ _) = False"
| "leaves_objects _ = True"

text \<open>
  A server as the reconciler sees it when it alone writes: \<open>nd\<close> and \<open>pl\<close> read the stored nodes
  and the stored plan off the world. Reads answer with what is stored, a patch computed from
  the stored object is stored and comes back.
\<close>

definition stored_laws :: "'w env \<Rightarrow> ('w \<Rightarrow> string \<Rightarrow> Node option) \<Rightarrow> ('w \<Rightarrow> Plan) \<Rightarrow> bool" where
  "stored_laws E nd pl \<longleftrightarrow>
     (\<forall>c g w. leaves_objects c \<longrightarrow> served E c g \<longrightarrow> nd (g w) = nd w \<and> pl (g w) = pl w) \<and>
     (\<forall>w. nd (snd (k_clockNow E w)) = nd w \<and> pl (snd (k_clockNow E w)) = pl w) \<and>
     (\<forall>w. nd (snd (k_metaNow E w)) = nd w \<and> pl (snd (k_metaNow E w)) = pl w) \<and>
     (\<forall>nm w n. nd w nm = Some n \<longrightarrow> node_Name n = nm \<and> (\<exists>w'. k_getNode E nm w = (Inr n, w'))) \<and>
     (\<forall>w. \<exists>items w'. k_listNodes E None w = (Inr items, w') \<and> (\<forall>n \<in> set items. nd w (node_Name n) = Some n)) \<and>
     (\<forall>w. \<exists>w'. k_getPlan E (plan_Name (pl w)) w = (Inr (pl w), w')) \<and>
     (\<forall>o1 m w. nd w (node_Name o1) = Some o1 \<longrightarrow> node_Name m = node_Name o1 \<longrightarrow>
        (\<exists>w'. k_patchNode E o1 m w = (Inr m, w') \<and> nd w' = (nd w)(node_Name o1 \<mapsto> m) \<and> pl w' = pl w)) \<and>
     (\<forall>m w. \<exists>w'. k_patchPlan E (pl w) m w = (Inr m, w') \<and> nd w' = nd w \<and> pl w' = m) \<and>
     (\<forall>o1 m w. \<exists>w'. k_patchPlanStatus E o1 m w = (Inr m, w') \<and> nd w' = nd w \<and> pl w' = m)"

text \<open>A plan that was just created, its phases due, its nodes free and ready.\<close>

definition fresh :: "'w env \<Rightarrow> (string \<Rightarrow> Node option) \<Rightarrow> Plan \<Rightarrow> drainConfig \<Rightarrow> Node list \<Rightarrow> bool" where
  "fresh E N plan cfg nodes \<longleftrightarrow>
     plan_DeletionTimestamp plan = None \<and> plan_Name plan \<noteq> '''' \<and> NodeSelector (Spec plan) = None \<and>
     spec_Nodes (Spec plan) = map node_Name nodes \<and> nodes \<noteq> [] \<and> distinct (map node_Name nodes) \<and>
     status_Nodes (Status plan) = [] \<and> \<not> isConditionTrue E plan ConditionDrainTimedOut \<and>
     cordonEnabled plan \<and> getDrainConfig plan = Some cfg \<and>
     (\<forall>w now w'. k_clockNow E w = (now, w') \<longrightarrow> pending_starts plan now = {}) \<and>
     (\<forall>n \<in> set nodes. N (node_Name n) = Some n \<and> owner_of n = '''' \<and> isNodeReady n) \<and>
     (\<forall>a n. N a = Some n \<longrightarrow> owner_of n \<noteq> plan_Name plan)"

abbreviation adopted :: "Plan \<Rightarrow> Node \<Rightarrow> Node" where
  "adopted plan \<equiv> adopt_change plan True"

text \<open>The calls of the first pass: besides those that change nothing, the adoption of one of the nodes.\<close>

definition adopting :: "Plan \<Rightarrow> Node list \<Rightarrow> call \<Rightarrow> bool" where
  "adopting plan nodes c \<longleftrightarrow> idle_call c \<or> (\<exists>n \<in> set nodes. c = PatchNode n (adopted plan n))"

text \<open>The nodes while some are still to be adopted.\<close>

definition adopted_but :: "Plan \<Rightarrow> string set \<Rightarrow> string set \<Rightarrow> (string \<Rightarrow> Node option) \<Rightarrow> string \<Rightarrow> Node option" where
  "adopted_but plan names rest N a = (if a \<in> names - rest then map_option (adopted plan) (N a) else N a)"

text \<open>
  A node update that wakes the reconciler for the plan: it passes the filter of the watch, and
  the new object is mapped to the plan.
\<close>

definition wakes :: "'w env \<Rightarrow> Plan \<Rightarrow> Node \<Rightarrow> Node \<Rightarrow> bool" where
  "wakes E plan old new \<longleftrightarrow> nodeMaintenancePredicates (UpdateEvent (Some old) (Some new)) \<and> nodeRelevantToPlan E new plan"

definition keeps_store :: "'w env \<Rightarrow> ('w \<Rightarrow> string \<Rightarrow> Node option) \<Rightarrow> ('w \<Rightarrow> Plan) \<Rightarrow> 'w st \<Rightarrow> 'w st \<Rightarrow> bool" where
  "keeps_store E nd pl s t \<longleftrightarrow> trace_within (\<lambda>_. True) s t \<and>
     (stored_laws E nd pl \<longrightarrow> nd (st_world t) = nd (st_world s) \<and> same_plan (st_plan t) (st_plan s))"

text \<open>What only evictions and deletions of pods change of the world.\<close>

fun keeps_pods :: "call \<Rightarrow> bool" where
  "keeps_pods (EvictPod _ _) = False"
| "keeps_pods (DeletePod _) = False"
| "keeps_pods _ = True"

definition kept_by :: "'w env \<Rightarrow> ('w \<Rightarrow> 'a) \<Rightarrow> bool" where
  "kept_by E f \<longleftrightarrow> (\<forall>c g w. keeps_pods c \<longrightarrow> served E c g \<longrightarrow> f (g w) = f w) \<and>
     (\<forall>w. f (snd (k_clockNow E w)) = f w) \<and> (\<forall>w. f (snd (k_metaNow E w)) = f w)"

definition keeps_read :: "'w env \<Rightarrow> ('w \<Rightarrow> 'a) \<Rightarrow> 'w st \<Rightarrow> 'w st \<Rightarrow> bool" where
  "keeps_read E f s t \<longleftrightarrow> (kept_by E f \<longrightarrow> f (st_world t) = f (st_world s))"

section \<open>What the server promises\<close>

lemma stored_facts:
  assumes "stored_laws E nd pl"
  shows "\<And>c g w. leaves_objects c \<Longrightarrow> served E c g \<Longrightarrow> nd (g w) = nd w \<and> pl (g w) = pl w"
    "\<And>w. nd (snd (k_clockNow E w)) = nd w \<and> pl (snd (k_clockNow E w)) = pl w"
    "\<And>w. nd (snd (k_metaNow E w)) = nd w \<and> pl (snd (k_metaNow E w)) = pl w"
    "\<And>nm w n. nd w nm = Some n \<Longrightarrow> node_Name n = nm \<and> (\<exists>w'. k_getNode E nm w = (Inr n, w'))"
    "\<And>w. \<exists>items w'. k_listNodes E None w = (Inr items, w') \<and> (\<forall>n \<in> set items. nd w (node_Name n) = Some n)"
    "\<And>w. \<exists>w'. k_getPlan E (plan_Name (pl w)) w = (Inr (pl w), w')"
    "\<And>o1 m w. nd w (node_Name o1) = Some o1 \<Longrightarrow> node_Name m = node_Name o1 \<Longrightarrow>
        \<exists>w'. k_patchNode E o1 m w = (Inr m, w') \<and> nd w' = (nd w)(node_Name o1 \<mapsto> m) \<and> pl w' = pl w"
    "\<And>m w. \<exists>w'. k_patchPlan E (pl w) m w = (Inr m, w') \<and> nd w' = nd w \<and> pl w' = m"
    "\<And>o1 m w. \<exists>w'. k_patchPlanStatus E o1 m w = (Inr m, w') \<and> nd w' = nd w \<and> pl w' = m"
  using assms unfolding stored_laws_def by blast+

lemma status_stored:
  assumes "stored_laws E nd pl" "k_patchPlanStatus E o1 m w = (r, w')"
  shows "r = Inr m" "nd w' = nd w" "pl w' = m"
  using stored_facts(9) [OF assms(1), of o1 m w] assms(2) by auto

lemma status_stored_world: "stored_laws E nd pl \<Longrightarrow> nd (snd (k_patchPlanStatus E o1 m w)) = nd w"
  by (rule status_stored(2) [OF _ prod.collapse [symmetric]])

lemma stored_accepts:
  assumes "stored_laws E nd pl"
  shows "accepts_status E"
  unfolding accepts_status_def using stored_facts(9) [OF assms] by metis

interpretation pass_store: pass_effect "keeps_store E nd pl" E "\<lambda>c. leaves_objects c \<or> (\<exists>o1 m. c = PatchPlanStatus o1 m)"
  for E :: "'w env" and nd pl
proof (unfold_locales, goal_cases)
  case (1 s)
  show ?case by (simp add: keeps_store_def tr.R_refl)
next
  case (2 s t u)
  then show ?case by (auto simp: keeps_store_def same_plan_def intro: tr.R_trans)
next
  case (7 c g s)
  have "stored_laws E nd pl \<Longrightarrow> nd (g (st_world s)) = nd (st_world s)"
    using 7 stored_facts(1) [of E nd pl c g] by (auto simp: status_stored_world)
  then show ?case by (simp add: keeps_store_def trace_within_def)
next
  case (8 o1 s p w)
  then show ?case using status_stored(1) by (fastforce simp: keeps_store_def tr.R_refl trace_within_def)
qed (auto simp: keeps_store_def trace_within_def same_plan_def stored_facts(2,3))

interpretation pass_read: pass_effect "keeps_read E f" E keeps_pods for E :: "'w env" and f :: "'w \<Rightarrow> 'a"
  by unfold_locales (auto simp: keeps_read_def kept_by_def)

lemma kept_served: "kept_by E f \<Longrightarrow> keeps_pods c \<Longrightarrow> served E c g \<Longrightarrow> f (g w) = f w"
  unfolding kept_by_def by blast

section \<open>Adoption\<close>

lemma adopted_facts:
  "node_Name (adopted plan n) = node_Name n" "owner_of (adopted plan n) = plan_Name plan" "operator_cordoned (adopted plan n)"
  "Unschedulable (adopted plan n)" "isNodeReady (adopted plan n) = isNodeReady n"
  by (simp_all add: adopt.mut_name adopt_owner operator_cordoned_def adopt.mut_ready)

text \<open>Between two adoptions.\<close>

definition mid_adoption :: "('w \<Rightarrow> string \<Rightarrow> Node option) \<Rightarrow> ('w \<Rightarrow> Plan) \<Rightarrow> Plan \<Rightarrow> Node list \<Rightarrow> (string \<Rightarrow> Node option)
    \<Rightarrow> (string \<Rightarrow> Node option) \<Rightarrow> string list \<Rightarrow> 'w st \<Rightarrow> bool" where
  "mid_adoption nd pl plan nodes h N rest s \<longleftrightarrow> distinct rest \<and> set rest \<subseteq> node_Name ` set nodes \<and>
     st_plan s = plan \<and> pl (st_world s) = plan \<and> list_all (adopting plan nodes) (st_trace s) \<and>
     (\<forall>n \<in> set nodes. node_Name n \<notin> set rest \<longrightarrow> PatchNode n (adopted plan n) \<in> set (st_trace s)) \<and>
     st_heap s = adopted_but plan (node_Name ` set nodes) (set rest) h \<and>
     nd (st_world s) = adopted_but plan (node_Name ` set nodes) (set rest) N"

lemma adopted_but_next:
  assumes "a \<in> names" "N a = Some n" "a \<notin> rest"
  shows "adopted_but plan names (insert a rest) N a = Some n"
    "(adopted_but plan names (insert a rest) N)(a \<mapsto> adopted plan n) = adopted_but plan names rest N"
  using assms by (auto simp: adopted_but_def fun_eq_iff)

lemma adopt_next:
  assumes L: "stored_laws E nd pl" and found: "\<And>n. n \<in> set nodes \<Longrightarrow> h (node_Name n) = Some n \<and> N (node_Name n) = Some n"
    and none: "status_Nodes (Status plan) = []" and on: "cordonEnabled plan"
  shows "triple (mid_adoption nd pl plan nodes h N (a # rest)) (adopt_one E plan True a) (\<lambda>_. mid_adoption nd pl plan nodes h N rest) (\<lambda>_. False)"
  unfolding triple_def
proof (intro allI impI)
  fix s assume s: "mid_adoption nd pl plan nodes h N (a # rest) s"
  then obtain n where n: "n \<in> set nodes" "a = node_Name n" "a \<notin> set rest" by (auto simp: mid_adoption_def)
  let ?names = "node_Name ` set nodes"
  have hN: "h a = Some n" "N a = Some n" "a \<in> ?names" using found [OF n(1)] n by auto
  note next_h = adopted_but_next [of a ?names h n "set rest" plan, OF hN(3,1) n(3)]
    and next_N = adopted_but_next [of a ?names N n "set rest" plan, OF hN(3,2) n(3)]
  have at: "st_heap s a = Some n" "nd (st_world s) a = Some n" using s next_h(1) next_N(1) by (simp_all add: mid_adoption_def)
  obtain w where w: "k_patchNode E n (adopted plan n) (st_world s) = (Inr (adopted plan n), w)"
      "nd w = (nd (st_world s))(a \<mapsto> adopted plan n)" "pl w = pl (st_world s)"
    using stored_facts(7) [OF L, of "st_world s" n "adopted plan n"] at(2) n(2) adopted_facts(1) by auto
  let ?t = "s\<lparr>st_world := w, st_trace := st_trace s @ [PatchNode n (adopted plan n)], st_heap := (st_heap s)(a := Some (adopted plan n))\<rparr>"
  have plan: "st_plan s = plan" using s by (simp add: mid_adoption_def)
  have "patch_node E a (adopted plan) s = (Inr (), ?t)" using at(1) w(1) by (simp add: patch_node_Inr)
  then have "\<exists>evs. AdoptNode E a True s = (Inr (), ?t\<lparr>st_events := evs\<rparr>)"
    using plan by (simp add: AdoptNode_def go_bind_def go_then_def go_run Eventf_def) (rule exI, rule refl)
  moreover have "GetNodeDriftState plan nm = (False, '''')" "\<not> nodeCompletedMaintenance plan nm" for nm
    using none by (simp_all add: GetNodeDriftState_def nodeCompletedMaintenance_def find_status_def)
  ultimately obtain evs where run: "adopt_one E plan True a s = (Inr (), ?t\<lparr>st_events := evs\<rparr>)"
    using at(1) on by (auto simp: adopt_one_def go_bind_def go_run go_map_err_def)
  have same: "m = n" if "m \<in> set nodes" "node_Name m = a" for m using found [OF that(1)] hN(2) that(2) by simp
  note at_s = s [unfolded mid_adoption_def]
  have patched: "PatchNode m (adopted plan m) \<in> set (st_trace s @ [PatchNode n (adopted plan n)])"
    if m: "m \<in> set nodes" "node_Name m \<notin> set rest" for m
  proof (cases "node_Name m = a")
    case True
    with same [OF m(1)] show ?thesis by simp
  next
    case False
    with at_s m show ?thesis by simp
  qed
  have new: "adopting plan nodes (PatchNode n (adopted plan n))" using n(1) by (auto simp: adopting_def)
  have "st_heap s = adopted_but plan ?names (insert a (set rest)) h" "nd (st_world s) = adopted_but plan ?names (insert a (set rest)) N"
    using at_s by simp_all
  with next_h(2) next_N(2) w(2) have stores: "(st_heap s)(a \<mapsto> adopted plan n) = adopted_but plan ?names (set rest) h"
    "nd w = adopted_but plan ?names (set rest) N"
    by simp_all
  have "mid_adoption nd pl plan nodes h N rest (?t\<lparr>st_events := evs\<rparr>)"
    unfolding mid_adoption_def using at_s patched new stores w(3) by simp
  then show "case adopt_one E plan True a s of (Inl e, t) \<Rightarrow> False | (Inr x, t) \<Rightarrow> mid_adoption nd pl plan nodes h N rest t"
    by (simp add: run)
qed

lemma ReconcileOwnership_adopts:
  assumes L: "stored_laws E nd pl" and found: "\<And>n. n \<in> set nodes \<Longrightarrow> h (node_Name n) = Some n \<and> N (node_Name n) = Some n"
    and none: "status_Nodes (Status plan) = []" and on: "cordonEnabled plan" and quiet: "Conflicting res = []"
  shows "triple (mid_adoption nd pl plan nodes h N (ToAdopt res)) (ReconcileOwnership E res True)
    (\<lambda>_. mid_adoption nd pl plan nodes h N []) (\<lambda>_. False)"
proof -
  have get: "triple (mid_adoption nd pl plan nodes h N (ToAdopt res)) get_plan
      (\<lambda>p s. mid_adoption nd pl plan nodes h N (ToAdopt res) s \<and> p = plan) (\<lambda>_. False)"
    by (rule triple_get_plan) (simp add: mid_adoption_def)
  have loop: "triple (mid_adoption nd pl plan nodes h N (ToAdopt res)) (go_for (ToAdopt res) (adopt_one E plan True))
      (\<lambda>_. mid_adoption nd pl plan nodes h N []) (\<lambda>_. False)"
    by (rule triple_for_rest) (rule adopt_next [OF L found none on])
  show ?thesis unfolding ReconcileOwnership_def quiet go_for.simps
    by (rule triple_then [OF triple_ret], assumption, rule triple_bind [OF get], rule triple_fact, hypsubst, rule loop)
qed

lemma read_patch_node: "obeys (keeps_read E f) (patch_node E a change)"
proof -
  have "obeys (keeps_read E f) (store_node a n)" for n by (simp add: obeys_def go_run keeps_read_def)
  then show ?thesis unfolding patch_node_def
    by (intro pass_read.obeys_bind pass_read.obeys_then pass_read.obeys_load_node pass_read.obeys_client_call) simp_all
qed

lemma ReconcileOwnership_read: "obeys (keeps_read E f) (ReconcileOwnership E res b)"
  unfolding ReconcileOwnership_def adopt_one_def AdoptNode_def conflict_event_def Let_def
  by (intro pass_read.obeys_intros pass_read.obeys_prims read_patch_node)

section \<open>The rest of the first pass\<close>

lemma triple_keeping:
  assumes "triple P m Q (\<lambda>_. False)" "obeys R m" "\<And>s t. I s \<Longrightarrow> R s t \<Longrightarrow> I t"
  shows "triple (\<lambda>s. P s \<and> I s) m (\<lambda>x s. Q x s \<and> I s) (\<lambda>_. False)"
  unfolding triple_def
proof (intro allI impI)
  fix s assume s: "P s \<and> I s"
  obtain x t where run: "m s = (Inr x, t)" "Q x t" using triple_returns [OF assms(1)] s by blast
  have "R s t" by (rule obeysD [OF assms(2) run(1)])
  with assms(3) s have "I t" by blast
  with run show "case m s of (Inl e, t) \<Rightarrow> False | (Inr x, t) \<Rightarrow> Q x t \<and> I t" by simp
qed

lemma triple_both:
  assumes "triple P m Q (\<lambda>_. False)" "triple P' m Q' X"
  shows "triple (\<lambda>s. P s \<and> P' s) m (\<lambda>x s. Q x s \<and> Q' x s) (\<lambda>_. False)"
  unfolding triple_def
proof (intro allI impI)
  fix s assume s: "P s \<and> P' s"
  obtain x t where "m s = (Inr x, t)" "Q x t" using triple_returns [OF assms(1)] s by blast
  then show "case m s of (Inl e, t) \<Rightarrow> False | (Inr x, t) \<Rightarrow> Q x t \<and> Q' x t" using assms(2) s by (fastforce simp: triple_def)
qed

text \<open>The plan of the pass is the stored one.\<close>

definition synced :: "('w \<Rightarrow> Plan) \<Rightarrow> 'w st \<Rightarrow> bool" where
  "synced pl s \<longleftrightarrow> pl (st_world s) = st_plan s"

lemma synced_patch:
  fixes E :: "'w env"
  assumes "stored_laws E nd pl"
  shows "triple P (patch_plan_status E original) (\<lambda>_. synced pl) X"
proof (rule triple_patch_plan_status)
  fix s :: "'w st" and p w assume "k_patchPlanStatus E original (st_plan s) (st_world s) = (Inr p, w)"
  from status_stored [OF assms this] show "synced pl (s\<lparr>st_world := w, st_trace := st_trace s @ [PatchPlanStatus original (st_plan s)], st_plan := p\<rparr>)"
    by (simp add: synced_def)
next
  fix s :: "'w st" and e w assume "k_patchPlanStatus E original (st_plan s) (st_world s) = (Inl e, w)"
  from status_stored(1) [OF assms this] show "X (s\<lparr>st_world := w, st_trace := st_trace s @ [PatchPlanStatus original (st_plan s)]\<rparr>)"
    by simp
qed

lemma UpdateStatus_synced:
  assumes L: "stored_laws E nd pl" and heap: "\<And>a. a \<in> set (res_All res @ ToRelease res) \<Longrightarrow> h a \<noteq> None"
  shows "triple (stage E ok plan h (\<lambda>p. p = plan)) (UpdateStatus E res) (\<lambda>_. synced pl) (\<lambda>_. False)"
proof (rule triple_ghost [where P' = "\<lambda>s. sits plan h (st_trace s)"])
  fix s assume "stage E ok plan h (\<lambda>p. p = plan) s"
  then show "sits plan h (st_trace s) s" by (simp add: stage_def sits_def)
  show "triple (sits plan h (st_trace s)) (UpdateStatus E res) (\<lambda>_. synced pl) (\<lambda>_. False)"
    by (rule UpdateStatus_to_patch [OF heap synced_patch [OF L]])
qed

lemma triple_any: "triple P m (\<lambda>_ _. True) (\<lambda>_. True)"
  by (simp add: triple_def split: prod.split sum.split)

lemma ReconcilePreview_synced:
  assumes L: "stored_laws E nd pl"
  shows "triple (synced pl) (ReconcilePreview E res) (\<lambda>_. synced pl) (\<lambda>_. True)"
proof -
  have load: "triple (synced pl) (load_nodes as) (\<lambda>_. synced pl) (\<lambda>_. True)" for as
  proof (induction as)
    case Nil
    show ?case unfolding load_nodes.simps by (rule triple_ret)
  next
    case (Cons a as)
    have "triple (synced pl) (load_node a) (\<lambda>_. synced pl) (\<lambda>_. True)" by (rule triple_load_node) simp_all
    then show ?case unfolding load_nodes.simps
      by (rule triple_bind) (rule triple_bind [OF Cons.IH], rule triple_ret)
  qed
  show ?thesis unfolding ReconcilePreview_def Let_def
    by (rule triple_bind [OF triple_get_plan [where Q = "\<lambda>_. synced pl"]], assumption, rule triple_if, rule triple_ret, assumption,
        rule triple_bind [OF load], rule triple_if, rule triple_ret, assumption, rule triple_bind [OF triple_any], rule triple_bind [OF triple_any],
        rule triple_case_prod, rule triple_then [OF triple_any synced_patch [OF L]])
qed

lemma obeys_both: "obeys R m \<Longrightarrow> obeys S m \<Longrightarrow> obeys (\<lambda>s t. R s t \<and> S s t) m"
  by (simp add: obeys_def)

text \<open>Without stable nodes there is nothing to drain, to cordon or to look at for drift.\<close>

lemma triple_noop: "(\<And>s. P s \<Longrightarrow> m s = (Inr x, s)) \<Longrightarrow> (\<And>s. P s \<Longrightarrow> Q x s) \<Longrightarrow> triple P m Q X"
  by (simp add: triple_def)

lemma nothing_stable:
  assumes "Stable res = []" "ToRelease res = []"
  shows "ReconcileDrift E res s = (Inr (), s)" "ReconcileCordon E res s = (Inr (), s)" "ReconcileDrain E res s = (Inr 0, s)"
proof -
  show "ReconcileDrift E res s = (Inr (), s)" "ReconcileCordon E res s = (Inr (), s)"
    using assms by (simp_all add: ReconcileDrift_def ReconcileCordon_def go_bind_def go_then_def go_run)
  show "ReconcileDrain E res s = (Inr 0, s)"
    using assms by (simp add: ReconcileDrain_def go_bind_def go_run noRequeue_def split: option.split)
qed

section \<open>The first pass\<close>

definition finalizer_laws :: "'w env \<Rightarrow> bool" where
  "finalizer_laws E \<longleftrightarrow> (\<forall>fs f. k_ContainsFinalizer E (k_AddFinalizer E fs f) f)"

definition with_finalizer :: "'w env \<Rightarrow> Plan \<Rightarrow> Plan" where
  "with_finalizer E plan = (if k_ContainsFinalizer E (Finalizers plan) NodeMaintenancePlanFinalizer then plan else add_finalizer E plan)"

lemma with_finalizer_facts:
  "plan_Name (with_finalizer E plan) = plan_Name plan" "Spec (with_finalizer E plan) = Spec plan"
  "Status (with_finalizer E plan) = Status plan" "plan_DeletionTimestamp (with_finalizer E plan) = plan_DeletionTimestamp plan"
  by (simp_all add: with_finalizer_def add_finalizer_def)

lemma adopted_cong: "plan_Name p = plan_Name q \<Longrightarrow> Spec p = Spec q \<Longrightarrow> adopt_change p c = adopt_change q c"
  by (rule ext) (simp add: adopt_change_def)

lemma fresh_facts:
  assumes "fresh E N plan cfg nodes"
  shows "plan_DeletionTimestamp plan = None" "plan_Name plan \<noteq> ''''" "NodeSelector (Spec plan) = None"
    "spec_Nodes (Spec plan) = map node_Name nodes" "nodes \<noteq> []" "distinct (map node_Name nodes)" "status_Nodes (Status plan) = []"
    "\<not> isConditionTrue E plan ConditionDrainTimedOut" "cordonEnabled plan" "getDrainConfig plan = Some cfg"
    "\<And>w now w'. k_clockNow E w = (now, w') \<Longrightarrow> pending_starts plan now = {}"
    "\<And>n. n \<in> set nodes \<Longrightarrow> N (node_Name n) = Some n" "\<And>n. n \<in> set nodes \<Longrightarrow> owner_of n = ''''"
    "\<And>n. n \<in> set nodes \<Longrightarrow> isNodeReady n"
    "\<And>a n. N a = Some n \<Longrightarrow> owner_of n \<noteq> plan_Name plan"
  using assms unfolding fresh_def by blast+

lemma with_finalizer_reads:
  "isConditionTrue E (with_finalizer E' plan) c = isConditionTrue E plan c" "cordonEnabled (with_finalizer E plan) = cordonEnabled plan"
  "getDrainConfig (with_finalizer E plan) = getDrainConfig plan" "pending_starts (with_finalizer E plan) now = pending_starts plan now"
  by (simp_all add: with_finalizer_facts isConditionTrue_def cordonEnabled_def getDrainConfig_def pending_starts_def cordon_start_def
      drain_start_def drainEnabled_def)

lemma fresh_with_finalizer: "fresh E N plan cfg nodes \<Longrightarrow> fresh E N (with_finalizer E plan) cfg nodes"
  unfolding fresh_def with_finalizer_facts with_finalizer_reads .

lemma ensureFinalizer_stored:
  assumes L: "stored_laws E nd pl" and f: "kept_by E f" and s: "pl (st_world s) = st_plan s" "list_all idle_call (st_trace s)"
  shows "\<exists>t. ensureFinalizer E s = (Inr (), t) \<and> st_plan t = with_finalizer E (st_plan s) \<and>
    nd (st_world t) = nd (st_world s) \<and> pl (st_world t) = with_finalizer E (st_plan s) \<and> f (st_world t) = f (st_world s) \<and>
    list_all idle_call (st_trace t)"
proof (cases "k_ContainsFinalizer E (Finalizers (st_plan s)) NodeMaintenancePlanFinalizer")
  case True
  then show ?thesis using s by (simp add: ensureFinalizer_def with_finalizer_def go_bind_def go_run)
next
  case False
  let ?m = "add_finalizer E (st_plan s)"
  obtain w where w: "k_patchPlan E (st_plan s) ?m (st_world s) = (Inr ?m, w)" "nd w = nd (st_world s)" "pl w = ?m"
    using stored_facts(8) [OF L, of "st_world s"] s(1) by metis
  have "f (snd (k_patchPlan E (st_plan s) ?m (st_world s))) = f (st_world s)"
    by (rule kept_served [OF f, of "PatchPlan (st_plan s) ?m"]) simp_all
  then show ?thesis using False s w
    by (simp add: ensureFinalizer_def with_finalizer_def patch_plan_def client_call_def go_bind_def go_then_def go_run)
qed

lemma finds_stored:
  assumes L: "stored_laws E nd pl" and f: "kept_by E f" and N: "\<And>n. n \<in> set nodes \<Longrightarrow> N (node_Name n) = Some n"
    and listed: "\<And>items. \<forall>n \<in> set items. N (node_Name n) = Some n \<Longrightarrow> listed items"
  shows "finds E (\<lambda>w. nd w = N \<and> pl w = plan \<and> f w = v) nodes listed"
  unfolding finds_def
proof (intro conjI ballI allI impI)
  fix n w assume n: "n \<in> set nodes" and w: "nd w = N \<and> pl w = plan \<and> f w = v"
  then obtain w' where w': "k_getNode E (node_Name n) w = (Inr n, w')" using stored_facts(4) [OF L, of w "node_Name n" n] N [OF n] by auto
  let ?g = "\<lambda>w. snd (k_getNode E (node_Name n) w)"
  have "nd (?g w) = nd w \<and> pl (?g w) = pl w"
    by (rule stored_facts(1) [OF L, of "GetNode (node_Name n)"]) simp_all
  moreover have "f (?g w) = f w" by (rule kept_served [OF f, of "GetNode (node_Name n)"]) simp_all
  ultimately show "\<exists>w'. k_getNode E (node_Name n) w = (Inr n, w') \<and> nd w' = N \<and> pl w' = plan \<and> f w' = v" using w w' by simp
next
  fix w assume w: "nd w = N \<and> pl w = plan \<and> f w = v"
  obtain items w' where items: "k_listNodes E None w = (Inr items, w')" "\<forall>n \<in> set items. nd w (node_Name n) = Some n"
    using stored_facts(5) [OF L] by blast
  let ?g = "\<lambda>w. snd (k_listNodes E None w)"
  have "nd (?g w) = nd w \<and> pl (?g w) = pl w" by (rule stored_facts(1) [OF L, of ListNodes]) auto
  moreover have "f (?g w) = f w" by (rule kept_served [OF f, of ListNodes]) auto
  ultimately show "\<exists>items w'. k_listNodes E None w = (Inr items, w') \<and> (nd w' = N \<and> pl w' = plan \<and> f w' = v) \<and> listed items"
    using items w listed by (intro exI [of _ items] exI [of _ w']) simp
qed

lemma get_stored:
  assumes L: "stored_laws E nd pl" and f: "kept_by E f"
  shows "\<exists>w'. k_getPlan E (plan_Name (pl w)) w = (Inr (pl w), w') \<and> nd w' = nd w \<and> pl w' = pl w \<and> f w' = f w"
proof -
  obtain w' where w': "k_getPlan E (plan_Name (pl w)) w = (Inr (pl w), w')" using stored_facts(6) [OF L, of w] by blast
  let ?g = "\<lambda>v. snd (k_getPlan E (plan_Name (pl w)) v)"
  have "nd (?g w) = nd w \<and> pl (?g w) = pl w" by (rule stored_facts(1) [OF L, of "GetPlan (plan_Name (pl w))"]) simp_all
  moreover have "f (?g w) = f w" by (rule kept_served [OF f, of "GetPlan (plan_Name (pl w))"]) simp_all
  ultimately show ?thesis using w' by simp
qed

text \<open>What the first pass leaves.\<close>

definition first_done :: "'w env \<Rightarrow> ('w \<Rightarrow> string \<Rightarrow> Node option) \<Rightarrow> ('w \<Rightarrow> Plan) \<Rightarrow> Plan \<Rightarrow> Node list \<Rightarrow> (string \<Rightarrow> Node option) \<Rightarrow> 'w st \<Rightarrow> bool" where
  "first_done E nd pl plan nodes N s \<longleftrightarrow> list_all (adopting plan nodes) (st_trace s) \<and>
     (\<forall>n \<in> set nodes. PatchNode n (adopted plan n) \<in> set (st_trace s)) \<and>
     nd (st_world s) = adopted_but plan (node_Name ` set nodes) {} N \<and> same_plan (st_plan s) plan \<and>
     pl (st_world s) = st_plan s \<and> \<not> isConditionTrue E (st_plan s) ConditionDrainTimedOut"

lemma permits_adopting: "permits (adopting plan nodes)"
  by (simp add: permits_def adopting_def)

lemma schedule_rest:
  fixes E :: "'w env"
  assumes L: "stored_laws E nd pl" and laws: "condition_laws E" and lists: "answers_lists E" and f: "kept_by E f"
    and fresh: "fresh E N plan cfg nodes" and calm: "calm (map node_Name nodes) res" and stable: "Stable res = []"
    and heap: "\<And>n. n \<in> set nodes \<Longrightarrow> h (node_Name n) = Some n"
    and sch: "ShouldAct (ps_Cordon sch)" "ShouldAct (ps_Drain sch)" "ps_RequeueAfter sch = 0"
  shows "triple (\<lambda>s. mid_adoption nd pl plan nodes h N (ToAdopt res) s \<and> f (st_world s) = v)
    (go_then (ReconcileOwnership E res (ShouldAct (ps_Cordon sch)))
      (go_then (UpdateStatus E res)
      (go_then (ReconcilePreview E res)
      (go_then (ReconcileDrift E res)
      (go_then (go_when (ShouldAct (ps_Cordon sch)) (ReconcileCordon E res))
      (go_bind (if ShouldAct (ps_Drain sch) then ReconcileDrain E res else go_ret 0) (\<lambda>drainRequeue.
       let requeueAfter = (if drainRequeue \<noteq> 0 then drainRequeue else ps_RequeueAfter sch) in
       go_then (record_metrics RecordPlan) (go_ret requeueAfter))))))))
    (\<lambda>d s. d = 0 \<and> first_done E nd pl plan nodes N s \<and> f (st_world s) = v) (\<lambda>_. False)"
proof -
  note fr = fresh_facts [OF fresh]
  let ?names = "node_Name ` set nodes" and ?ok = "adopting plan nodes"
  let ?h = "adopted_but plan ?names {} h" and ?new = "map (adopted plan) nodes"
  let ?I = "\<lambda>s. nd (st_world s) = adopted_but plan ?names {} N \<and> same_plan (st_plan s) plan \<and>
    (\<forall>n \<in> set nodes. PatchNode n (adopted plan n) \<in> set (st_trace s)) \<and> f (st_world s) = v"
  let ?K = "\<lambda>s. stage E ?ok plan ?h (entries_for E (res_All res)) s \<and> ?I s \<and> synced pl s"
  have none: "ToRelease res = []" "Conflicting res = []" using calm by (simp_all add: calm_def)
  have heap': "\<And>n. n \<in> set ?new \<Longrightarrow> ?h (node_Name n) = Some n"
    and cordoned': "\<And>n. n \<in> set ?new \<Longrightarrow> Unschedulable n"
    using heap by (auto simp: adopted_but_def adopted_facts) (metis option.inject)
  have calm': "calm (map node_Name ?new) res" using calm by (simp add: adopted_facts(1) o_def)
  have known: "?h a \<noteq> None" if "a \<in> set (res_All res @ ToRelease res)" for a
  proof -
    have "set (res_All res) = ?names" using calm [unfolded calm_def] by (metis mset_eq_setD list.set_map)
    then show ?thesis using that none heap by (auto simp: adopted_but_def)
  qed
  have adopted: "stage E ?ok plan ?h (\<lambda>p. p = plan) s \<and> ?I s" if "mid_adoption nd pl plan nodes h N [] s \<and> f (st_world s) = v" for s
    using that fr(8) by (simp add: mid_adoption_def stage_def)
  have read: "\<And>s t. f (st_world s) = v \<Longrightarrow> keeps_read E f s t \<Longrightarrow> f (st_world t) = v" using f by (simp add: keeps_read_def)
  have own: "triple (\<lambda>s. mid_adoption nd pl plan nodes h N (ToAdopt res) s \<and> f (st_world s) = v) (ReconcileOwnership E res True)
      (\<lambda>_ s. stage E ?ok plan ?h (\<lambda>p. p = plan) s \<and> ?I s) (\<lambda>_. False)"
    by (rule triple_weaken [OF triple_keeping [OF ReconcileOwnership_adopts [OF L conjI [OF heap fr(12)] fr(7,9) none(2)]
          ReconcileOwnership_read read]]; (rule adopted)?; assumption)
  have keep: "\<And>s t. ?I s \<Longrightarrow> keeps_store E nd pl s t \<and> keeps_read E f s t \<Longrightarrow> ?I t"
    using L f by (auto simp: keeps_store_def keeps_read_def same_plan_def trace_within_def)
  have status: "triple (\<lambda>s. stage E ?ok plan ?h (\<lambda>p. p = plan) s \<and> ?I s) (UpdateStatus E res) (\<lambda>_. ?K) (\<lambda>_. False)"
  proof -
    have obeys: "obeys (\<lambda>s t. keeps_store E nd pl s t \<and> keeps_read E f s t) (UpdateStatus E res)"
      by (rule obeys_both [OF pass_store.obeys_UpdateStatus pass_read.obeys_UpdateStatus]) simp_all
    note stage = UpdateStatus_stage [OF heap' calm' laws stored_accepts [OF L] permits_adopting cordoned']
    show ?thesis
      by (rule triple_weaken [OF triple_both [OF triple_keeping [OF stage obeys keep] UpdateStatus_synced [OF L known]]]) auto
  qed
  have preview: "triple ?K (ReconcilePreview E res) (\<lambda>_. ?K) (\<lambda>_. False)"
  proof -
    have obeys: "obeys (\<lambda>s t. keeps_store E nd pl s t \<and> keeps_read E f s t) (ReconcilePreview E res)"
      by (rule obeys_both [OF pass_store.obeys_ReconcilePreview pass_read.obeys_ReconcilePreview]) (auto elim: dry_call.elims)
    note stage = ReconcilePreview_runs [OF stored_accepts [OF L] permits_adopting lists calm' heap']
    show ?thesis
      by (rule triple_weaken [OF triple_both [OF triple_keeping [OF stage obeys keep] ReconcilePreview_synced [OF L]]]) auto
  qed
  have ended: "first_done E nd pl plan nodes N (s\<lparr>st_gauges := g\<rparr>) \<and> f (st_world s) = v" if "?K s" for s g
    using that by (simp add: first_done_def stage_def synced_def)
  have metrics: "triple (\<lambda>s. ?K s \<and> d = 0) (let requeueAfter = (if d \<noteq> 0 then d else ps_RequeueAfter sch)
      in go_then (record_metrics RecordPlan) (go_ret requeueAfter)) (\<lambda>d s. d = 0 \<and> first_done E nd pl plan nodes N s \<and> f (st_world s) = v) (\<lambda>_. False)"
    for d :: duration
    using sch(3) ended by (simp add: triple_def go_then_def go_bind_def record_metrics_def go_run)
  note still = nothing_stable [OF stable none(1)]
  show ?thesis
    unfolding eqTrueI [OF sch(1)] eqTrueI [OF sch(2)] go_when_def if_True
    by (rule triple_then [OF own], rule triple_then [OF status], rule triple_then [OF preview],
        rule triple_then [OF triple_noop [OF still(1)]], assumption, rule triple_then [OF triple_noop [OF still(2)]], assumption,
        rule triple_bind [OF triple_noop [OF still(3), where Q = "\<lambda>d s. ?K s \<and> d = 0"]], simp, rule metrics)
qed

lemma live_adopts:
  assumes L: "stored_laws E nd pl" and laws: "condition_laws E" and range: "range_laws E" and lists: "answers_lists E" and keep: "kept_by E f"
    and fresh: "fresh E (nd (st_world s)) (st_plan s) cfg nodes" and s: "pl (st_world s) = st_plan s" "list_all idle_call (st_trace s)"
  shows "\<exists>t. reconcile_live E s = (Inr 0, t) \<and> first_done E nd pl (with_finalizer E (st_plan s)) nodes (nd (st_world s)) t \<and>
    f (st_world t) = f (st_world s)"
proof -
  let ?plan = "with_finalizer E (st_plan s)" and ?N = "nd (st_world s)"
  let ?names = "node_Name ` set nodes" and ?W = "\<lambda>w. nd w = ?N \<and> pl w = ?plan \<and> f w = f (st_world s)"
  obtain u where u: "ensureFinalizer E s = (Inr (), u)" "st_plan u = ?plan" "?W (st_world u)" "list_all idle_call (st_trace u)"
    using ensureFinalizer_stored [OF L keep s] by blast
  note fresh' = fresh_with_finalizer [OF fresh]
  note f = fresh_facts [OF fresh']
  have idle: "permits idle_call" by (simp add: permits_def)
  have found: "finds E ?W nodes (\<lambda>items. \<forall>n \<in> set items. ?N (node_Name n) = Some n)"
    by (rule finds_stored [OF L keep f(12)])
  obtain items t1 where t1: "\<forall>n \<in> set items. ?N (node_Name n) = Some n" "?W (st_world t1)" "st_plan t1 = ?plan"
      "list_all idle_call (st_trace t1)"
      "ComputeOwnershipResolution E u = (Inr ((ComputeOwnership E (by_name nodes)
        (by_name (filter (\<lambda>node. mget (Annotations node) ManagedByAnnotation = plan_Name ?plan) items)) (plan_Name ?plan))\<lparr>SnapshotNodes := None\<rparr>), t1)"
      "st_heap t1 = map_of (by_name nodes @ by_name (filter (\<lambda>node. mget (Annotations node) ManagedByAnnotation = plan_Name ?plan) items))"
    using resolution_found [OF found f(3,4,5) idle u(2-4)] unfolding Let_def by blast
  have others: "\<forall>n \<in> set items. owner_of n = plan_Name ?plan \<longrightarrow> node_Name n \<in> ?names" using t1(1) f(15) by blast
  have free: "\<forall>n \<in> set nodes. owner_of n = ''''" using f(13) by blast
  obtain res where res: "ComputeOwnershipResolution E u = (Inr res, t1)" "calm (map node_Name nodes) res"
      "Stable res = []" "ToAdopt res = res_All res"
    using t1(5) resolution_lists [OF range f(6,2) free disjI1 [OF refl] others refl] by blast
  have all: "mset (res_All res) = mset (map node_Name nodes)" using res(2) by (simp add: calm_def)
  then have names: "set (res_All res) = ?names" by (metis mset_eq_setD list.set_map)
  have "distinct (res_All res)" using all f(6) mset_eq_imp_distinct_iff by blast
  moreover have "\<And>n. n \<in> set nodes \<Longrightarrow> st_heap t1 (node_Name n) = Some n" using t1(6) found_heap [OF f(6)] by simp
  moreover obtain now w where now: "k_clockNow E (st_world t1) = (now, w)" by force
  moreover have w: "nd w = ?N" "pl w = ?plan" "f w = f (st_world s)"
    using stored_facts(2) [OF L, of "st_world t1"] keep now t1(2) unfolding kept_by_def by (simp_all, metis snd_conv)
  moreover have "list_all (adopting ?plan nodes) (st_trace t1)" using t1(4) by (simp add: list_all_iff adopting_def)
  ultimately have mid: "mid_adoption nd pl ?plan nodes (st_heap t1) ?N (ToAdopt res) (t1\<lparr>st_world := w\<rparr>)"
    and heap: "\<And>n. n \<in> set nodes \<Longrightarrow> st_heap t1 (node_Name n) = Some n"
    using names res(4) t1(3) by (simp_all add: mid_adoption_def adopted_but_def fun_eq_iff)
  have "drainEnabled ?plan" using f(10) by (auto simp: drainEnabled_def getDrainConfig_def split: option.splits if_splits)
  note due = schedule_due [OF f(11) [OF now] f(9) this]
  from triple_returns [OF schedule_rest [OF L laws lists keep fresh' res(2,3) heap due, of "f (st_world s)"]] mid w(3) obtain t where
    t: "first_done E nd pl ?plan nodes ?N t" "f (st_world t) = f (st_world s)"
    and rest: "go_then (ReconcileOwnership E res (ShouldAct (ps_Cordon (schedule_at ?plan now))))
      (go_then (UpdateStatus E res)
      (go_then (ReconcilePreview E res)
      (go_then (ReconcileDrift E res)
      (go_then (go_when (ShouldAct (ps_Cordon (schedule_at ?plan now))) (ReconcileCordon E res))
      (go_bind (if ShouldAct (ps_Drain (schedule_at ?plan now)) then ReconcileDrain E res else go_ret 0) (\<lambda>drainRequeue.
       let requeueAfter = (if drainRequeue \<noteq> 0 then drainRequeue else ps_RequeueAfter (schedule_at ?plan now)) in
       go_then (record_metrics RecordPlan) (go_ret requeueAfter))))))) (t1\<lparr>st_world := w\<rparr>) = (Inr 0, t)"
    by fastforce
  have "ComputeSchedule E t1 = (Inr (schedule_at ?plan now), t1\<lparr>st_world := w\<rparr>)" using ComputeSchedule_run [OF now] t1(3) by simp
  then have "reconcile_live E s = (Inr 0, t)"
    by (simp only: reconcile_live_def go_then_def [of "ensureFinalizer E"] go_bind_def [of "ensureFinalizer E"] u(1) res(1)
        go_bind_def [of "ComputeOwnershipResolution E"] go_bind_def [of "ComputeSchedule E"] prod.case sum.case rest)
  with t show ?thesis by blast
qed

lemma adoption_wakes:
  assumes "owner_of n = ''''" "plan_Name plan \<noteq> ''''"
  shows "wakes E plan n (adopted plan n)"
proof -
  have owner: "owner_of (adopted plan n) = plan_Name plan" by (rule adopted_facts)
  then have "isManagedByOperator (adopted plan n)" using unmanaged_owner assms(2) by metis
  moreover have "\<not> mequal (Annotations n) (Annotations (adopted plan n))"
    using owner assms by (auto simp: mequal_iff owner_of_def)
  ultimately show ?thesis using owner
    by (simp add: wakes_def nodeMaintenancePredicates_def nodeRelevantChange_def nodeRelevantToPlan_def owner_of_def)
qed

section \<open>The next pass\<close>

lemma with_finalizer_has:
  "finalizer_laws E \<Longrightarrow> k_ContainsFinalizer E (Finalizers (with_finalizer E plan)) NodeMaintenancePlanFinalizer"
  by (simp add: with_finalizer_def add_finalizer_def finalizer_laws_def)

lemma adopted_owned:
  fixes nd :: "'w \<Rightarrow> string \<Rightarrow> Node option"
  assumes L: "stored_laws E nd pl" and keep: "kept_by E f" and fin: "finalizer_laws E" and fresh: "fresh E N plan cfg nodes"
    and q: "same_plan q (with_finalizer E plan)" "\<not> isConditionTrue E q ConditionDrainTimedOut"
  shows "owned E (\<lambda>w. nd w = adopted_but (with_finalizer E plan) (node_Name ` set nodes) {} N \<and> pl w = q \<and> f w = v) q cfg
    (map (adopted (with_finalizer E plan)) nodes)"
proof -
  let ?plan = "with_finalizer E plan" and ?names = "node_Name ` set nodes"
  let ?new = "map (adopted (with_finalizer E plan)) nodes" and ?N = "adopted_but (with_finalizer E plan) (node_Name ` set nodes) {} N"
  let ?W = "\<lambda>w. nd w = ?N \<and> pl w = q \<and> f w = v"
  note fr = fresh_facts [OF fresh_with_finalizer [OF fresh]]
  have same: "plan_Name q = plan_Name ?plan" "Spec q = Spec ?plan" "Finalizers q = Finalizers ?plan"
    "plan_DeletionTimestamp q = plan_DeletionTimestamp ?plan"
    using q(1) by (simp_all add: same_plan_def)
  have reads: "cordonEnabled q = cordonEnabled ?plan" "getDrainConfig q = getDrainConfig ?plan"
      "pending_starts q now = pending_starts ?plan now" for now
    by (simp_all add: same cordonEnabled_def getDrainConfig_def pending_starts_def cordon_start_def drain_start_def drainEnabled_def)
  have stored: "?N (node_Name n) = Some n" if "n \<in> set ?new" for n
    using that fr(12) by (auto simp: adopted_but_def adopted_facts) (metis option.inject)
  have only: "\<forall>n \<in> set items. owner_of n = plan_Name q \<longrightarrow> node_Name n \<in> node_Name ` set ?new"
    if items: "\<forall>n \<in> set items. ?N (node_Name n) = Some n" for items
  proof (intro ballI impI)
    fix n assume n: "n \<in> set items" "owner_of n = plan_Name q"
    have "node_Name n \<in> ?names"
    proof (rule ccontr)
      assume out: "node_Name n \<notin> ?names"
      have "?N (node_Name n) = Some n" using items n(1) by blast
      with out have "N (node_Name n) = Some n" by (simp add: adopted_but_def)
      from fr(15) [OF this] n(2) same(1) show False by simp
    qed
    then show "node_Name n \<in> node_Name ` set ?new" by (auto simp: image_image adopted_facts)
  qed
  have plans: "\<exists>w'. k_getPlan E (plan_Name q) w = (Inr q, w') \<and> ?W w'" if w: "?W w" for w
    using get_stored [OF L keep, of w] w by auto
  have nodes: "\<forall>n \<in> set ?new. owner_of n = plan_Name q \<and> operator_cordoned n \<and> Unschedulable n \<and> isNodeReady n"
    using fr(14) by (auto simp: adopted_facts same(1))
  have names: "map node_Name ?new = map node_Name nodes" by (simp add: adopted_facts o_def)
  have "k_ContainsFinalizer E (Finalizers q) NodeMaintenancePlanFinalizer" "plan_DeletionTimestamp q = None"
    "plan_Name q \<noteq> ''''" "NodeSelector (Spec q) = None" "spec_Nodes (Spec q) = map node_Name ?new" "?new \<noteq> []"
    "distinct (map node_Name ?new)" "cordonEnabled q" "getDrainConfig q = Some cfg"
    "\<forall>w now w'. k_clockNow E w = (now, w') \<longrightarrow> pending_starts q now = {}"
    unfolding names same reads using fr(1-6,9-11) with_finalizer_has [OF fin] by auto
  then show ?thesis
    unfolding owned_def using nodes q(2)
    by (intro conjI allI impI plans finds_stored [OF L keep stored only] stored_accepts [OF L]) blast+
qed

end
