(* ===== verification/Drain_Liveness.thy ===== *)
theory Drain_Liveness
  imports Drain_Node
begin

text \<open>
  Drains come to an end: a node drained pass after pass, on a cluster that keeps its side. The
  cluster's side is stated as laws on the pods of the node (\<open>cooperative\<close>): nobody places new
  pods on the unschedulable node, an eviction or deletion that was accepted takes the pod
  away, terminating pods are gone before the next pass (\<open>settle\<close>), and a disruption budget
  allows a first eviction again once the pods evicted before are gone. The measure is the
  number of evictable pods.
\<close>

section \<open>Definitions\<close>

text \<open>The pods that are not being deleted, and those of them the settings allow to evict.\<close>

definition alive :: "Pod list \<Rightarrow> Pod list" where
  "alive pods = filter (\<lambda>pod. pod_DeletionTimestamp pod = None) pods"

definition movable :: "drainConfig \<Rightarrow> Pod list \<Rightarrow> Pod list" where
  "movable cfg pods = filter (pod_evictable cfg) pods"

definition removes :: "('w \<Rightarrow> Pod list) \<Rightarrow> Pod \<Rightarrow> (go_error + unit) \<Rightarrow> 'w \<Rightarrow> 'w \<Rightarrow> bool" where
  "removes pods_of pod r w w' \<longleftrightarrow> (case r of
     Inr _ \<Rightarrow> alive (pods_of w') = remove1 pod (alive (pods_of w))
   | Inl e \<Rightarrow> (IsTooManyRequests e \<or> IsNotFound e) \<and> alive (pods_of w') = alive (pods_of w))"

definition cooperative :: "'w env \<Rightarrow> string \<Rightarrow> drainConfig \<Rightarrow> ('w \<Rightarrow> Pod list) \<Rightarrow> ('w \<Rightarrow> 'w) \<Rightarrow> bool" where
  "cooperative E nm cfg pods_of settle \<longleftrightarrow>
     (\<forall>w. \<exists>w'. k_listPods E nm w = (Inr (pods_of w), w') \<and> pods_of w' = pods_of w) \<and>
     (\<forall>w. pods_of (snd (k_clockNow E w)) = pods_of w) \<and>
     (\<forall>pod g w. removes pods_of pod (fst (k_evictPod E pod g w)) w (snd (k_evictPod E pod g w))) \<and>
     (\<forall>pod w. \<exists>r w'. k_deletePod E pod w = (r, w') \<and> removes pods_of pod r w w' \<and> (\<forall>e. r = Inl e \<longrightarrow> IsNotFound e)) \<and>
     (\<forall>w. pods_of (settle w) = alive (pods_of w)) \<and>
     (\<forall>w pod rest g. movable cfg (pods_of w) = pod # rest \<longrightarrow> alive (pods_of w) = pods_of w \<longrightarrow>
        fst (k_evictPod E pod g w) = Inr ())"

text \<open>\<open>n\<close> passes, each followed by the time its terminating pods need.\<close>

fun drain_passes :: "'w env \<Rightarrow> Plan \<Rightarrow> Node \<Rightarrow> ('w \<Rightarrow> 'w) \<Rightarrow> nat \<Rightarrow> 'w st \<Rightarrow> 'w st" where
  "drain_passes E plan node settle 0 s = s"
| "drain_passes E plan node settle (Suc n) s =
     (let t = snd (drainNode E plan node s) in drain_passes E plan node settle n (t\<lparr>st_world := settle (st_world t)\<rparr>))"

text \<open>What a step of the loop does to the pods: none comes, and an accepted one goes.\<close>

definition shrinks :: "('w \<Rightarrow> Pod list) \<Rightarrow> 'w st \<Rightarrow> 'w st \<Rightarrow> bool" where
  "shrinks pods_of s t \<longleftrightarrow> mset (alive (pods_of (st_world t))) \<subseteq># mset (alive (pods_of (st_world s)))"

section \<open>Lemmas\<close>

lemma evictable_alive: "pod_evictable cfg pod \<Longrightarrow> pod_DeletionTimestamp pod = None"
  by (simp add: pod_evictable_def)

lemma movable_alive: "movable cfg (alive pods) = movable cfg pods"
  unfolding movable_def alive_def filter_filter by (rule filter_cong) (auto dest: evictable_alive)

lemma alive_alive [simp]: "alive (alive pods) = alive pods"
  by (simp add: alive_def)

lemma alive_iff: "alive pods = pods \<longleftrightarrow> (\<forall>pod\<in>set pods. pod_DeletionTimestamp pod = None)"
  by (simp add: alive_def filter_id_conv)

lemma evictable_filters: "fr_Evictable (classifyPods pods cfg now) = movable cfg pods"
  unfolding classifyPods_filters movable_def
  by (rule filter_cong) (auto simp: pod_class_evictable pod_evictable_def)

lemma movable_mono: "mset xs \<subseteq># mset ys \<Longrightarrow> length (movable cfg xs) \<le> length (movable cfg ys)"
  unfolding movable_def size_mset [symmetric] mset_filter by (rule size_mset_mono) (rule multiset_filter_mono)

lemma filter_remove1_less: "P x \<Longrightarrow> x \<in> set xs \<Longrightarrow> length (filter P (remove1 x xs)) < length (filter P xs)"
  by (induction xs) auto

lemma movable_remove1:
  "pod \<in> set (movable cfg pods) \<Longrightarrow> length (movable cfg (remove1 pod pods)) < length (movable cfg pods)"
  unfolding movable_def by (rule filter_remove1_less) simp_all

interpretation shrinking: effect "shrinks pods_of" for pods_of :: "'w \<Rightarrow> Pod list"
  by unfold_locales (auto simp: shrinks_def intro: subset_mset.order_trans)

lemma removes_shrinks:
  "removes pods_of pod r w w' \<Longrightarrow> mset (alive (pods_of w')) \<subseteq># mset (alive (pods_of w))"
  by (cases r) (auto simp: removes_def)

lemma evict_loop_shrinks:
  fixes E :: "'w env"
  assumes "cooperative E nm cfg pods_of settle"
  shows "obeys (shrinks pods_of) (evict_loop E cfg pods out pdb)"
proof (induction pods arbitrary: out pdb)
  case Nil
  show ?case unfolding evict_loop.simps by (rule shrinking.obeys_ret)
next
  case (Cons pod pods)
  have ev: "obeys (shrinks pods_of) (evictPod E pod g)" for g
    unfolding obeys_def
  proof
    fix s :: "'w st"
    have "removes pods_of pod (fst (k_evictPod E pod g (st_world s))) (st_world s) (snd (k_evictPod E pod g (st_world s)))"
      using assms by (simp add: cooperative_def)
    from removes_shrinks [OF this] show "shrinks pods_of s (snd (evictPod E pod g s))"
      by (cases "k_evictPod E pod g (st_world s)") (simp add: evictPod_def client_call_def shrinks_def)
  qed
  have del: "obeys (shrinks pods_of) (client_call (DeletePod pod) (k_deletePod E pod))"
    unfolding obeys_def
  proof
    fix s :: "'w st"
    obtain r w' where d: "k_deletePod E pod (st_world s) = (r, w')" and "removes pods_of pod r (st_world s) w'"
      using assms unfolding cooperative_def by blast
    then show "shrinks pods_of s (snd (client_call (DeletePod pod) (k_deletePod E pod) s))"
      using removes_shrinks by (simp add: client_call_def shrinks_def)
  qed
  show ?case
    unfolding evict_loop.simps
    by (auto intro!: shrinking.obeys_intros ev del Cons.IH)
qed

lemma removes_accepted: "removes pods_of pod (Inr ()) w w' \<Longrightarrow> alive (pods_of w') = remove1 pod (alive (pods_of w))"
  by (simp add: removes_def)

text \<open>One pass: no pod comes, and when there is one to move, there is one less afterwards.\<close>

lemma pass_shrinks:
  fixes E :: "'w env"
  assumes coop: "cooperative E (node_Name node) cfg pods_of settle" and cfg: "getDrainConfig plan = Some cfg"
    and settled: "alive (pods_of (st_world s)) = pods_of (st_world s)"
  defines "before \<equiv> pods_of (st_world s)" and "after \<equiv> alive (pods_of (st_world (snd (drainNode E plan node s))))"
  shows "mset after \<subseteq># mset before" and "movable cfg before \<noteq> [] \<Longrightarrow> length (movable cfg after) < length (movable cfg before)"
proof -
  obtain w where list: "k_listPods E (node_Name node) (st_world s) = (Inr before, w)" and w: "pods_of w = before"
    using coop unfolding cooperative_def before_def by blast
  obtain now w' where now: "k_clockNow E w = (now, w')" by force
  have w': "pods_of w' = before" using coop now w unfolding cooperative_def by (metis snd_conv)
  define s1 where "s1 = s\<lparr>st_world := w', st_trace := st_trace s @ [ListPods (node_Name node)]\<rparr>"
  let ?loop = "evict_loop E cfg (movable cfg before) (initial_outcome (classifyPods before cfg now)) []"
  have "snd (drainNode E plan node s) = snd (?loop s1)"
    unfolding drainNode_run [OF cfg list now refl s1_def] evictable_filters
    by (simp add: go_bind_def go_ret_def split: prod.split sum.split)
  then have after: "after = alive (pods_of (st_world (snd (?loop s1))))" by (simp add: after_def)
  have s1: "pods_of (st_world s1) = before" by (simp add: s1_def w')
  have alive: "alive before = before" using settled by (simp add: before_def)
  show "mset after \<subseteq># mset before"
    using evict_loop_shrinks [OF coop] s1 alive unfolding after obeys_def shrinks_def by metis
  assume "movable cfg before \<noteq> []"
  then obtain pod rest where mv: "movable cfg before = pod # rest" by (cases "movable cfg before") auto
  let ?g = "PodTerminationGracePeriodSeconds cfg"
  have ok: "fst (k_evictPod E pod ?g w') = Inr ()"
    using coop mv w' alive unfolding cooperative_def by metis
  obtain w2 where ev: "k_evictPod E pod ?g w' = (Inr (), w2)" using ok by (cases "k_evictPod E pod ?g w'") auto
  have "removes pods_of pod (fst (k_evictPod E pod ?g w')) w' (snd (k_evictPod E pod ?g w'))"
    using coop unfolding cooperative_def by blast
  then have w2: "alive (pods_of w2) = remove1 pod before" by (simp add: ev removes_def w' alive)
  define s2 where "s2 = s1\<lparr>st_world := w2, st_trace := st_trace s1 @ [EvictPod pod ?g]\<rparr>"
  have run: "go_try (evictPod E pod ?g) s1 = (Inr (Inr ()), s2)"
    using ev by (simp add: evictPod_def client_call_def go_try_def s1_def s2_def)
  obtain out where loop: "?loop s1 = evict_loop E cfg rest out [] s2"
    unfolding mv evict_loop.simps go_bind_run(2) [of "go_try (evictPod E pod ?g)", OF run] by simp
  have "mset after \<subseteq># mset (remove1 pod before)"
  proof -
    have "shrinks pods_of s2 (snd (evict_loop E cfg rest out [] s2))"
      using evict_loop_shrinks [OF coop, of rest out "[]"] by (simp add: obeys_def)
    then show ?thesis using w2 unfolding after loop by (simp add: shrinks_def s2_def)
  qed
  from movable_mono [OF this] have "length (movable cfg after) \<le> length (movable cfg (remove1 pod before))" .
  also have "\<dots> < length (movable cfg before)" by (rule movable_remove1) (simp add: mv)
  finally show "length (movable cfg after) < length (movable cfg before)" .
qed

text \<open>After \<open>n\<close> passes nothing movable is left, when there were at most \<open>n\<close> pods to move.\<close>

lemma passes_drain:
  fixes E :: "'w env"
  assumes coop: "cooperative E (node_Name node) cfg pods_of settle" and cfg: "getDrainConfig plan = Some cfg"
    and settled: "alive (pods_of (st_world s)) = pods_of (st_world s)" and n: "length (movable cfg (pods_of (st_world s))) \<le> n"
  defines "final \<equiv> pods_of (st_world (drain_passes E plan node settle n s))"
  shows "movable cfg final = [] \<and> alive final = final \<and> mset final \<subseteq># mset (pods_of (st_world s))"
  using settled n unfolding final_def
proof (induction n arbitrary: s)
  case 0
  then show ?case by simp
next
  case (Suc n)
  define t where "t = snd (drainNode E plan node s)"
  define u where "u = t\<lparr>st_world := settle (st_world t)\<rparr>"
  let ?before = "pods_of (st_world s)"
  have u: "pods_of (st_world u) = alive (pods_of (st_world t))" using coop by (simp add: u_def cooperative_def)
  have sub: "mset (pods_of (st_world u)) \<subseteq># mset ?before"
    using pass_shrinks(1) [OF coop cfg Suc.prems(1)] by (simp add: u t_def)
  have "length (movable cfg (pods_of (st_world u))) \<le> n"
  proof (cases "movable cfg ?before = []")
    case True
    then show ?thesis using movable_mono [OF sub, of cfg] by simp
  next
    case False
    then show ?thesis using pass_shrinks(2) [OF coop cfg Suc.prems(1)] Suc.prems(2) by (simp add: u t_def)
  qed
  moreover have "alive (pods_of (st_world u)) = pods_of (st_world u)" by (simp add: u)
  ultimately have "movable cfg (pods_of (st_world (drain_passes E plan node settle n u))) = [] \<and>
      alive (pods_of (st_world (drain_passes E plan node settle n u))) = pods_of (st_world (drain_passes E plan node settle n u)) \<and>
      mset (pods_of (st_world (drain_passes E plan node settle n u))) \<subseteq># mset (pods_of (st_world u))"
    using Suc.IH by blast
  moreover have "drain_passes E plan node settle (Suc n) s = drain_passes E plan node settle n u"
    by (simp add: t_def u_def Let_def)
  ultimately show ?case using sub subset_mset.order_trans by metis
qed

lemma alive_class:
  assumes "pod_DeletionTimestamp pod = None"
  shows "pod_class cfg now pod = pod_class cfg now' pod" "pod_class cfg now pod \<noteq> BTerminating" "pod_class cfg now pod \<noteq> BStuck"
  using assms by (auto simp: pod_class_def)

lemma empty_result:
  assumes "alive pods = pods" "movable cfg pods = []" "\<forall>pod\<in>set pods. pod_class cfg now pod \<noteq> BBlocked"
  shows "initial_outcome (classifyPods pods cfg now) = zero_outcome \<and> fr_Blocked (classifyPods pods cfg now) = [] \<and>
    fr_Evictable (classifyPods pods cfg now) = []"
proof -
  have "\<forall>pod\<in>set pods. pod_DeletionTimestamp pod = None" using assms(1) by (simp add: alive_iff)
  then have "fr_Terminating (classifyPods pods cfg now) = []" "fr_StuckTerminating (classifyPods pods cfg now) = []"
    using alive_class(2,3) by (auto simp: classifyPods_filters filter_empty_conv)
  moreover have "fr_Blocked (classifyPods pods cfg now) = []" using assms(3) by (simp add: classifyPods_filters filter_empty_conv)
  moreover have "fr_Evictable (classifyPods pods cfg now) = []" using assms(2) by (simp add: evictable_filters)
  ultimately show ?thesis by (simp add: initial_outcome_def zero_outcome_def)
qed

section \<open>Properties\<close>

text \<open>
  C20. Draining ends. On a cluster that keeps its side (\<open>cooperative\<close>), a node none of whose
  pods is held back by the settings is drained after at most as many passes as it has pods to
  evict, however many of their evictions the budgets refuse on the way: the pass after that
  finds nothing to move, nothing terminating and nothing stuck, and reports no error, which is
  the outcome that makes the node ready for maintenance.
\<close>

theorem drain_converges:
  fixes E :: "'w env"
  assumes coop: "cooperative E (node_Name node) cfg pods_of settle" and cfg: "getDrainConfig plan = Some cfg"
    and settled: "alive (pods_of (st_world s)) = pods_of (st_world s)"
    and unblocked: "fr_Blocked (classifyPods (pods_of (st_world s)) cfg now) = []"
    and n: "length (fr_Evictable (classifyPods (pods_of (st_world s)) cfg now)) \<le> n"
  shows "\<exists>t. drainNode E plan node (drain_passes E plan node settle n s) = (Inr (zero_outcome, None), t)"
proof -
  define f where "f = drain_passes E plan node settle n s"
  have fin: "movable cfg (pods_of (st_world f)) = []" "alive (pods_of (st_world f)) = pods_of (st_world f)"
    "mset (pods_of (st_world f)) \<subseteq># mset (pods_of (st_world s))"
    using passes_drain [OF coop cfg settled] n unfolding f_def evictable_filters by blast+
  have "set (pods_of (st_world f)) \<subseteq> set (pods_of (st_world s))" using mset_subset_eqD [OF fin(3)] by auto
  then have nb: "\<forall>pod\<in>set (pods_of (st_world f)). pod_class cfg now' pod \<noteq> BBlocked" for now'
    using unblocked fin(2) alive_class(1) unfolding classifyPods_filters filter_empty_conv alive_iff
    by (metis subsetD)
  obtain w where list: "k_listPods E (node_Name node) (st_world f) = (Inr (pods_of (st_world f)), w)"
    using coop unfolding cooperative_def by blast
  obtain now1 w' where now: "k_clockNow E w = (now1, w')" by force
  from empty_result [OF fin(2,1) nb] have
    "initial_outcome (classifyPods (pods_of (st_world f)) cfg now1) = zero_outcome"
    "fr_Blocked (classifyPods (pods_of (st_world f)) cfg now1) = []"
    "fr_Evictable (classifyPods (pods_of (st_world f)) cfg now1) = []" by blast+
  then have "\<exists>t. drainNode E plan node f = (Inr (zero_outcome, None), t)"
    unfolding drainNode_run [OF cfg list now refl refl] by (simp add: go_bind_def go_ret_def)
  then show ?thesis by (simp add: f_def)
qed

text \<open>
  A cluster whose budget allows one disruption at a time: an eviction is refused while another
  pod of the node is still terminating.
\<close>

fun mark_deleted :: "Pod \<Rightarrow> (string \<times> Pod) list \<Rightarrow> (string \<times> Pod) list" where
  "mark_deleted pod [] = []"
| "mark_deleted pod ((n, p) # xs) = (if p = pod then (n, p\<lparr>pod_DeletionTimestamp := Some 0\<rparr>) # xs else (n, p) # mark_deleted pod xs)"

definition one_at_a_time :: "cluster env" where
  "one_at_a_time = memory_env\<lparr>
     k_listPods := (\<lambda>nm w. (Inr (map snd (cl_pods w)), w)),
     k_evictPod := (\<lambda>pod g w. if alive (map snd (cl_pods w)) = map snd (cl_pods w)
       then (Inr (), w\<lparr>cl_pods := mark_deleted pod (cl_pods w)\<rparr>) else (Inl (ApiError ReasonTooManyRequests), w)),
     k_deletePod := (\<lambda>pod w. (Inr (), w\<lparr>cl_pods := mark_deleted pod (cl_pods w)\<rparr>))\<rparr>"

definition let_terminate :: "cluster \<Rightarrow> cluster" where
  "let_terminate w = w\<lparr>cl_pods := filter (\<lambda>(n, p). pod_DeletionTimestamp p = None) (cl_pods w)\<rparr>"

lemma alive_mark_deleted: "alive (map snd (mark_deleted pod xs)) = remove1 pod (alive (map snd xs))"
proof (induction xs rule: mark_deleted.induct)
  case (2 pod n p xs)
  have "pod \<notin> set (alive ys)" if "pod_DeletionTimestamp pod \<noteq> None" for ys using that by (auto simp: alive_def)
  then show ?case using 2 by (auto simp: alive_def remove1_idem)
qed (simp add: alive_def)

lemma one_at_a_time_cooperative: "cooperative one_at_a_time nm cfg (\<lambda>w. map snd (cl_pods w)) let_terminate"
proof -
  have "map snd (filter (\<lambda>(n, p). pod_DeletionTimestamp p = None) xs) = alive (map snd xs)" for xs :: "(string \<times> Pod) list"
    by (induction xs) (auto simp: alive_def)
  then show ?thesis
    by (simp add: cooperative_def one_at_a_time_def removes_def alive_mark_deleted let_terminate_def)
qed

theorem drain_converges_witness:
  "cooperative one_at_a_time ''n1'' \<lparr>IgnoreDaemonSets = True, DeleteEmptyDirData = False, Force = False,
       PodTerminationGracePeriodSeconds = None, RespectPodDisruptionBudgets = True\<rparr> (\<lambda>w. map snd (cl_pods w)) let_terminate \<and>
   (let s = start_state (example_plan ''p'' [''n1'']) (empty_cluster\<lparr>cl_pods := map (\<lambda>nm. (''n1'', example_pod nm)) [''a'', ''b'', ''c'']\<rparr>)
    in \<exists>t. drainNode one_at_a_time (example_plan ''p'' [''n1'']) (example_node ''n1'')
        (drain_passes one_at_a_time (example_plan ''p'' [''n1'']) (example_node ''n1'') let_terminate 3 s) = (Inr (zero_outcome, None), t))"
proof -
  let ?cfg = "\<lparr>IgnoreDaemonSets = True, DeleteEmptyDirData = False, Force = False,
       PodTerminationGracePeriodSeconds = None, RespectPodDisruptionBudgets = True\<rparr>"
  let ?s = "start_state (example_plan ''p'' [''n1'']) (empty_cluster\<lparr>cl_pods := map (\<lambda>nm. (''n1'', example_pod nm)) [''a'', ''b'', ''c'']\<rparr>)"
  have nm: "node_Name (example_node ''n1'') = ''n1''" by (simp add: example_node_def)
  have coop: "cooperative one_at_a_time (node_Name (example_node ''n1'')) ?cfg (\<lambda>w. map snd (cl_pods w)) let_terminate"
    by (rule one_at_a_time_cooperative)
  have cfg: "getDrainConfig (example_plan ''p'' [''n1'']) = Some ?cfg"
    by (simp add: getDrainConfig_def example_plan_def example_spec_def)
  have pods: "map snd (cl_pods (st_world ?s)) = map example_pod [''a'', ''b'', ''c'']"
    by (simp add: start_state_def empty_cluster_def)
  have cls: "pod_class ?cfg 0 (example_pod x) = BEvictable" for x
    by (simp add: pod_class_def mirror_def completed_def example_pod_def mhas_def isDaemonSetPod_def hasController_def hasEmptyDir_def)
  have "\<exists>t. drainNode one_at_a_time (example_plan ''p'' [''n1'']) (example_node ''n1'')
        (drain_passes one_at_a_time (example_plan ''p'' [''n1'']) (example_node ''n1'') let_terminate 3 ?s) = (Inr (zero_outcome, None), t)"
    by (rule drain_converges [where now = 0, OF coop cfg], unfold pods)
      (simp_all add: alive_def classifyPods_filters cls, simp_all add: example_pod_def)
  then show ?thesis using coop unfolding nm Let_def by blast
qed

end
