(* ===== verification/Drain_Progress.thy ===== *)
theory Drain_Progress
  imports Drain_Ready Drain_Liveness
begin

text \<open>
  A drain pass over nodes that still have pods, with its goroutines interleaving in any way:
  either there was nothing to move, and every result is drained, or the first eviction the
  pass requests is accepted, some result is not drained, and there is less to move than
  before. The cluster's side is \<open>pods_laws\<close>: an accepted eviction takes the pod away, and one is
  refused for a budget only while pods evicted before are still terminating.
\<close>

section \<open>Definitions\<close>

definition all_alive :: "('w \<Rightarrow> string \<Rightarrow> Pod list) \<Rightarrow> 'w \<Rightarrow> bool" where
  "all_alive pods w \<longleftrightarrow> (\<forall>nm. alive (pods w nm) = pods w nm)"

definition gone :: "('w \<Rightarrow> string \<Rightarrow> Pod list) \<Rightarrow> Pod \<Rightarrow> 'w \<Rightarrow> 'w \<Rightarrow> bool" where
  "gone pods pod w w' \<longleftrightarrow> (\<forall>nm. alive (pods w' nm) = remove1 pod (alive (pods w nm)))"

definition pods_laws :: "'w env \<Rightarrow> ('w \<Rightarrow> string \<Rightarrow> Pod list) \<Rightarrow> bool" where
  "pods_laws E pods \<longleftrightarrow>
     (\<forall>nm w. \<exists>w'. k_listPods E nm w = (Inr (pods w nm), w') \<and> pods w' = pods w) \<and>
     (\<forall>w. pods (snd (k_clockNow E w)) = pods w) \<and>
     (\<forall>pod g w. \<exists>r w'. k_evictPod E pod g w = (r, w') \<and> (r = Inr () \<and> gone pods pod w w' \<or>
        (\<exists>e. r = Inl e \<and> IsTooManyRequests e \<and> pods w' = pods w \<and> \<not> all_alive pods w))) \<and>
     (\<forall>pod w. \<exists>w'. k_deletePod E pod w = (Inr (), w') \<and> gone pods pod w w')"

text \<open>None of the pods is held back by the settings of the plan.\<close>

definition unblocked :: "drainConfig \<Rightarrow> Pod list \<Rightarrow> bool" where
  "unblocked cfg pods \<longleftrightarrow> (\<forall>pod \<in> set pods. \<forall>now. pod_class cfg now pod \<noteq> BBlocked)"

text \<open>A goroutine before its first eviction, with \<open>m\<close> to move on its node; and one that has evicted.\<close>

definition nothing_counted :: "drainOutcome \<Rightarrow> bool" where
  "nothing_counted out \<longleftrightarrow> Evicted out = 0 \<and> Terminating out = 0 \<and> StuckTerminating out = 0"

fun quiet_thread :: "drainConfig \<Rightarrow> Pod list \<Rightarrow> drain_thread \<Rightarrow> bool" where
  "quiet_thread cfg m (Evicting c result ps out pdb) = (c = cfg \<and> ps = m \<and> pdb = [] \<and> fr_Blocked result = [] \<and> nothing_counted out)"
| "quiet_thread cfg m (Deleting c result pod ps out pdb) = False"
| "quiet_thread cfg m (Returned out err) = (m = [] \<and> nothing_counted out \<and> err = None)"
| "quiet_thread cfg m (Exited r) = (m = [] \<and> drained r)"
| "quiet_thread cfg m _ = True"

fun moved_thread :: "drain_thread \<Rightarrow> bool" where
  "moved_thread (Evicting c result ps out pdb) = (0 < Evicted out \<and> Evicted out + int (length ps) \<le> maxInt32)"
| "moved_thread (Deleting c result pod ps out pdb) = (0 < Evicted out \<and> Evicted out + int (length ps) < maxInt32)"
| "moved_thread (Returned out err) = (0 < Evicted out)"
| "moved_thread (Exited r) = (0 < Evicted (Outcome r))"
| "moved_thread _ = False"

text \<open>No node has more pods than in \<open>P\<close>.\<close>

definition no_more :: "(string \<Rightarrow> Pod list) \<Rightarrow> (string \<Rightarrow> Pod list) \<Rightarrow> bool" where
  "no_more P Q \<longleftrightarrow> (\<forall>nm. mset (alive (Q nm)) \<subseteq># mset (P nm))"

definition to_move :: "drainConfig \<Rightarrow> Node list \<Rightarrow> (string \<Rightarrow> Pod list) \<Rightarrow> nat" where
  "to_move cfg nodes P = sum_list (map (\<lambda>n. length (movable cfg (P (node_Name n)))) nodes)"

section \<open>The requests\<close>

lemma pods_facts:
  assumes "pods_laws E pods"
  shows "\<And>nm w. \<exists>w'. k_listPods E nm w = (Inr (pods w nm), w') \<and> pods w' = pods w"
    "\<And>w. pods (snd (k_clockNow E w)) = pods w"
    "\<And>pod g w. \<exists>r w'. k_evictPod E pod g w = (r, w') \<and> (r = Inr () \<and> gone pods pod w w' \<or>
        (\<exists>e. r = Inl e \<and> IsTooManyRequests e \<and> pods w' = pods w \<and> \<not> all_alive pods w))"
    "\<And>pod w. \<exists>w'. k_deletePod E pod w = (Inr (), w') \<and> gone pods pod w w'"
  using assms unfolding pods_laws_def by blast+

lemma no_more_trans: "no_more P Q \<Longrightarrow> no_more (\<lambda>nm. alive (Q nm)) Q' \<Longrightarrow> no_more P Q'"
  unfolding no_more_def by (metis subset_mset.order_trans)

lemma no_more_alive: "no_more (\<lambda>nm. alive (Q nm)) Q"
  by (simp add: no_more_def)

lemma gone_no_more: "gone pods pod w w' \<Longrightarrow> no_more (\<lambda>nm. alive (pods w nm)) (pods w')"
  by (simp add: gone_def no_more_def)

text \<open>No turn of a goroutine brings a pod.\<close>

definition no_new_pods :: "('w \<Rightarrow> string \<Rightarrow> Pod list) \<Rightarrow> 'w st \<Rightarrow> 'w st \<Rightarrow> bool" where
  "no_new_pods pods s t \<longleftrightarrow> no_more (\<lambda>nm. alive (pods (st_world s) nm)) (pods (st_world t))"

interpretation no_new: effect "no_new_pods pods" for pods :: "'w \<Rightarrow> string \<Rightarrow> Pod list"
  by unfold_locales (auto simp: no_new_pods_def no_more_alive intro: no_more_trans)

lemma filter_live:
  assumes "pods_laws E pods"
  shows "\<exists>now t. filterPodsForDrain E node cfg s = (Inr (classifyPods (pods (st_world s) (node_Name node)) cfg now), t) \<and>
    pods (st_world t) = pods (st_world s)"
proof -
  obtain w where w: "k_listPods E (node_Name node) (st_world s) = (Inr (pods (st_world s) (node_Name node)), w)" "pods w = pods (st_world s)"
    using pods_facts(1) [OF assms] by blast
  obtain now w' where now: "k_clockNow E w = (now, w')" by force
  then have "pods w' = pods (st_world s)" using pods_facts(2) [OF assms, of w] w(2) by simp
  then show ?thesis using w now
    by (auto simp: filterPodsForDrain_def go_bind_def go_map_err_def client_call_def read_clock_def go_ret_def)
qed

lemma evict_live:
  assumes "pods_laws E pods" "evictPod E pod g s = (r, t)"
  shows "r = Inr () \<and> gone pods pod (st_world s) (st_world t) \<or>
    (\<exists>e. r = Inl e \<and> IsTooManyRequests e \<and> pods (st_world t) = pods (st_world s) \<and> \<not> all_alive pods (st_world s))"
  using assms(2) pods_facts(3) [OF assms(1), of pod g "st_world s"] by (fastforce simp: evictPod_def client_call_def)

lemma delete_live:
  assumes "pods_laws E pods" "client_call (DeletePod pod) (k_deletePod E pod) s = (r, t)"
  shows "r = Inr () \<and> gone pods pod (st_world s) (st_world t)"
  using assms(2) pods_facts(4) [OF assms(1), of pod "st_world s"] by (auto simp: client_call_def)

lemma drain_turn_no_new:
  assumes L: "pods_laws E pods" and turn: "drain_turn E plan node th s = (r, t)"
  shows "no_new_pods pods s t"
proof (cases th)
  case Started
  show ?thesis
  proof (cases "getDrainConfig plan")
    case None
    then show ?thesis using turn Started by (auto simp: go_ret_def no_new.R_refl)
  next
    case (Some cfg)
    then show ?thesis using turn Started filter_live [OF L, of node cfg s]
      by (auto simp: go_try_bind go_ret_def no_new_pods_def no_more_alive)
  qed
next
  case (Evicting c result ps out pdb)
  show ?thesis
  proof (cases ps)
    case Nil
    then show ?thesis using turn Evicting by (auto simp: go_ret_def no_new.R_refl)
  next
    case (Cons pod rest)
    obtain x u where ev: "evictPod E pod (PodTerminationGracePeriodSeconds c) s = (x, u)" by force
    then have "t = u" using turn Evicting Cons by (auto simp: go_try_bind go_ret_def split: sum.split_asm if_split_asm)
    then show ?thesis using evict_live [OF L ev] gone_no_more by (auto simp: no_new_pods_def no_more_alive)
  qed
next
  case (Deleting c result pod ps out pdb)
  obtain x u where del: "client_call (DeletePod pod) (k_deletePod E pod) s = (x, u)" by force
  then have "t = u" using turn Deleting by (auto simp: go_try_bind go_ret_def split: sum.split_asm if_split_asm)
  then show ?thesis using delete_live [OF L del] gone_no_more by (auto simp: no_new_pods_def)
qed (use turn in \<open>auto simp: go_ret_def no_new.R_refl\<close>)

section \<open>The turns of a goroutine\<close>

lemma live_classes:
  assumes "alive pods = pods" "unblocked cfg pods"
  shows "fr_Blocked (classifyPods pods cfg now) = []" "nothing_counted (initial_outcome (classifyPods pods cfg now))"
proof -
  have "\<forall>pod \<in> set pods. pod_DeletionTimestamp pod = None" using assms(1) by (simp add: alive_iff)
  then have "fr_Terminating (classifyPods pods cfg now) = []" "fr_StuckTerminating (classifyPods pods cfg now) = []"
    using alive_class(2,3) by (auto simp: classifyPods_filters filter_empty_conv)
  then show "nothing_counted (initial_outcome (classifyPods pods cfg now))"
    by (simp add: nothing_counted_def initial_outcome_def len32_def i32_def)
  show "fr_Blocked (classifyPods pods cfg now) = []" using assms(2) by (simp add: classifyPods_filters filter_empty_conv unblocked_def)
qed

lemma one_more_counts: "0 \<le> Evicted out \<Longrightarrow> Evicted out < maxInt32 \<Longrightarrow> Evicted (one_more out) = Evicted out + 1"
  by (simp add: one_more_def i32_def maxInt32_def)

lemma drain_turn_moved:
  assumes "moved_thread th" "drain_turn E plan node th s = (Inr th', t)"
  shows "moved_thread th'"
  using assms
  by (cases "(E, plan, node, th)" rule: drain_turn.cases)
    (auto simp: go_try_bind go_ret_def one_more_counts split: sum.split_asm if_split_asm)

lemma drain_turn_quiet:
  assumes L: "pods_laws E pods" and cfg: "getDrainConfig plan = Some cfg" and alive: "all_alive pods (st_world s)"
    and free: "unblocked cfg (pods (st_world s) (node_Name node))" and small: "int (length (pods (st_world s) (node_Name node))) \<le> maxInt32"
    and quiet: "quiet_thread cfg (movable cfg (pods (st_world s) (node_Name node))) th"
    and turn: "drain_turn E plan node th s = (Inr th', t)"
  shows "quiet_thread cfg (movable cfg (pods (st_world s) (node_Name node))) th' \<and> pods (st_world t) = pods (st_world s) \<or>
    moved_thread th' \<and> (\<exists>pod \<in> set (movable cfg (pods (st_world s) (node_Name node))). gone pods pod (st_world s) (st_world t))"
proof (cases th)
  case Started
  obtain now u where f: "filterPodsForDrain E node cfg s = (Inr (classifyPods (pods (st_world s) (node_Name node)) cfg now), u)"
    and u: "pods (st_world u) = pods (st_world s)"
    using filter_live [OF L] by blast
  have "alive (pods (st_world s) (node_Name node)) = pods (st_world s) (node_Name node)" using alive by (simp add: all_alive_def)
  note classes = live_classes [OF this free]
  show ?thesis using turn Started cfg f u classes by (auto simp: go_try_bind go_ret_def evictable_filters)
next
  case (Evicting c result ps out pdb)
  show ?thesis
  proof (cases ps)
    case Nil
    then show ?thesis using turn quiet Evicting by (auto simp: go_ret_def final_error_def)
  next
    case (Cons pod rest)
    let ?mv = "movable cfg (pods (st_world s) (node_Name node))"
    have mv: "?mv = pod # rest" "Evicted out = 0" using quiet Evicting Cons by (auto simp: nothing_counted_def)
    have "length ?mv \<le> length (pods (st_world s) (node_Name node))" by (simp add: movable_def)
    with small mv(1) have room: "1 + int (length rest) \<le> maxInt32" by simp
    obtain x u where ev: "evictPod E pod (PodTerminationGracePeriodSeconds c) s = (x, u)" by force
    with evict_live [OF L ev] alive have "x = Inr ()" "gone pods pod (st_world s) (st_world u)" by auto
    then have "th' = Evicting c result rest (one_more out) pdb" "gone pods pod (st_world s) (st_world t)"
      using turn ev Evicting Cons by (auto simp: go_try_bind go_ret_def)
    moreover have "Evicted (one_more out) = 1" using mv(2) by (simp add: one_more_def i32_def)
    ultimately show ?thesis using room mv(1) by simp
  qed
qed (use turn quiet in \<open>auto simp: go_ret_def\<close>)

section \<open>The pool\<close>

definition pool_progress :: "drainConfig \<Rightarrow> ('w \<Rightarrow> string \<Rightarrow> Pod list) \<Rightarrow> Node list \<Rightarrow> (string \<Rightarrow> Pod list) \<Rightarrow> pool \<times> 'w st \<Rightarrow> bool" where
  "pool_progress cfg pods nodes P x \<longleftrightarrow> length (threads (fst x)) = length nodes \<and>
     (pods (st_world (snd x)) = P \<and>
        (\<forall>i < length nodes. quiet_thread cfg (movable cfg (P (node_Name (nodes ! i)))) (threads (fst x) ! i)) \<or>
      (\<exists>i < length nodes. moved_thread (threads (fst x) ! i) \<and>
        (\<exists>pod \<in> set (movable cfg (P (node_Name (nodes ! i)))). no_more (\<lambda>nm. remove1 pod (P nm)) (pods (st_world (snd x))))))"

lemma pool_progress_turn:
  assumes L: "pods_laws E pods" and cfg: "getDrainConfig plan = Some cfg"
    and alive: "\<And>nm. alive (P nm) = P nm"
    and free: "\<And>n. n \<in> set nodes \<Longrightarrow> unblocked cfg (P (node_Name n)) \<and> int (length (P (node_Name n))) \<le> maxInt32"
    and inv: "pool_progress cfg pods nodes P (Q, s)" and step: "pool_step E plan nodes k (Q, s) (Q', t)"
  shows "pool_progress cfg pods nodes P (Q', t)"
proof -
  from step obtain i where i: "i \<in> set (enabled k Q)" "pool_turn E plan nodes i Q s = (Inr Q', t)" by (rule pool_stepE)
  have len: "length (threads Q) = length nodes" using inv by (simp add: pool_progress_def)
  then have bound: "i < length nodes" using i(1) by (simp add: enabled_iff)
  obtain th' where th': "threads Q' = (threads Q)[i := th']" "no_new_pods pods s t"
      "moved_thread (threads Q ! i) \<Longrightarrow> moved_thread th'"
      "\<And>m. quiet_thread cfg m (threads Q ! i) \<Longrightarrow> pods (st_world s) = P \<Longrightarrow> m = movable cfg (P (node_Name (nodes ! i))) \<Longrightarrow>
        quiet_thread cfg m th' \<and> pods (st_world t) = P \<or>
        moved_thread th' \<and> (\<exists>pod \<in> set m. gone pods pod (st_world s) (st_world t))"
    using i(2,1)
  proof (cases rule: pool_turn_cases)
    case enter
    then show ?thesis using that [of Started] by (simp add: no_new.R_refl)
  next
    case (leave out err)
    then show ?thesis using that [of "Exited \<lparr>NodeName = node_Name (nodes ! i), Outcome = out, Err = err\<rparr>"]
      by (simp add: no_new.R_refl drained_def nothing_counted_def)
  next
    case (work th)
    have "nodes ! i \<in> set nodes" using bound by simp
    note f = free [OF this]
    show ?thesis
    proof (rule that [of th])
      show "no_new_pods pods s t" by (rule drain_turn_no_new [OF L work(1)])
      show "moved_thread (threads Q ! i) \<Longrightarrow> moved_thread th" by (rule drain_turn_moved [OF _ work(1)])
      fix m assume q: "quiet_thread cfg m (threads Q ! i)" "pods (st_world s) = P" "m = movable cfg (P (node_Name (nodes ! i)))"
      have "all_alive pods (st_world s)" using q(2) alive by (simp add: all_alive_def)
      from drain_turn_quiet [OF L cfg this _ _ _ work(1)] f q
      show "quiet_thread cfg m th \<and> pods (st_world t) = P \<or>
          moved_thread th \<and> (\<exists>pod \<in> set m. gone pods pod (st_world s) (st_world t))"
        by simp
    qed (use work in simp)
  qed
  have at: "threads Q' ! j = (if j = i then th' else threads Q ! j)" if "j < length nodes" for j
    using th'(1) len that by (simp add: nth_list_update)
  have len': "length (threads Q') = length nodes" using th'(1) len by simp
  consider (quiet) "pods (st_world s) = P" "\<forall>j < length nodes. quiet_thread cfg (movable cfg (P (node_Name (nodes ! j)))) (threads Q ! j)"
    | (moved) j pod where "j < length nodes" "moved_thread (threads Q ! j)" "pod \<in> set (movable cfg (P (node_Name (nodes ! j))))"
      "no_more (\<lambda>nm. remove1 pod (P nm)) (pods (st_world s))"
    using inv unfolding pool_progress_def fst_conv snd_conv by blast
  then show ?thesis
  proof cases
    case quiet
    from th'(4) [OF _ quiet(1) refl] quiet(2) bound
    consider "quiet_thread cfg (movable cfg (P (node_Name (nodes ! i)))) th'" "pods (st_world t) = P"
      | pod where "moved_thread th'" "pod \<in> set (movable cfg (P (node_Name (nodes ! i))))" "gone pods pod (st_world s) (st_world t)"
      by blast
    then show ?thesis
    proof cases
      case 1
      then show ?thesis using quiet(2) at len' by (simp add: pool_progress_def)
    next
      case 2
      have "no_more (\<lambda>nm. remove1 pod (P nm)) (pods (st_world t))"
        using 2(3) alive quiet(1) by (simp add: gone_def no_more_def)
      then show ?thesis using 2 bound at [OF bound] len' by (auto simp: pool_progress_def)
    qed
  next
    case moved
    have "no_more (\<lambda>nm. remove1 pod (P nm)) (pods (st_world t))"
      using no_more_trans [OF moved(4)] th'(2) by (simp add: no_new_pods_def)
    moreover have "moved_thread (threads Q' ! j)" using at [OF moved(1)] moved(2) th'(3) by auto
    ultimately show ?thesis using moved(1,3) len' by (auto simp: pool_progress_def)
  qed
qed

lemma pool_progress_run:
  assumes L: "pods_laws E pods" and cfg: "getDrainConfig plan = Some cfg"
    and alive: "\<And>nm. alive (P nm) = P nm"
    and free: "\<And>n. n \<in> set nodes \<Longrightarrow> unblocked cfg (P (node_Name n)) \<and> int (length (P (node_Name n))) \<le> maxInt32"
    and run: "(pool_step E plan nodes k)\<^sup>*\<^sup>* x y" and start: "pool_progress cfg pods nodes P x"
  shows "pool_progress cfg pods nodes P y"
  using run
proof (induction rule: rtranclp_induct)
  case base
  show ?case by (rule start)
next
  case (step y z)
  obtain Q s Q' t where yz: "y = (Q, s)" "z = (Q', t)" by (cases y; cases z)
  show ?case unfolding yz
    by (rule pool_progress_turn [where P = P and nodes = nodes, OF L cfg alive free step.IH [unfolded yz] step.hyps(2) [unfolded yz]])
qed

lemma sum_list_less:
  fixes f g :: "'a \<Rightarrow> nat"
  assumes "\<And>x. f x \<le> g x" "y \<in> set xs" "f y < g y"
  shows "sum_list (map f xs) < sum_list (map g xs)"
  using assms(2)
proof (induction xs)
  case (Cons x xs)
  have "sum_list (map f xs) \<le> sum_list (map g xs)" using assms(1) by (intro sum_list_mono)
  with Cons assms(1) [of x] assms(3) show ?case by (cases "y = x") auto
qed simp

lemma to_move_less:
  assumes "pod \<in> set (movable cfg (P (node_Name n)))" "n \<in> set nodes" "no_more (\<lambda>nm. remove1 pod (P nm)) Q"
  shows "to_move cfg nodes (\<lambda>nm. alive (Q nm)) < to_move cfg nodes P"
proof -
  have fewer: "length (movable cfg (alive (Q nm))) \<le> length (movable cfg (remove1 pod (P nm)))" for nm
    using assms(3) unfolding no_more_def by (intro movable_mono) blast
  have some: "length (movable cfg (remove1 pod (P nm))) \<le> length (movable cfg (P nm))" for nm
    by (rule movable_mono) (simp add: mset_remove1 diff_subset_eq_self)
  have "length (movable cfg (alive (Q (node_Name n)))) < length (movable cfg (P (node_Name n)))"
    using fewer [of "node_Name n"] movable_remove1 [OF assms(1)] by linarith
  moreover have "length (movable cfg (alive (Q nm))) \<le> length (movable cfg (P nm))" for nm
    using fewer [of nm] some [of nm] by linarith
  ultimately show ?thesis unfolding to_move_def
    using assms(2) by (intro sum_list_less [of _ _ n]) simp_all
qed

lemma no_more_remove1: "no_more (\<lambda>nm. remove1 pod (P nm)) Q \<Longrightarrow> no_more P Q"
  unfolding no_more_def by (metis diff_subset_eq_self mset_remove1 subset_mset.order_trans)

lemma drainNodes_live:
  assumes L: "pods_laws E pods" and cfg: "getDrainConfig plan = Some cfg" and k: "0 < k"
    and alive: "\<And>nm. alive (P nm) = P nm"
    and free: "\<And>n. n \<in> set nodes \<Longrightarrow> unblocked cfg (P (node_Name n)) \<and> int (length (P (node_Name n))) \<le> maxInt32"
    and start: "pods (st_world s) = P" and run: "drainNodes E plan nodes k s = (Inr ds, t)"
  shows "to_move cfg nodes P = 0 \<and> (\<forall>x \<in> set ds. drained x) \<and> pods (st_world t) = P \<or>
    (\<exists>x \<in> set ds. \<not> drained x) \<and> to_move cfg nodes (\<lambda>nm. alive (pods (st_world t) nm)) < to_move cfg nodes P \<and> no_more P (pods (st_world t))"
proof -
  obtain Q u where loop: "pool_loop E plan nodes k 0 (start_pool (length nodes)) s = (Inr Q, u)"
      "(pool_step E plan nodes k)\<^sup>*\<^sup>* (start_pool (length nodes), s) (Q, u)" "enabled k Q = []"
    using pool_loop_run by blast
  have ds: "ds = map result_of (threads Q)" and t: "t = u"
    using run by (simp_all add: drainNodes_def go_bind_def loop(1) go_ret_def)
  have inv: "pool_inv nodes k Q" using pool_inv_reachable [OF loop(2)] pool_inv_start by simp
  have first: "pool_progress cfg pods nodes P (start_pool (length nodes), s)"
    using start by (simp add: pool_progress_def start_pool_def)
  have prog: "pool_progress cfg pods nodes P (Q, t)"
    unfolding t by (rule pool_progress_run [where P = P and nodes = nodes, OF L cfg alive free loop(2) first])
  have exit: "\<exists>r. threads Q ! i = Exited r \<and> r \<in> set ds" if i: "i < length nodes" for i
  proof -
    obtain r where r: "threads Q ! i = Exited r" using pool_finished [OF inv k loop(3) i] by blast
    moreover have "result_of (threads Q ! i) \<in> set ds" using i prog by (simp add: ds pool_progress_def)
    ultimately show ?thesis by (simp add: result_of_def)
  qed
  have len: "length (threads Q) = length nodes" using prog by (simp add: pool_progress_def)
  consider (quiet) "pods (st_world t) = P" "\<forall>j < length nodes. quiet_thread cfg (movable cfg (P (node_Name (nodes ! j)))) (threads Q ! j)"
    | (moved) j pod where "j < length nodes" "moved_thread (threads Q ! j)" "pod \<in> set (movable cfg (P (node_Name (nodes ! j))))"
      "no_more (\<lambda>nm. remove1 pod (P nm)) (pods (st_world t))"
    using prog unfolding pool_progress_def fst_conv snd_conv by blast
  then show ?thesis
  proof cases
    case quiet
    have none: "movable cfg (P (node_Name (nodes ! j))) = [] \<and> drained (result_of (threads Q ! j))" if "j < length nodes" for j
    proof -
      obtain r where "threads Q ! j = Exited r" using exit [OF \<open>j < length nodes\<close>] by blast
      with quiet(2) that show ?thesis by (auto simp: result_of_def)
    qed
    have "\<forall>x \<in> set ds. drained x" using none len by (auto simp: ds in_set_conv_nth)
    moreover have "to_move cfg nodes P = 0" using none by (auto simp: to_move_def in_set_conv_nth)
    ultimately show ?thesis using quiet(1) by blast
  next
    case moved
    obtain r where r: "threads Q ! j = Exited r" "r \<in> set ds" using exit [OF moved(1)] by blast
    then have "\<not> drained r" using moved(2) by (simp add: drained_def)
    moreover have "nodes ! j \<in> set nodes" using moved(1) by simp
    ultimately show ?thesis using r(2) to_move_less [OF moved(3) _ moved(4)] no_more_remove1 [OF moved(4)] by blast
  qed
qed

end
