(* ===== verification/Plan_Ready.thy ===== *)
theory Plan_Ready
  imports First_Pass Drain_Progress
begin

text \<open>
  The life of a plan, from its creation to phase \<open>Ready\<close>, on nodes with pods: the first pass
  adopts and cordons (\<open>First_Pass\<close>), every pass after it evicts (\<open>Drain_Progress\<close>) and asks to
  be run again, until one finds nothing left to move and reports the plan ready. Between two
  passes the pods that were evicted terminate (\<open>settle\<close>). The measure is the number of pods
  still to move on the plan's nodes.
\<close>

section \<open>Definitions\<close>

text \<open>
  A server that only the reconciler writes to, with the pods of each node (\<open>pods\<close>), which only
  evictions and deletions take away, and between two passes their end.
\<close>

definition running_laws :: "'w env \<Rightarrow> ('w \<Rightarrow> string \<Rightarrow> Node option) \<Rightarrow> ('w \<Rightarrow> Plan) \<Rightarrow> ('w \<Rightarrow> string \<Rightarrow> Pod list) \<Rightarrow> ('w \<Rightarrow> 'w) \<Rightarrow> bool" where
  "running_laws E nd pl pods settle \<longleftrightarrow> stored_laws E nd pl \<and> pods_laws E pods \<and> kept_by E pods \<and> answers_lists E \<and>
     (\<forall>w. nd (settle w) = nd w \<and> pl (settle w) = pl w \<and> pods (settle w) = (\<lambda>nm. alive (pods w nm)))"

text \<open>Pods that are not terminating, and not held back by the settings.\<close>

definition pods_free :: "drainConfig \<Rightarrow> Node list \<Rightarrow> (string \<Rightarrow> Pod list) \<Rightarrow> bool" where
  "pods_free cfg nodes P \<longleftrightarrow> (\<forall>nm. alive (P nm) = P nm) \<and>
     (\<forall>n \<in> set nodes. unblocked cfg (P (node_Name n)) \<and> int (length (P (node_Name n))) \<le> maxInt32)"

text \<open>The plan's nodes are adopted, and the plan has not timed out.\<close>

definition in_hand :: "'w env \<Rightarrow> ('w \<Rightarrow> string \<Rightarrow> Node option) \<Rightarrow> ('w \<Rightarrow> Plan) \<Rightarrow> Plan \<Rightarrow> Node list \<Rightarrow> (string \<Rightarrow> Node option) \<Rightarrow> 'w \<Rightarrow> bool" where
  "in_hand E nd pl plan nodes N w \<longleftrightarrow> nd w = adopted_but (with_finalizer E plan) (node_Name ` set nodes) {} N \<and>
     same_plan (pl w) (with_finalizer E plan) \<and> \<not> isConditionTrue E (pl w) ConditionDrainTimedOut"

text \<open>The state in which the pass after \<open>n\<close> others starts.\<close>

fun after_passes :: "'w env \<Rightarrow> string \<Rightarrow> ('w \<Rightarrow> 'w) \<Rightarrow> nat \<Rightarrow> 'w st \<Rightarrow> 'w st" where
  "after_passes E name settle 0 s = s"
| "after_passes E name settle (Suc n) s =
     (let t = snd (Reconcile E name (after_passes E name settle n s)) in t\<lparr>st_world := settle (st_world t), st_trace := []\<rparr>)"

text \<open>What a pass over nodes with the pods \<open>P\<close> comes to: ready, or to be run again with less to move.\<close>

definition pass_comes_to :: "'w env \<Rightarrow> ('w \<Rightarrow> string \<Rightarrow> Node option) \<Rightarrow> ('w \<Rightarrow> Plan) \<Rightarrow> ('w \<Rightarrow> string \<Rightarrow> Pod list) \<Rightarrow> Plan \<Rightarrow>
    drainConfig \<Rightarrow> Node list \<Rightarrow> (string \<Rightarrow> Node option) \<Rightarrow> (string \<Rightarrow> Pod list) \<Rightarrow> duration \<Rightarrow> 'w st \<Rightarrow> bool" where
  "pass_comes_to E nd pl pods plan cfg nodes N P d t \<longleftrightarrow>
     to_move cfg nodes P = 0 \<and> d = 0 \<and> all_reported (map node_Name nodes) (st_plan t) \<or>
     0 < d \<and> in_hand E nd pl plan nodes N (st_world t) \<and> no_more P (pods (st_world t)) \<and>
       to_move cfg nodes (\<lambda>nm. alive (pods (st_world t) nm)) < to_move cfg nodes P"

section \<open>A drain pass\<close>

lemma running_facts:
  assumes "running_laws E nd pl pods settle"
  shows "stored_laws E nd pl" "pods_laws E pods" "kept_by E pods" "answers_lists E"
    "\<And>w. nd (settle w) = nd w" "\<And>w. pl (settle w) = pl w" "\<And>w. pods (settle w) = (\<lambda>nm. alive (pods w nm))"
  using assms unfolding running_laws_def by blast+

lemma applyDrainResults_synced:
  assumes "stored_laws E nd pl"
  shows "triple P (applyDrainResults E ds) (\<lambda>_. synced pl) (\<lambda>_. True)"
proof -
  have ret: "triple (synced pl) (go_ret d) (\<lambda>_. synced pl) (\<lambda>_. True)" for d by (rule triple_ret)
  have patch: "triple (\<lambda>_. True) (go_then (go_map_err f (patch_plan_status E original)) (go_ret d)) (\<lambda>_. synced pl) (\<lambda>_. True)"
    for f original d
    by (rule triple_then [OF triple_map_err [OF synced_patch [OF assms]] ret])
  have abort: "triple (\<lambda>_. True) (abort_drain E original minutes) (\<lambda>_. synced pl) (\<lambda>_. True)" for original minutes
    unfolding abort_drain_def by (rule triple_then [OF triple_any], rule triple_then [OF triple_any], rule patch)
  have conclude: "triple (\<lambda>_. True) (conclude_drain E original fl) (\<lambda>_. synced pl) (\<lambda>_. True)" for original fl
    unfolding conclude_drain_def
    by (rule triple_then [OF triple_any], rule triple_bind [OF triple_any], rule triple_then [OF triple_any],
        rule triple_then [OF triple_any], rule patch)
  have finish: "triple (\<lambda>_. True) (case x of Some minutes \<Rightarrow> abort_drain E original minutes | None \<Rightarrow> conclude_drain E original fl)
      (\<lambda>_. synced pl) (\<lambda>_. True)" for x original fl
    by (cases x) (simp_all add: abort conclude)
  show ?thesis
    unfolding applyDrainResults_def
    by (rule triple_bind [OF triple_any], rule triple_bind [OF triple_any], rule triple_bind [OF triple_any],
        rule triple_then [OF triple_any], rule triple_bind [OF triple_any], rule finish)
qed

lemma drain_again:
  fixes E :: "'w env"
  assumes laws: "condition_laws E" and accepts: "accepts_status E" and run: "applyDrainResults E ds s = (r, t)"
    and some: "\<exists>x \<in> set ds. \<not> drained x" and no_limit: "drain_timeout (st_plan s) = None"
    and live: "\<not> isConditionTrue E (st_plan s) ConditionDrainTimedOut"
  shows "\<exists>d. r = Inr d \<and> 0 < d \<and> \<not> isConditionTrue E (st_plan t) ConditionDrainTimedOut"
proof -
  obtain p d where p: "st_trace t = st_trace s @ [PatchPlanStatus (st_plan s) p]" "drain_report E False (st_plan s) ds p d"
      "\<forall>x. r = Inr x \<longrightarrow> x = d"
    using applyDrainResults_sends [OF run, of False] by blast
  obtain q where q: "st_trace t = st_trace s @ [PatchPlanStatus (st_plan s) q]" "st_plan t = q" "\<exists>d. r = Inr d"
    using drained_marks_sent [OF run] accepts by blast
  have same: "q = p" using p(1) q(1) by simp
  have "overdue (record_start now (st_plan s)) now = None" for now
    using no_limit by (simp add: overdue_def drain_timeout_def split: option.split)
  with drain_report_conditions [OF laws p(2)] have "drain_concluded E (st_plan s) ds p d" by auto
  then have "0 < d" "\<not> isConditionTrue E p ConditionDrainTimedOut"
    using some live by (auto simp: drain_concluded_def drainCheckInterval_def drainBlockedRetry_def second_def)
  then show ?thesis using p(3) q(2,3) same by auto
qed

text \<open>The state in which the steps of a later pass leave each other.\<close>

definition working :: "('w \<Rightarrow> string \<Rightarrow> Node option) \<Rightarrow> ('w \<Rightarrow> Plan) \<Rightarrow> ('w \<Rightarrow> string \<Rightarrow> Pod list) \<Rightarrow> (string \<Rightarrow> Node option) \<Rightarrow>
    Plan \<Rightarrow> (string \<Rightarrow> Pod list) \<Rightarrow> 'w st \<Rightarrow> bool" where
  "working nd pl pods N q P s \<longleftrightarrow> nd (st_world s) = N \<and> same_plan (st_plan s) q \<and> pods (st_world s) = P"

lemma to_move_names:
  assumes "mset (map node_Name ns) = mset (map node_Name nodes)"
  shows "to_move cfg ns Q = to_move cfg nodes Q"
proof -
  have "mset (map (\<lambda>a. length (movable cfg (Q a))) (map node_Name ns)) = mset (map (\<lambda>a. length (movable cfg (Q a))) (map node_Name nodes))"
    using assms by (metis mset_map)
  then show ?thesis unfolding to_move_def using sum_mset_sum_list by (metis (no_types, lifting) map_map comp_def map_eq_conv)
qed

lemma ReconcileDrain_comes:
  fixes E :: "'w env"
  assumes L: "running_laws E nd pl pods settle" and laws: "condition_laws E"
    and own: "owned E W q cfg nodes" and no_limit: "drain_timeout q = None" and free: "pods_free cfg nodes P"
    and calm: "calm (map node_Name nodes) res" and stable: "Stable res = res_All res"
    and heap: "\<And>n. n \<in> set nodes \<Longrightarrow> h (node_Name n) = Some n"
  shows "triple (\<lambda>s. stage E ok q h (entries_for E (res_All res)) s \<and> working nd pl pods N q P s) (ReconcileDrain E res)
    (\<lambda>d t. to_move cfg nodes P = 0 \<and> d = 0 \<and> all_reported (map node_Name nodes) (st_plan t) \<or>
       0 < d \<and> nd (st_world t) = N \<and> same_plan (pl (st_world t)) q \<and> \<not> isConditionTrue E (pl (st_world t)) ConditionDrainTimedOut \<and>
       no_more P (pods (st_world t)) \<and> to_move cfg nodes (\<lambda>nm. alive (pods (st_world t) nm)) < to_move cfg nodes P) (\<lambda>_. False)"
  unfolding triple_def
proof (intro allI impI)
  note f = owned_facts [OF own] and r = running_facts [OF L]
  fix s :: "'w st" assume s: "stage E ok q h (entries_for E (res_All res)) s \<and> working nd pl pods N q P s"
  obtain r t where run: "ReconcileDrain E res s = (r, t)" by force
  let ?p = "st_plan s"
  have at: "Spec ?p = Spec q" "\<not> isConditionTrue E ?p ConditionDrainTimedOut" "\<not> isConditionTrue E ?p ConditionConflict"
    "nd (st_world s) = N" "same_plan ?p q" "pods (st_world s) = P"
    using s by (simp_all add: stage_def entries_for_def working_def)
  obtain ns where ns: "map Some ns = map (st_heap s) (Stable res)" "set ns = set nodes" "ns \<noteq> []" "mset (map node_Name ns) = mset (map node_Name nodes)"
      "mset (map ns_Name (status_Nodes (Status ?p))) = mset (map node_Name nodes)" "status_Nodes (Status ?p) \<noteq> []"
      "distinct (map ns_Name (status_Nodes (Status ?p)))"
      "\<forall>e \<in> set (status_Nodes (Status ?p)). Cordoned e \<and> ns_Name e \<in> node_Name ` set ns"
    by (rule drain_targets [OF heap calm stable f(7,8) conjunct1 [OF s]])
  have cfg: "getDrainConfig ?p = Some cfg" using f(13) at(1) by (simp add: getDrainConfig_def)
  obtain ds t1 where d1: "drainNodes E ?p ns (max_parallel ?p) s = (Inr ds, t1)" "map NodeName ds = map node_Name ns"
      "st_plan t1 = ?p" "applyDrainResults E ds t1 = (r, t)"
    using ReconcileDrain_body [OF cfg at(2) ns(1) _ ns(3) run] f(12) ns(2) by blast
  have alive: "\<And>nm. alive (P nm) = P nm" and free': "\<And>n. n \<in> set ns \<Longrightarrow> unblocked cfg (P (node_Name n)) \<and> int (length (P (node_Name n))) \<le> maxInt32"
    using free ns(2) by (simp_all add: pods_free_def)
  have "node_Name ` set ns = NodeName ` set ds" using d1(2) by (metis list.set_map)
  with ns(8) have entries: "\<forall>e \<in> set (status_Nodes (Status ?p)). Cordoned e \<and> ns_Name e \<in> NodeName ` set ds" by simp
  have moves: "to_move cfg ns Q = to_move cfg nodes Q" for Q by (rule to_move_names [OF ns(4)])
  have "obeys (keeps_store E nd pl) (ReconcileDrain E res)"
    by (rule pass_store.obeys_ReconcileDrain) (auto elim: pod_call.elims)
  from obeysD [OF this run] r(1) at(4,5) have kept: "nd (st_world t) = N" "same_plan (st_plan t) q"
    by (auto simp: keeps_store_def same_plan_def)
  have "obeys (keeps_read E pods) (applyDrainResults E ds)" by (rule pass_read.obeys_applyDrainResults) simp
  from obeysD [OF this d1(4)] r(3) have pods: "pods (st_world t) = pods (st_world t1)" by (simp add: keeps_read_def)
  have "to_move cfg ns P = 0 \<and> (\<forall>x \<in> set ds. drained x) \<and> pods (st_world t1) = P \<or>
    (\<exists>x \<in> set ds. \<not> drained x) \<and> to_move cfg ns (\<lambda>nm. alive (pods (st_world t1) nm)) < to_move cfg ns P \<and> no_more P (pods (st_world t1))"
    by (rule drainNodes_live [where P = P and nodes = ns, OF r(2) cfg max_parallel_pos alive free' at(6) d1(1)])
  then consider (idle) "to_move cfg nodes P = 0" "\<forall>x \<in> set ds. drained x"
    | (more) "\<exists>x \<in> set ds. \<not> drained x" "to_move cfg nodes (\<lambda>nm. alive (pods (st_world t) nm)) < to_move cfg nodes P"
        "no_more P (pods (st_world t))"
    unfolding moves pods by (elim disjE conjE)
  then show "case ReconcileDrain E res s of (Inl e, t) \<Rightarrow> False
      | (Inr d, t) \<Rightarrow> to_move cfg nodes P = 0 \<and> d = 0 \<and> all_reported (map node_Name nodes) (st_plan t) \<or>
       0 < d \<and> nd (st_world t) = N \<and> same_plan (pl (st_world t)) q \<and> \<not> isConditionTrue E (pl (st_world t)) ConditionDrainTimedOut \<and>
       no_more P (pods (st_world t)) \<and> to_move cfg nodes (\<lambda>nm. alive (pods (st_world t) nm)) < to_move cfg nodes P"
  proof cases
    case idle
    obtain p where p: "map ns_Name (status_Nodes (Status p)) = map ns_Name (status_Nodes (Status ?p))" "list_all ReadyForMaintenance (status_Nodes (Status p))"
        "AllNodesReadyForMaintenance (Status p)" "Phase (Status p) = PhaseReady" "st_plan t = p" "r = Inr noRequeue"
      using drained_pass [OF laws d1(4) idle(2)] d1(3) at(2,3) ns(6,7) entries f(10) by auto
    have "mset (map ns_Name (status_Nodes (Status p))) = mset (map node_Name nodes)" unfolding p(1) by (rule ns(5))
    then show ?thesis using idle(1) p by (simp add: run all_reported_def noRequeue_def del: mset_map)
  next
    case more
    have "drain_timeout (st_plan t1) = None" using no_limit at(1) d1(3) by (simp add: drain_timeout_def)
    then obtain d where d: "r = Inr d" "0 < d" "\<not> isConditionTrue E (st_plan t) ConditionDrainTimedOut"
      using drain_again [OF laws f(10) d1(4) more(1)] at(2) d1(3) by auto
    have "synced pl t"
      by (rule tripleD_Inr [OF applyDrainResults_synced [OF r(1), of "\<lambda>_. True"] TrueI]) (use d1(4) d(1) in simp)
    then have "pl (st_world t) = st_plan t" by (simp add: synced_def)
    then show ?thesis using more d kept by (simp add: run)
  qed
qed

section \<open>A pass\<close>

lemma working_keeps:
  assumes "stored_laws E nd pl" "kept_by E pods" "working nd pl pods N q P s" "keeps_store E nd pl s t \<and> keeps_read E pods s t"
  shows "working nd pl pods N q P t"
  using assms by (auto simp: working_def keeps_store_def keeps_read_def same_plan_def)

lemma adopted_moves: "to_move cfg (map (adopted p) nodes) P = to_move cfg nodes P"
  by (simp add: to_move_def adopted_facts o_def)

lemma later_pass:
  fixes E :: "'w env"
  assumes L: "running_laws E nd pl pods settle" and laws: "condition_laws E" and range: "range_laws E" and fin: "finalizer_laws E"
    and fresh: "fresh E N plan cfg nodes" and no_limit: "drain_timeout plan = None"
    and hand: "in_hand E nd pl plan nodes N (st_world s)" and free: "pods_free cfg nodes (pods (st_world s))"
    and start: "st_trace s = []"
  shows "\<exists>d t. Reconcile E (plan_Name plan) s = (Inr d, t) \<and> pass_comes_to E nd pl pods plan cfg nodes N (pods (st_world s)) d t"
proof -
  let ?plan = "with_finalizer E plan" and ?q = "pl (st_world s)" and ?P = "pods (st_world s)"
  let ?N = "adopted_but (with_finalizer E plan) (node_Name ` set nodes) {} N" and ?new = "map (adopted (with_finalizer E plan)) nodes"
  let ?W = "\<lambda>w. nd w = ?N \<and> pl w = ?q \<and> pods w = ?P" and ?S = "working nd pl pods ?N ?q ?P"
  note r = running_facts [OF L]
  have q: "nd (st_world s) = ?N" "same_plan ?q ?plan" "\<not> isConditionTrue E ?q ConditionDrainTimedOut"
    using hand by (simp_all add: in_hand_def)
  have own: "owned E ?W ?q cfg ?new" by (rule adopted_owned [OF r(1,3) fin fresh q(2,3)])
  note f = owned_facts [OF own]
  have name: "plan_Name ?q = plan_Name plan" and spec: "Spec ?q = Spec plan"
    using q(2) by (simp_all add: same_plan_def with_finalizer_facts)
  have names: "map node_Name ?new = map node_Name nodes" by (simp add: adopted_facts o_def)
  have any: "permits (\<lambda>_. True)" by (simp add: permits_def)
  have cordoned: "\<And>n. n \<in> set ?new \<Longrightarrow> Unschedulable n" using f(12) by blast
  have new_free: "pods_free cfg ?new ?P" using free by (auto simp: pods_free_def adopted_facts)
  have limit: "drain_timeout ?q = None" using no_limit spec by (simp add: drain_timeout_def)
  obtain w where w: "k_getPlan E (plan_Name plan) (st_world s) = (Inr ?q, w)" "?W w"
    using f(1) [of "st_world s"] q(1) name by auto
  let ?u = "s\<lparr>st_world := w, st_trace := st_trace s @ [GetPlan (plan_Name plan)], st_plan := ?q\<rparr>"
  let ?Q = "\<lambda>d t. to_move cfg ?new ?P = 0 \<and> d = 0 \<and> all_reported (map node_Name ?new) (st_plan t) \<or>
       0 < d \<and> nd (st_world t) = ?N \<and> same_plan (pl (st_world t)) ?q \<and> \<not> isConditionTrue E (pl (st_world t)) ConditionDrainTimedOut \<and>
       no_more ?P (pods (st_world t)) \<and> to_move cfg ?new (\<lambda>nm. alive (pods (st_world t) nm)) < to_move cfg ?new ?P"
  have "\<exists>d t. reconcile_live E ?u = (Inr d, t) \<and> ?Q d t"
  proof (rule live_owned [where I = ?S and I0 = "\<lambda>s. ?W (st_world s)" and ok = "\<lambda>_. True" and Q = ?Q, OF own range any])
    fix res h assume calm: "calm (map node_Name ?new) res" and heap: "\<And>n. n \<in> set ?new \<Longrightarrow> h (node_Name n) = Some n"
    have "obeys (\<lambda>s t. keeps_store E nd pl s t \<and> keeps_read E pods s t) (UpdateStatus E res)"
      by (rule obeys_both [OF pass_store.obeys_UpdateStatus pass_read.obeys_UpdateStatus]) simp_all
    from triple_keeping [OF UpdateStatus_stage [OF heap calm laws f(10) any cordoned] this working_keeps [OF r(1,3)]]
    show "triple (\<lambda>s. stage E (\<lambda>_. True) ?q h (\<lambda>p. p = ?q) s \<and> ?W (st_world s)) (UpdateStatus E res)
        (\<lambda>_ s. stage E (\<lambda>_. True) ?q h (entries_for E (res_All res)) s \<and> ?S s) (\<lambda>_. False)"
      by (rule triple_weaken) (auto simp: stage_def working_def)
    have "obeys (\<lambda>s t. keeps_store E nd pl s t \<and> keeps_read E pods s t) (ReconcilePreview E res)"
      by (rule obeys_both [OF pass_store.obeys_ReconcilePreview pass_read.obeys_ReconcilePreview]) (auto elim: dry_call.elims)
    from triple_keeping [OF ReconcilePreview_runs [OF f(10) any r(4) calm heap] this working_keeps [OF r(1,3)]]
    show "triple (\<lambda>s. stage E (\<lambda>_. True) ?q h (entries_for E (res_All res)) s \<and> ?S s) (ReconcilePreview E res)
        (\<lambda>_ s. stage E (\<lambda>_. True) ?q h (entries_for E (res_All res)) s \<and> ?S s) (\<lambda>_. False)" .
    show "triple (\<lambda>s. stage E (\<lambda>_. True) ?q h (entries_for E (res_All res)) s \<and> ?S s) (ReconcileDrain E res) ?Q (\<lambda>_. False)"
      if "Stable res = res_All res"
      by (rule ReconcileDrain_comes [OF L laws own limit new_free calm that heap])
  next
    fix t :: "'w st" assume t: "?W (st_world t)"
    show "?W (st_world (t\<lparr>st_world := snd (k_clockNow E (st_world t))\<rparr>))"
      using t stored_facts(2) [OF r(1), of "st_world t"] r(3) by (simp add: kept_by_def)
  qed (use w start in simp_all)
  then obtain d t where t: "reconcile_live E ?u = (Inr d, t)" "?Q d t" by blast
  have "Reconcile E (plan_Name plan) s = (Inr d, t)" using Reconcile_found [OF w(1)] f(2) t(1) by simp
  moreover have "pass_comes_to E nd pl pods plan cfg nodes N ?P d t"
    using t(2) q(2) unfolding pass_comes_to_def in_hand_def adopted_moves names by (auto simp: same_plan_def)
  ultimately show ?thesis by blast
qed

section \<open>The passes\<close>

text \<open>Once the evicted pods are gone, the next pass starts where this one ended.\<close>

lemma settled_between:
  assumes L: "running_laws E nd pl pods settle" and free: "pods_free cfg nodes P"
    and hand: "in_hand E nd pl plan nodes N w" and fewer: "no_more P (pods w)"
  shows "in_hand E nd pl plan nodes N (settle w)" "pods_free cfg nodes (pods (settle w))"
proof -
  note r = running_facts [OF L]
  show "in_hand E nd pl plan nodes N (settle w)" using hand r(5,6) by (simp add: in_hand_def)
  have sub: "mset (alive (pods w nm)) \<subseteq># mset (P nm)" for nm using fewer by (simp add: no_more_def)
  have "unblocked cfg (alive (pods w nm))" if "unblocked cfg (P nm)" for nm
    using that set_mset_mono [OF sub [of nm]] unfolding unblocked_def set_mset_mset by blast
  moreover have "length (alive (pods w nm)) \<le> length (P nm)" for nm using size_mset_mono [OF sub [of nm]] by simp
  then have "int (length (alive (pods w nm))) \<le> maxInt32" if "int (length (P nm)) \<le> maxInt32" for nm
    using that by (meson of_nat_mono order_trans)
  ultimately show "pods_free cfg nodes (pods (settle w))"
    using free unfolding pods_free_def r(7) by simp
qed

lemma passes_to_ready:
  fixes E :: "'w env" and s :: "'w st"
  assumes L: "running_laws E nd pl pods settle" and laws: "condition_laws E" and range: "range_laws E" and fin: "finalizer_laws E"
    and fresh: "fresh E N plan cfg nodes" and no_limit: "drain_timeout plan = None"
  defines "before m \<equiv> after_passes E (plan_Name plan) settle m s"
  assumes hand: "in_hand E nd pl plan nodes N (st_world (before m))" and free: "pods_free cfg nodes (pods (st_world (before m)))"
    and start: "st_trace (before m) = []" and bound: "to_move cfg nodes (pods (st_world (before m))) \<le> n"
  shows "\<exists>k \<le> n. (\<forall>i < k. \<exists>d t. Reconcile E (plan_Name plan) (before (m + i)) = (Inr d, t) \<and> 0 < d) \<and>
    (\<exists>t. Reconcile E (plan_Name plan) (before (m + k)) = (Inr 0, t) \<and> all_reported (map node_Name nodes) (st_plan t))"
  using hand free start bound
proof (induction n arbitrary: m)
  case (0 m)
  obtain d t where "Reconcile E (plan_Name plan) (before m) = (Inr d, t)" "pass_comes_to E nd pl pods plan cfg nodes N (pods (st_world (before m))) d t"
    using later_pass [OF L laws range fin fresh no_limit 0(1-3)] by blast
  then show ?case using 0(4) by (auto simp: pass_comes_to_def)
next
  case (Suc n m)
  obtain d t where t: "Reconcile E (plan_Name plan) (before m) = (Inr d, t)"
      "pass_comes_to E nd pl pods plan cfg nodes N (pods (st_world (before m))) d t"
    using later_pass [OF L laws range fin fresh no_limit Suc.prems(1-3)] by blast
  show ?case
  proof (cases "d = 0")
    case True
    with t show ?thesis by (intro exI [of _ 0]) (auto simp: pass_comes_to_def)
  next
    case False
    with t(2) have more: "0 < d" "in_hand E nd pl plan nodes N (st_world t)" "no_more (pods (st_world (before m))) (pods (st_world t))"
      "to_move cfg nodes (\<lambda>nm. alive (pods (st_world t) nm)) < to_move cfg nodes (pods (st_world (before m)))"
      by (auto simp: pass_comes_to_def)
    have "before (Suc m) = t\<lparr>st_world := settle (st_world t), st_trace := []\<rparr>" using t(1) by (simp add: before_def)
    moreover have "to_move cfg nodes (pods (settle (st_world t))) \<le> n"
      using more(4) Suc.prems(4) running_facts(7) [OF L] by simp
    moreover note settled_between [OF L Suc.prems(2) more(2,3)]
    ultimately obtain k where k: "k \<le> n" "\<forall>i < k. \<exists>d t. Reconcile E (plan_Name plan) (before (Suc m + i)) = (Inr d, t) \<and> 0 < d"
        "\<exists>t. Reconcile E (plan_Name plan) (before (Suc m + k)) = (Inr 0, t) \<and> all_reported (map node_Name nodes) (st_plan t)"
      using Suc.IH [of "Suc m"] by auto
    have "\<exists>d t. Reconcile E (plan_Name plan) (before (m + i)) = (Inr d, t) \<and> 0 < d" if "i < Suc k" for i
      using that t(1) more(1) k(2) by (cases i) auto
    then show ?thesis using k(1,3) by (intro exI [of _ "Suc k"]) simp
  qed
qed

lemma first_pass:
  fixes E :: "'w env"
  assumes L: "running_laws E nd pl pods settle" and laws: "condition_laws E" and range: "range_laws E"
    and plan: "pl (st_world s) = plan" and fresh: "fresh E (nd (st_world s)) plan cfg nodes" and start: "st_trace s = []"
  shows "\<exists>t. Reconcile E (plan_Name plan) s = (Inr 0, t) \<and> list_all (adopting plan nodes) (st_trace t) \<and>
    (\<forall>n \<in> set nodes. PatchNode n (adopted plan n) \<in> set (st_trace t)) \<and>
    in_hand E nd pl plan nodes (nd (st_world s)) (st_world t) \<and> pods (st_world t) = pods (st_world s)"
proof -
  note f = fresh_facts [OF fresh] and r = running_facts [OF L]
  obtain w where w: "k_getPlan E (plan_Name plan) (st_world s) = (Inr plan, w)" "nd w = nd (st_world s)" "pl w = plan"
      "pods w = pods (st_world s)"
    using get_stored [OF r(1,3), of "st_world s"] plan by auto
  let ?s = "s\<lparr>st_world := w, st_trace := st_trace s @ [GetPlan (plan_Name plan)], st_plan := plan\<rparr>"
  have "fresh E (nd (st_world ?s)) (st_plan ?s) cfg nodes" "pl (st_world ?s) = st_plan ?s" "list_all idle_call (st_trace ?s)"
    using fresh w(2,3) start by simp_all
  from live_adopts [OF r(1) laws range r(4,3) this] obtain t where t: "reconcile_live E ?s = (Inr 0, t)"
      "first_done E nd pl (with_finalizer E plan) nodes (nd (st_world s)) t" "pods (st_world t) = pods (st_world s)"
    using w(2,4) by auto
  have same: "adopted (with_finalizer E plan) = adopted plan" by (rule adopted_cong) (rule with_finalizer_facts)+
  have "list_all (adopting plan nodes) (st_trace t)" "\<forall>n \<in> set nodes. PatchNode n (adopted plan n) \<in> set (st_trace t)"
    using t(2) unfolding first_done_def adopting_def same by blast+
  moreover have "in_hand E nd pl plan nodes (nd (st_world s)) (st_world t)"
    using t(2) by (simp add: first_done_def in_hand_def)
  moreover have "Reconcile E (plan_Name plan) s = (Inr 0, t)" using t(1) Reconcile_found [OF w(1)] f(1) by simp
  ultimately show ?thesis using t(3) by blast
qed

section \<open>An example cluster\<close>

text \<open>
  A cluster in memory with one plan and pods on its node \<open>a\<close>, whose budget allows one
  disruption at a time: an eviction is refused while another pod is still terminating.
\<close>

definition stored_node :: "cluster \<Rightarrow> string \<Rightarrow> Node option" where
  "stored_node w nm = find (\<lambda>n. node_Name n = nm) (cl_nodes w)"

definition stored_pods :: "cluster \<Rightarrow> string \<Rightarrow> Pod list" where
  "stored_pods w nm = (if nm = ''a'' then map snd (cl_pods w) else [])"

definition stored_env :: "cluster env" where
  "stored_env = one_at_a_time\<lparr>
     k_listNodes := \<lambda>_ w. (Inr (filter (\<lambda>n. stored_node w (node_Name n) = Some n) (cl_nodes w)), w),
     k_listPods := \<lambda>nm w. (Inr (stored_pods w nm), w), k_getPlan := \<lambda>_ w. (Inr (hd (cl_plans w)), w),
     k_patchPlan := \<lambda>_ m w. (Inr m, w\<lparr>cl_plans := [m]\<rparr>), k_patchPlanStatus := \<lambda>_ m w. (Inr m, w\<lparr>cl_plans := [m]\<rparr>)\<rparr>"

definition new_plan :: Plan where
  "new_plan = (example_plan ''p'' [''a''])\<lparr>Finalizers := [],
     Spec := (example_spec [''a''])\<lparr>Drain := Some \<lparr>drain_Enabled = True, drain_StartAt = None, drain_Options = None, TimeoutMinutes = None\<rparr>\<rparr>\<rparr>"

definition new_cluster :: cluster where
  "new_cluster = empty_cluster\<lparr>cl_nodes := [example_node ''a'', example_node ''b''], cl_plans := [new_plan],
     cl_pods := map (\<lambda>nm. (''a'', example_pod nm)) [''x'', ''y'', ''z'']\<rparr>"

lemma stored_env_simps:
  "k_getNode stored_env nm w = (found (stored_node w nm), w)"
  "k_listNodes stored_env sel w = (Inr (filter (\<lambda>n. stored_node w (node_Name n) = Some n) (cl_nodes w)), w)"
  "k_patchNode stored_env o1 m w = (case stored_node w (node_Name o1) of None \<Rightarrow> (Inl (ApiError ReasonNotFound), w)
      | Some _ \<Rightarrow> (Inr m, w\<lparr>cl_nodes := replace_node m (cl_nodes w)\<rparr>))"
  "k_listPods stored_env nm w = (Inr (stored_pods w nm), w)" "snd (k_listPDBs stored_env ns w) = w" "snd (k_listPlans stored_env w) = w"
  "k_evictPod stored_env pod g w = (if alive (map snd (cl_pods w)) = map snd (cl_pods w)
       then (Inr (), w\<lparr>cl_pods := mark_deleted pod (cl_pods w)\<rparr>) else (Inl (ApiError ReasonTooManyRequests), w))"
  "k_deletePod stored_env pod w = (Inr (), w\<lparr>cl_pods := mark_deleted pod (cl_pods w)\<rparr>)"
  "k_getPlan stored_env nm w = (Inr (hd (cl_plans w)), w)"
  "k_patchPlan stored_env p0 p w = (Inr p, w\<lparr>cl_plans := [p]\<rparr>)" "k_patchPlanStatus stored_env p0 p w = (Inr p, w\<lparr>cl_plans := [p]\<rparr>)"
  "snd (k_clockNow stored_env w) = w" "snd (k_metaNow stored_env w) = w"
  by (simp_all add: stored_env_def one_at_a_time_def memory_env_def stored_node_def)

lemma stored_node_replace:
  "find (\<lambda>n. node_Name n = nm) ns \<noteq> None \<Longrightarrow> node_Name m = nm \<Longrightarrow>
   find (\<lambda>n. node_Name n = a) (replace_node m ns) = (if a = nm then Some m else find (\<lambda>n. node_Name n = a) ns)"
  by (induction ns) auto

lemma stored_example: "stored_laws stored_env stored_node (\<lambda>w. hd (cl_plans w))"
  unfolding stored_laws_def
proof (intro conjI allI impI, goal_cases)
  case (1 c g w)
  then show ?case by (cases c) (auto simp: stored_env_simps stored_node_def)
next
  case (2 c g w)
  then show ?case by (cases c) (auto simp: stored_env_simps stored_node_def)
next
  case (7 nm w n)
  then show ?case by (auto simp: stored_node_def find_Some_iff)
next
  case (11 o1 m w)
  then show ?case using stored_node_replace [of "node_Name o1" "cl_nodes w" m]
    by (auto simp: stored_env_simps stored_node_def fun_eq_iff)
qed (auto simp: stored_env_simps stored_node_def found_def)

lemma stored_pods_example: "pods_laws stored_env stored_pods" "kept_by stored_env stored_pods"
proof -
  have "all_alive stored_pods w \<longleftrightarrow> alive (map snd (cl_pods w)) = map snd (cl_pods w)" for w
    by (auto simp: all_alive_def stored_pods_def alive_def)
  then show "pods_laws stored_env stored_pods"
    by (auto simp: pods_laws_def gone_def stored_env_simps stored_pods_def alive_mark_deleted alive_def [of "[]"])
  show "kept_by stored_env stored_pods"
    unfolding kept_by_def
  proof (intro conjI allI impI)
    fix c g w assume "keeps_pods c" "served stored_env c g"
    then show "stored_pods (g w) = stored_pods w"
      by (cases c) (auto simp: stored_env_simps stored_pods_def fun_eq_iff split: option.split)
  qed (simp_all add: stored_env_simps)
qed

lemma running_example: "running_laws stored_env stored_node (\<lambda>w. hd (cl_plans w)) stored_pods let_terminate"
proof -
  have "map snd (filter (\<lambda>(n, p). pod_DeletionTimestamp p = None) xs) = alive (map snd xs)" for xs :: "(string \<times> Pod) list"
    by (induction xs) (auto simp: alive_def)
  then have "stored_pods (let_terminate w) = (\<lambda>nm. alive (stored_pods w nm))" for w
    by (auto simp: stored_pods_def let_terminate_def fun_eq_iff alive_def [of "[]"])
  moreover have "\<exists>items w'. k_listPDBs stored_env ns w = (Inr items, w')" for ns w
    by (simp add: stored_env_def one_at_a_time_def memory_env_def)
  ultimately show ?thesis using stored_example stored_pods_example
    by (simp add: running_laws_def answers_lists_def stored_env_simps) (simp add: stored_node_def let_terminate_def fun_eq_iff)
qed

lemma stored_env_laws: "condition_laws stored_env" "range_laws stored_env" "finalizer_laws stored_env"
  using memory_laws(1) memory_conditions
  by (simp_all add: condition_laws_def range_laws_def finalizer_laws_def stored_env_def one_at_a_time_def memory_env_def)

lemma fresh_example: "fresh stored_env (stored_node new_cluster) new_plan example_config [example_node ''a'']"
proof -
  have "pending_starts new_plan now = {}" for now
    by (simp add: pending_starts_def cordon_start_def drain_start_def new_plan_def example_plan_def example_spec_def)
  moreover have "getDrainConfig new_plan = Some example_config" "cordonEnabled new_plan"
    "\<not> isConditionTrue stored_env new_plan ConditionDrainTimedOut" "plan_Name new_plan = ''p''" "plan_DeletionTimestamp new_plan = None"
    "NodeSelector (Spec new_plan) = None" "spec_Nodes (Spec new_plan) = [''a'']" "status_Nodes (Status new_plan) = []"
    by code_simp+
  moreover have "node_Name (example_node ''a'') = ''a''" "isNodeReady (example_node ''a'')"
    by code_simp+
  moreover have "owner_of (example_node nm) = ''''" for nm by (simp add: owner_of_def example_node_def)
  moreover have "stored_node new_cluster a = (if a = ''a'' then Some (example_node ''a'') else if a = ''b'' then Some (example_node ''b'') else None)" for a
    by (simp add: stored_node_def new_cluster_def example_node_def empty_cluster_def)
  ultimately show ?thesis by (auto simp: fresh_def split: if_splits)
qed

lemma new_pods: "pods_free example_config [example_node ''a''] (stored_pods new_cluster)"
  "to_move example_config [example_node ''a''] (stored_pods new_cluster) = 3"
proof -
  have cls: "pod_class example_config now (example_pod x) = BEvictable" for now x
    by (simp add: pod_class_def mirror_def completed_def example_pod_def example_config_def mhas_def isDaemonSetPod_def hasController_def hasEmptyDir_def)
  have pods: "stored_pods new_cluster nm = (if nm = ''a'' then map example_pod [''x'', ''y'', ''z''] else [])" for nm
    by (simp add: stored_pods_def new_cluster_def)
  show "pods_free example_config [example_node ''a''] (stored_pods new_cluster)"
    unfolding pods_free_def pods unblocked_def using cls
    by (simp add: alive_def example_node_def maxInt32_def) (simp add: example_pod_def)
  have "pod_evictable example_config (example_pod x)" for x
    by (simp add: pod_evictable_def mirror_def completed_def example_pod_def example_config_def mhas_def isDaemonSetPod_def
        hasController_def hasEmptyDir_def)
  then show "to_move example_config [example_node ''a''] (stored_pods new_cluster) = 3"
    by (simp add: to_move_def pods example_node_def movable_def)
qed

section \<open>Property\<close>

text \<open>
  C3. The promise of a plan, from its creation. On a server that only the reconciler writes to,
  with nodes whose pods the settings allow to evict, and budgets that refuse an eviction only
  while pods evicted before are still terminating: the first pass over a new plan adopts and
  cordons every node and, the plan's finalizer apart, changes nothing else. It asks for no
  requeue, and need not: the update of each node it adopted passes the filter of the watch and
  is mapped to the plan. From then on every pass returns without error and asks to be run
  again, until, after at most as many of them as there are pods to move, a pass reports every
  node and the plan ready and asks for nothing.
\<close>

theorem new_plan_becomes_ready:
  assumes L: "running_laws E nd pl pods settle" and laws: "condition_laws E" and range: "range_laws E" and fin: "finalizer_laws E"
    and plan: "pl (st_world s) = plan" and fresh: "fresh E (nd (st_world s)) plan cfg nodes" and no_limit: "drain_timeout plan = None"
    and free: "pods_free cfg nodes (pods (st_world s))" and start: "st_trace s = []"
  shows "(\<exists>t. Reconcile E (plan_Name plan) s = (Inr 0, t) \<and> list_all (adopting plan nodes) (st_trace t) \<and>
      (\<forall>n \<in> set nodes. PatchNode n (adopted plan n) \<in> set (st_trace t) \<and> wakes E plan n (adopted plan n))) \<and>
    (\<exists>k \<le> to_move cfg nodes (pods (st_world s)).
      (\<forall>i < k. \<exists>d t. Reconcile E (plan_Name plan) (after_passes E (plan_Name plan) settle (Suc i) s) = (Inr d, t) \<and> 0 < d) \<and>
      (\<exists>t. Reconcile E (plan_Name plan) (after_passes E (plan_Name plan) settle (Suc k) s) = (Inr 0, t) \<and>
         all_reported (map node_Name nodes) (st_plan t)))"
proof -
  note r = running_facts [OF L] and f = fresh_facts [OF fresh]
  obtain t where t: "Reconcile E (plan_Name plan) s = (Inr 0, t)" "list_all (adopting plan nodes) (st_trace t)"
      "\<forall>n \<in> set nodes. PatchNode n (adopted plan n) \<in> set (st_trace t)"
      "in_hand E nd pl plan nodes (nd (st_world s)) (st_world t)" "pods (st_world t) = pods (st_world s)"
    using first_pass [OF L laws range plan fresh start] by blast
  let ?s1 = "after_passes E (plan_Name plan) settle (Suc 0) s"
  have s1: "?s1 = t\<lparr>st_world := settle (st_world t), st_trace := []\<rparr>" using t(1) by simp
  have alive: "(\<lambda>nm. alive (pods (st_world s) nm)) = pods (st_world s)" using free by (simp add: pods_free_def)
  have hand: "in_hand E nd pl plan nodes (nd (st_world s)) (st_world ?s1)" using t(4) r(5,6) unfolding s1 by (simp add: in_hand_def)
  have pods: "pods (st_world ?s1) = pods (st_world s)" using t(5) r(7) alive unfolding s1 by simp
  have trace: "st_trace ?s1 = []" unfolding s1 by simp
  have wake: "wakes E plan n (adopted plan n)" if "n \<in> set nodes" for n by (rule adoption_wakes [OF f(13) [OF that] f(2)])
  from free have "pods_free cfg nodes (pods (st_world ?s1))" unfolding pods .
  from passes_to_ready [OF L laws range fin fresh no_limit hand this trace order_refl, unfolded pods add_Suc add_0] t(1-3) wake
  show ?thesis by blast
qed

theorem new_plan_becomes_ready_witness:
  "let s = start_state (example_plan ''q'' []) new_cluster in
   PatchNode (example_node ''a'') (adopted new_plan (example_node ''a'')) \<in> set (st_trace (snd (Reconcile stored_env ''p'' s))) \<and>
   wakes stored_env new_plan (example_node ''a'') (adopted new_plan (example_node ''a'')) \<and>
   (\<exists>k \<le> 3. \<exists>t. Reconcile stored_env ''p'' (after_passes stored_env ''p'' let_terminate (Suc k) s) = (Inr 0, t) \<and>
      all_reported [''a''] (st_plan t))"
proof -
  let ?s = "start_state (example_plan ''q'' []) new_cluster"
  have w: "st_world ?s = new_cluster" "st_trace ?s = []" by (simp_all add: start_state_def)
  have "hd (cl_plans (st_world ?s)) = new_plan" unfolding w by (simp add: new_cluster_def)
  moreover have "drain_timeout new_plan = None" by (simp add: drain_timeout_def new_plan_def)
  moreover have "plan_Name new_plan = ''p''" "node_Name (example_node ''a'') = ''a''" by code_simp+
  ultimately show ?thesis
    using new_plan_becomes_ready [OF running_example stored_env_laws, of ?s new_plan example_config "[example_node ''a'']"]
      fresh_example new_pods w by (auto simp del: after_passes.simps) blast
qed

end
