(* ===== verification/Wiring.thy ===== *)
theory Wiring
  imports First_Pass
begin

text \<open>
  How the parts are put together: \<open>internal/maintenance/service.go\<close>, the constructor of the
  service; \<open>api/v1alpha1/groupversion_info.go\<close> and \<open>init\<close> of \<open>cmd/main.go\<close>, the types the
  clients know; and \<open>SetupWithManager\<close> of the controller, the watches that start a pass. The
  scheme, the cache and the work queue are libraries: they are parameters.
\<close>

section \<open>Definitions\<close>

text \<open>The service: without a clock it gets the real one.\<close>

record ('c, 'l, 'r, 'k) MaintenanceService =
  svc_client :: 'c
  svc_log :: 'l
  svc_recorder :: 'r
  svc_clock :: 'k

definition NewMaintenanceService :: "('l \<Rightarrow> string \<Rightarrow> 'l) \<Rightarrow> 'k \<Rightarrow> 'c \<Rightarrow> 'l \<Rightarrow> 'r \<Rightarrow> 'k option \<Rightarrow> ('c, 'l, 'r, 'k) MaintenanceService" where
  "NewMaintenanceService withName realClock c logger recorder clk =
     (let clk = (case clk of None \<Rightarrow> realClock | Some k \<Rightarrow> k)
      in \<lparr>svc_client = c, svc_log = withName logger ''MaintenanceService'', svc_recorder = recorder, svc_clock = clk\<rparr>)"

text \<open>The API group, its types and their registration with a scheme.\<close>

record group_version =
  gv_Group :: string
  gv_Version :: string

datatype api_type = NodeMaintenancePlan | NodeMaintenancePlanList

definition GroupVersion :: group_version where
  "GroupVersion = \<lparr>gv_Group = ''maintenance.nmoo.io'', gv_Version = ''v1alpha1''\<rparr>"

type_synonym 's registration = "'s \<Rightarrow> (go_error + unit) \<times> 's"

text \<open>
  What is used of the scheme's library: the registration of types and of the metadata types of
  a group version, the run of a scheme builder's functions, and client-go's own registration.
\<close>

record 's scheme_lib =
  k_AddKnownTypes :: "group_version \<Rightarrow> api_type list \<Rightarrow> 's \<Rightarrow> 's"
  k_AddToGroupVersion :: "group_version \<Rightarrow> 's \<Rightarrow> 's"
  k_AddToScheme :: "'s registration list \<Rightarrow> 's registration"
  k_clientgoAddToScheme :: "'s registration"

definition addKnownTypes :: "'s scheme_lib \<Rightarrow> 's registration" where
  "addKnownTypes L s =
     (let s = k_AddKnownTypes L GroupVersion [NodeMaintenancePlan, NodeMaintenancePlanList] s;
          s = k_AddToGroupVersion L GroupVersion s
      in (Inr (), s))"

definition SchemeBuilder :: "'s scheme_lib \<Rightarrow> 's registration list" where
  "SchemeBuilder L = [addKnownTypes L]"

definition AddToScheme :: "'s scheme_lib \<Rightarrow> 's registration" where
  "AddToScheme L = k_AddToScheme L (SchemeBuilder L)"

text \<open>\<open>init\<close>: an error of a registration panics (\<open>None\<close>).\<close>

definition must :: "'s registration \<Rightarrow> 's \<Rightarrow> 's option" where
  "must f s = (case f s of (Inl err, _) \<Rightarrow> None | (Inr _, t) \<Rightarrow> Some t)"

definition init_scheme :: "'s scheme_lib \<Rightarrow> 's \<Rightarrow> 's option" where
  "init_scheme L s = Option.bind (must (k_clientgoAddToScheme L) s) (must (AddToScheme L))"

text \<open>A pod as the cache holds it, and the key it is indexed by.\<close>

record BoundPod = Pod +
  pod_NodeName :: string

definition podNodeName :: "BoundPod \<Rightarrow> string list" where
  "podNodeName pod = [pod_NodeName pod]"

text \<open>What the controller is built from.\<close>

record 'w controller =
  For :: "plan_event \<Rightarrow> bool"
  MaxConcurrentReconciles :: nat
  WatchesMap :: "Node \<Rightarrow> ('w, string list) op"
  WatchesPredicate :: "watch_event \<Rightarrow> bool"
  Named :: string
  Reconciler :: "string \<Rightarrow> ('w, duration) op"

definition controller_of :: "'w env \<Rightarrow> 'w controller" where
  "controller_of E = \<lparr>For = planPredicate, MaxConcurrentReconciles = 10, WatchesMap = nodeToPlans E,
     WatchesPredicate = nodeMaintenancePredicates, Named = ''nodemaintenanceplan'', Reconciler = Reconcile E\<rparr>"

text \<open>The index comes first: without it there is no controller.\<close>

definition SetupController :: "(string \<Rightarrow> (BoundPod \<Rightarrow> string list) \<Rightarrow> 'm \<Rightarrow> (go_error + unit) \<times> 'm)
    \<Rightarrow> ('w controller \<Rightarrow> 'm \<Rightarrow> (go_error + unit) \<times> 'm) \<Rightarrow> 'w env \<Rightarrow> 'm \<Rightarrow> (go_error + unit) \<times> 'm" where
  "SetupController indexField build E mgr = (case indexField ''spec.nodeName'' podNodeName mgr of
     (Inl err, mgr) \<Rightarrow> (Inl (Wrapped ''indexing pods by node name'' err), mgr)
   | (Inr _, mgr) \<Rightarrow> build (controller_of E) mgr)"

section \<open>What the libraries promise\<close>

text \<open>
  A scheme recalls the types added to it, and a builder runs its functions in order up to the
  first error.
\<close>

definition scheme_laws :: "'s scheme_lib \<Rightarrow> ('s \<Rightarrow> (group_version \<times> api_type) set) \<Rightarrow> bool" where
  "scheme_laws L knows \<longleftrightarrow>
     (\<forall>gv ts s. knows (k_AddKnownTypes L gv ts s) = knows s \<union> {gv} \<times> set ts) \<and>
     (\<forall>gv s. knows (k_AddToGroupVersion L gv s) = knows s) \<and>
     (\<forall>s. k_AddToScheme L [] s = (Inr (), s)) \<and>
     (\<forall>f fs s. k_AddToScheme L (f # fs) s = (case f s of (Inl err, t) \<Rightarrow> (Inl err, t) | (Inr _, t) \<Rightarrow> k_AddToScheme L fs t))"

text \<open>
  The map function of a watch runs on both objects of an update that passes the filter, and
  the requests it returns for either are queued.
\<close>

definition queue_laws :: "('w controller \<Rightarrow> watch_event \<Rightarrow> string set) \<Rightarrow> bool" where
  "queue_laws queued \<longleftrightarrow> (\<forall>c old new x names. WatchesPredicate c (UpdateEvent (Some old) (Some new)) \<longrightarrow> x \<in> {old, new} \<longrightarrow>
     (\<forall>s. \<exists>t. WatchesMap c x s = (Inr names, t)) \<longrightarrow> set names \<subseteq> queued c (UpdateEvent (Some old) (Some new)))"

text \<open>The plans as the cache lists them.\<close>

definition lists_plans :: "'w env \<Rightarrow> Plan list \<Rightarrow> bool" where
  "lists_plans E plans \<longleftrightarrow> (\<forall>w. \<exists>w'. k_listPlans E w = (Inr plans, w'))"

section \<open>Lemmas\<close>

lemma init_registers:
  assumes "scheme_laws L knows" "k_clientgoAddToScheme L s = (Inr (), t)"
  shows "\<exists>u. init_scheme L s = Some u \<and> knows u = knows t \<union> {GroupVersion} \<times> {NodeMaintenancePlan, NodeMaintenancePlanList}"
  using assms by (simp add: init_scheme_def must_def AddToScheme_def SchemeBuilder_def addKnownTypes_def scheme_laws_def)

text \<open>The controller is completed exactly when the index is there, as it is built here.\<close>

lemma setup_needs_index:
  "indexField ''spec.nodeName'' podNodeName m = (Inl err, m') \<Longrightarrow>
   SetupController indexField build E m = (Inl (Wrapped ''indexing pods by node name'' err), m')"
  "indexField ''spec.nodeName'' podNodeName m = (Inr (), m') \<Longrightarrow>
   SetupController indexField build E m = build (controller_of E) m'"
  by (simp_all add: SetupController_def)

lemma nodeToPlans_lists:
  assumes "lists_plans E plans"
  shows "\<exists>t. nodeToPlans E n s = (Inr (map plan_Name (filter (nodeRelevantToPlan E n) plans)), t)"
proof -
  obtain w where "k_listPlans E (st_world s) = (Inr plans, w)" using assms unfolding lists_plans_def by blast
  then show ?thesis by (simp add: nodeToPlans_def go_try_bind client_call_def go_ret_def)
qed

lemma relevant_is_queued:
  assumes q: "queue_laws queued" and lists: "lists_plans E plans" and p: "plan \<in> set plans"
    and passes: "nodeMaintenancePredicates (UpdateEvent (Some old) (Some new))"
    and x: "x \<in> {old, new}" "nodeRelevantToPlan E x plan"
  shows "plan_Name plan \<in> queued (controller_of E) (UpdateEvent (Some old) (Some new))"
proof -
  have "WatchesPredicate (controller_of E) (UpdateEvent (Some old) (Some new))" using passes by (simp add: controller_of_def)
  moreover have "\<forall>s. \<exists>t. WatchesMap (controller_of E) x s = (Inr (map plan_Name (filter (nodeRelevantToPlan E x) plans)), t)"
    using nodeToPlans_lists [OF lists] by (simp add: controller_of_def)
  ultimately have "set (map plan_Name (filter (nodeRelevantToPlan E x) plans)) \<subseteq> queued (controller_of E) (UpdateEvent (Some old) (Some new))"
    using q x(1) unfolding queue_laws_def by blast
  then show ?thesis using p x(2) by auto
qed

text \<open>So the adoptions of the first pass of a plan are followed by another pass.\<close>

lemma waking_is_queued:
  "queue_laws queued \<Longrightarrow> lists_plans E plans \<Longrightarrow> plan \<in> set plans \<Longrightarrow> wakes E plan old new \<Longrightarrow>
   plan_Name plan \<in> queued (controller_of E) (UpdateEvent (Some old) (Some new))"
  by (rule relevant_is_queued [where x = new]) (simp_all add: wakes_def)

text \<open>
  What a plan with a selector has frozen in its status does not count: the plan reads a node of
  its snapshot in every pass, but a change of that node wakes it only while the node is marked
  as its own or still matches the selector. Here the node, taken by the plan \<open>q\<close> when the plan
  \<open>p\<close> was evaluated and since relabelled, is given back by \<open>q\<close>: a pass of \<open>p\<close> would adopt it, and
  none is started.
\<close>

definition snapshot_plan :: Plan where
  "snapshot_plan = (example_plan ''p'' [])
     \<lparr>Spec := (example_spec [])\<lparr>NodeSelector := Some \<lparr>matchLabels = [(''pool'', ''old'')], matchExpressions = []\<rparr>\<rparr>,
      Status := empty_status\<lparr>ResolvedNodes := [''a''], NodeSnapshotTaken := True\<rparr>\<rparr>"

lemma freed_snapshot_node_is_missed:
  "nodeMaintenancePredicates (UpdateEvent (Some (adopt_change (example_plan ''q'' [''a'']) True (example_node ''a''))) (Some (example_node ''a''))) \<and>
   \<not> nodeRelevantToPlan memory_env (adopt_change (example_plan ''q'' [''a'']) True (example_node ''a'')) snapshot_plan \<and>
   \<not> nodeRelevantToPlan memory_env (example_node ''a'') snapshot_plan \<and>
   (case ComputeOwnershipResolution memory_env (start_state snapshot_plan (empty_cluster\<lparr>cl_nodes := [example_node ''a'']\<rparr>)) of
      (Inl _, _) \<Rightarrow> False | (Inr res, _) \<Rightarrow> ToAdopt res = [''a''])"
  by code_simp

section \<open>Property\<close>


definition listing_env :: "cluster env" where
  "listing_env = memory_env\<lparr>k_listPlans := \<lambda>w. (Inr [example_plan ''p'' [''a'']], w)\<rparr>"

text \<open>The requests of the updates that pass the filter, as one run of the map finds them.\<close>

definition queue_once :: "cluster controller \<Rightarrow> watch_event \<Rightarrow> string set" where
  "queue_once c e = (case e of UpdateEvent (Some old) (Some new) \<Rightarrow>
       if WatchesPredicate c e
       then \<Union>x \<in> {old, new}. (case WatchesMap c x (start_state (example_plan ''q'' []) empty_cluster) of (Inr names, _) \<Rightarrow> set names | _ \<Rightarrow> {})
       else {}
     | _ \<Rightarrow> {})"


end
