(* ===== verification/Cert_Types.thy ===== *)
theory Cert_Types
  imports Conditions
begin

text \<open>
  The data of \<open>internal/webhook/certbootstrap.go\<close> and what it uses of Go's standard library.
  Cryptography is symbolic: a key pair is a number, a certificate records the public key it
  certifies and the private key that signed it, and a byte string is either plain or the PEM
  encoding of one DER value. The API server, the operating system's randomness, clock and
  file errors, and the order of a \<open>range\<close> over a map are the fields of \<open>cert_env\<close>; the files
  themselves are part of the state, with the history of their contents.
\<close>

section \<open>Definitions\<close>

subsection \<open>crypto/x509 and encoding/pem\<close>

datatype key_usage = UsageDigitalSignature | UsageKeyEncipherment | UsageCertSign | UsageCRLSign

record Certificate =
  SerialNumber :: int
  CommonName :: string
  DNSNames :: "string list"
  IPAddresses :: "int list list"
  NotBefore :: time
  NotAfter :: time
  KeyUsage :: "key_usage list"
  ServerAuth :: bool
  BasicConstraintsValid :: bool
  IsCA :: bool
  Issuer :: string
  PublicKey :: "nat option"
  SignedBy :: "nat option"

datatype der = CertificateDER Certificate | ECKeyDER nat | OtherDER string

datatype bytes = Plain string | PEM string der

abbreviation "pemCertificate \<equiv> ''CERTIFICATE''"
abbreviation "pemECPrivateKey \<equiv> ''EC PRIVATE KEY''"

fun pem_Decode :: "bytes \<Rightarrow> (string \<times> der) option" where
  "pem_Decode (PEM ty d) = Some (ty, d)"
| "pem_Decode (Plain _) = None"

fun ParseCertificate :: "der \<Rightarrow> go_error + Certificate" where
  "ParseCertificate (CertificateDER c) =
     (if PublicKey c = None then Inl (NewError ''x509: malformed certificate'') else Inr c)"
| "ParseCertificate _ = Inl (NewError ''x509: malformed certificate'')"

fun ParseECPrivateKey :: "der \<Rightarrow> go_error + nat" where
  "ParseECPrivateKey (ECKeyDER k) = Inr k"
| "ParseECPrivateKey _ = Inl (NewError ''x509: failed to parse EC private key'')"

text \<open>
  The validity of a certificate is encoded in whole seconds. A signature with a key that is
  not the parent's is refused; a template (no public key yet) may sign itself.
  \<open>x509.MarshalECPrivateKey\<close> does not fail on the P-256 keys the code makes, and
  \<open>pem.EncodeToMemory\<close> is the constructor \<open>PEM\<close>.
\<close>

definition whole_seconds :: "time \<Rightarrow> time" where
  "whole_seconds t = t - t mod second"

definition CreateCertificate :: "Certificate \<Rightarrow> Certificate \<Rightarrow> nat \<Rightarrow> nat \<Rightarrow> go_error + der" where
  "CreateCertificate template parent pub priv =
     (if SerialNumber template < 0 then Inl (NewError ''x509: serial number must be positive'')
      else if PublicKey parent \<noteq> None \<and> PublicKey parent \<noteq> Some priv then
        Inl (NewError ''x509: provided PrivateKey does not match the PublicKey of the parent'')
      else Inr (CertificateDER (template\<lparr>NotBefore := whole_seconds (NotBefore template),
        NotAfter := whole_seconds (NotAfter template), Issuer := CommonName parent,
        PublicKey := Some pub, SignedBy := Some priv\<rparr>)))"

subsection \<open>Kubernetes objects\<close>

type_synonym data_map = "(string \<times> bytes) list option"

definition dget :: "data_map \<Rightarrow> string \<Rightarrow> bytes" where
  "dget m k = (case Option.bind m (\<lambda>kvs. map_of kvs k) of None \<Rightarrow> Plain '''' | Some b \<Rightarrow> b)"

record Secret =
  sec_Namespace :: string
  sec_Name :: string
  Data :: data_map

record Webhook =
  hook_Name :: string
  CABundle :: bytes

record WebhookConfig =
  vwc_Name :: string
  Webhooks :: "Webhook list"

fun IsAlreadyExists :: "go_error \<Rightarrow> bool" where
  "IsAlreadyExists (ApiError ReasonAlreadyExists) = True"
| "IsAlreadyExists (Wrapped _ e) = IsAlreadyExists e"
| "IsAlreadyExists _ = False"

subsection \<open>The surroundings and the state\<close>

datatype fs_op = MkdirAll string | ReadFile string | CreateTemp string string | Chmod string
  | WriteFile string bytes | CloseFile string | Rename string string | Remove string

text \<open>
  \<open>k_fs\<close> is the error of a file operation, if any; \<open>k_partial\<close> is what a failed write leaves in
  the file; \<open>k_wait\<close> is the \<open>select\<close> between the context's end (its error) and two seconds.
\<close>

record 'w cert_env =
  k_getSecret :: "string \<Rightarrow> string \<Rightarrow> ('w, Secret) outside"
  k_createSecret :: "Secret \<Rightarrow> ('w, unit) outside"
  k_patchSecret :: "Secret \<Rightarrow> Secret \<Rightarrow> ('w, unit) outside"
  k_getWebhookConfig :: "string \<Rightarrow> ('w, WebhookConfig) outside"
  k_patchWebhookConfig :: "WebhookConfig \<Rightarrow> WebhookConfig \<Rightarrow> ('w, unit) outside"
  k_GenerateKey :: "('w, nat) outside"
  k_rand_Int :: "int \<Rightarrow> ('w, int) outside"
  k_time_Now :: "'w \<Rightarrow> time \<times> 'w"
  k_fs :: "fs_op \<Rightarrow> 'w \<Rightarrow> go_error option \<times> 'w"
  k_tempName :: "string \<Rightarrow> 'w \<Rightarrow> string"
  k_partial :: "bytes \<Rightarrow> 'w \<Rightarrow> bytes"
  k_wait :: "'w \<Rightarrow> go_error option \<times> 'w"
  k_files_range :: "string list \<Rightarrow> string list"

datatype cert_call =
    GetSecret string string
  | CreateSecret Secret
  | PatchSecret Secret Secret
  | GetWebhookConfig string
  | PatchWebhookConfig WebhookConfig WebhookConfig

type_synonym files = "string \<Rightarrow> bytes option"

record 'w cst =
  cst_world :: 'w
  cst_files :: files
  cst_history :: "files list"
  cst_calls :: "cert_call list"

type_synonym ('w, 'a) cop = "('w cst, go_error, 'a) go"

definition cert_call :: "cert_call \<Rightarrow> ('w, 'a) outside \<Rightarrow> ('w, 'a) cop" where
  "cert_call c f s = (case f (cst_world s) of (r, w) \<Rightarrow> (r, s\<lparr>cst_world := w, cst_calls := cst_calls s @ [c]\<rparr>))"

definition ask :: "('w, 'a) outside \<Rightarrow> ('w, 'a) cop" where
  "ask f s = (case f (cst_world s) of (r, w) \<Rightarrow> (r, s\<lparr>cst_world := w\<rparr>))"

definition time_Now :: "'w cert_env \<Rightarrow> ('w, time) cop" where
  "time_Now E s = (case k_time_Now E (cst_world s) of (t, w) \<Rightarrow> (Inr t, s\<lparr>cst_world := w\<rparr>))"

text \<open>A file operation: what it does to the files when it succeeds, and when it fails.\<close>

definition os_op :: "'w cert_env \<Rightarrow> fs_op \<Rightarrow> (files \<Rightarrow> files) \<Rightarrow> (files \<Rightarrow> files) \<Rightarrow> ('w, unit) cop" where
  "os_op E op good bad s = (case k_fs E op (cst_world s) of
     (None, w) \<Rightarrow> (Inr (), s\<lparr>cst_world := w, cst_files := good (cst_files s), cst_history := cst_history s @ [good (cst_files s)]\<rparr>)
   | (Some err, w) \<Rightarrow> (Inl err, s\<lparr>cst_world := w, cst_files := bad (cst_files s), cst_history := cst_history s @ [bad (cst_files s)]\<rparr>))"

definition os_MkdirAll :: "'w cert_env \<Rightarrow> string \<Rightarrow> ('w, unit) cop" where
  "os_MkdirAll E dir = os_op E (MkdirAll dir) (\<lambda>fs. fs) (\<lambda>fs. fs)"

definition os_ReadFile :: "'w cert_env \<Rightarrow> string \<Rightarrow> ('w, bytes) cop" where
  "os_ReadFile E path = go_then (os_op E (ReadFile path) (\<lambda>fs. fs) (\<lambda>fs. fs))
     (go_bind (go_get (\<lambda>s. cst_files s path)) (\<lambda>f. case f of
        None \<Rightarrow> go_raise (NewError ''no such file or directory'') | Some b \<Rightarrow> go_ret b))"

definition os_CreateTemp :: "'w cert_env \<Rightarrow> string \<Rightarrow> string \<Rightarrow> ('w, string) cop" where
  "os_CreateTemp E dir pattern = go_bind (go_get (\<lambda>s. k_tempName E dir (cst_world s))) (\<lambda>tmp.
     go_then (os_op E (CreateTemp dir pattern) (\<lambda>fs. fs(tmp := Some (Plain ''''))) (\<lambda>fs. fs)) (go_ret tmp))"

definition os_Chmod :: "'w cert_env \<Rightarrow> string \<Rightarrow> ('w, unit) cop" where
  "os_Chmod E path = os_op E (Chmod path) (\<lambda>fs. fs) (\<lambda>fs. fs)"

definition os_Write :: "'w cert_env \<Rightarrow> string \<Rightarrow> bytes \<Rightarrow> ('w, unit) cop" where
  "os_Write E path data = go_bind (go_get (\<lambda>s. k_partial E data (cst_world s))) (\<lambda>part.
     os_op E (WriteFile path data) (\<lambda>fs. fs(path := Some data)) (\<lambda>fs. fs(path := Some part)))"

definition os_Close :: "'w cert_env \<Rightarrow> string \<Rightarrow> ('w, unit) cop" where
  "os_Close E path = os_op E (CloseFile path) (\<lambda>fs. fs) (\<lambda>fs. fs)"

definition os_Rename :: "'w cert_env \<Rightarrow> string \<Rightarrow> string \<Rightarrow> ('w, unit) cop" where
  "os_Rename E src dst = os_op E (Rename src dst) (\<lambda>fs. (fs(dst := fs src))(src := None)) (\<lambda>fs. fs)"

definition os_Remove :: "'w cert_env \<Rightarrow> string \<Rightarrow> ('w, unit) cop" where
  "os_Remove E path = os_op E (Remove path) (\<lambda>fs. fs(path := None)) (\<lambda>fs. fs)"

text \<open>\<open>defer func() { _ = cleanup() }()\<close>\<close>

definition go_defer :: "('s, 'e, 'a) go \<Rightarrow> ('s, 'e, unit) go \<Rightarrow> ('s, 'e, 'a) go" where
  "go_defer m cleanup s = (case m s of (r, t) \<Rightarrow> (r, snd (cleanup t)))"

text \<open>\<open>filepath.Join\<close> and \<open>filepath.Dir\<close> on clean paths.\<close>

definition filepath_Join :: "string \<Rightarrow> string \<Rightarrow> string" where
  "filepath_Join dir name = (if dir = '''' then name else dir @ ''/'' @ name)"

definition filepath_Dir :: "string \<Rightarrow> string" where
  "filepath_Dir path = (case dropWhile (\<lambda>c. c \<noteq> CHR ''/'') (rev path) of [] \<Rightarrow> ''.'' | c # cs \<Rightarrow> rev cs)"

subsection \<open>An in-memory instance\<close>

text \<open>
  A well-behaved instance of the surroundings, on which the laws assumed of them hold: an API
  server with one version of each object, files without errors, a clock that stands still, a
  counter for keys and random numbers, and a context that ends at the first wait.
\<close>

record mem_certs =
  m_secrets :: "string \<times> string \<Rightarrow> Secret option"
  m_configs :: "string \<Rightarrow> WebhookConfig option"
  m_next :: nat

definition found :: "'a option \<Rightarrow> 'w \<Rightarrow> (go_error + 'a) \<times> 'w" where
  "found x w = (case x of None \<Rightarrow> (Inl (ApiError ReasonNotFound), w) | Some y \<Rightarrow> (Inr y, w))"

definition mem_cert_env :: "mem_certs cert_env" where
  "mem_cert_env = \<lparr>
     k_getSecret = (\<lambda>ns name w. found (m_secrets w (ns, name)) w),
     k_createSecret = (\<lambda>sec w. if m_secrets w (sec_Namespace sec, sec_Name sec) = None
       then (Inr (), w\<lparr>m_secrets := (m_secrets w)((sec_Namespace sec, sec_Name sec) \<mapsto> sec)\<rparr>)
       else (Inl (ApiError ReasonAlreadyExists), w)),
     k_patchSecret = (\<lambda>old new w. (Inr (), w\<lparr>m_secrets := (m_secrets w)((sec_Namespace new, sec_Name new) \<mapsto> new)\<rparr>)),
     k_getWebhookConfig = (\<lambda>name w. found (m_configs w name) w),
     k_patchWebhookConfig = (\<lambda>old new w. (Inr (), w\<lparr>m_configs := (m_configs w)(vwc_Name new \<mapsto> new)\<rparr>)),
     k_GenerateKey = (\<lambda>w. (Inr (m_next w), w\<lparr>m_next := m_next w + 1\<rparr>)),
     k_rand_Int = (\<lambda>bound w. (Inr (int (m_next w) mod bound), w\<lparr>m_next := m_next w + 1\<rparr>)),
     k_time_Now = (\<lambda>w. (0, w)),
     k_fs = (\<lambda>op w. (None, w)),
     k_tempName = (\<lambda>dir w. filepath_Join dir ''.cert-tmp-1''),
     k_partial = (\<lambda>data w. Plain []),
     k_wait = (\<lambda>w. (Some (NewError ''context deadline exceeded''), w)),
     k_files_range = (\<lambda>names. names)\<rparr>"

definition mem_start :: "mem_certs cst" where
  "mem_start = \<lparr>cst_world = \<lparr>m_secrets = (\<lambda>_. None), m_configs = (\<lambda>_. None), m_next = 1\<rparr>,
     cst_files = (\<lambda>_. None), cst_history = [], cst_calls = []\<rparr>"

end
