(* ===== verification/Cert_Bootstrap.thy ===== *)
theory Cert_Bootstrap
  imports Cert_Types
begin

text \<open>
  \<open>internal/webhook/certbootstrap.go\<close>: the shared CA in a Secret, the server certificates each
  pod signs with it and writes to its own disk, the CA bundle of the webhook configuration,
  and the renewal loop. The wait for the webhook configuration may never end, so it and what
  calls it are partial: \<open>None\<close> is a call that does not return.
\<close>

section \<open>Definitions\<close>

definition hour :: duration where "hour = 60 * minute"
definition renewBefore :: duration where "renewBefore = 30 * 24 * hour"
definition certValidity :: duration where "certValidity = 90 * 24 * hour"

abbreviation "caCertField \<equiv> ''ca.crt''"
abbreviation "caKeyField \<equiv> ''ca.key''"
abbreviation "localhostDNS \<equiv> ''localhost''"

record CertBootstrapper =
  Namespace :: string
  SecretName :: string
  CertDir :: string
  ServiceName :: string
  WebhookConfigName :: string
  MetricsCertDir :: string
  MetricsServiceName :: string

text \<open>\<open>time.Until(cert.NotAfter) < renewBefore\<close>, on the certificate in a PEM block.\<close>

definition pem_expiring :: "'w cert_env \<Rightarrow> bytes \<Rightarrow> ('w, bool) cop" where
  "pem_expiring E data = (case pem_Decode data of
     None \<Rightarrow> go_ret True
   | Some (ty, block) \<Rightarrow> (case ParseCertificate block of
        Inl err \<Rightarrow> go_ret True
      | Inr cert \<Rightarrow> go_bind (time_Now E) (\<lambda>now. go_ret (time_sub (NotAfter cert) now < renewBefore))))"

definition caIsExpiring :: "'w cert_env \<Rightarrow> Secret \<Rightarrow> ('w, bool) cop" where
  "caIsExpiring E secret = pem_expiring E (dget (Data secret) caCertField)"

definition serverCertNeedsRenewal :: "'w cert_env \<Rightarrow> string \<Rightarrow> ('w, bool) cop" where
  "serverCertNeedsRenewal E dir = go_bind (go_try (os_ReadFile E (filepath_Join dir ''tls.crt''))) (\<lambda>r. case r of
     Inl err \<Rightarrow> go_ret True
   | Inr data \<Rightarrow> pem_expiring E data)"

definition ca_template :: "int \<Rightarrow> time \<Rightarrow> time \<Rightarrow> Certificate" where
  "ca_template serial t1 t2 = \<lparr>SerialNumber = serial, CommonName = ''node-maintenance-orchestrator-ca'',
     DNSNames = [], IPAddresses = [], NotBefore = t1 + (- 5) * minute, NotAfter = t2 + certValidity,
     KeyUsage = [UsageCertSign, UsageCRLSign], ServerAuth = False, BasicConstraintsValid = True, IsCA = True,
     Issuer = '''', PublicKey = None, SignedBy = None\<rparr>"

definition generateCA :: "'w cert_env \<Rightarrow> ('w, bytes \<times> bytes) cop" where
  "generateCA E =
     go_bind (go_map_err (Wrapped ''generating key'') (ask (k_GenerateKey E))) (\<lambda>priv.
     go_bind (go_map_err (Wrapped ''generating serial number'') (ask (k_rand_Int E (2 ^ 128)))) (\<lambda>serial.
     go_bind (time_Now E) (\<lambda>t1. go_bind (time_Now E) (\<lambda>t2.
       let tmpl = ca_template serial t1 t2 in
       case CreateCertificate tmpl tmpl priv priv of
         Inl err \<Rightarrow> go_raise (Wrapped ''creating certificate'' err)
       | Inr certDER \<Rightarrow> go_ret (PEM pemCertificate certDER, PEM pemECPrivateKey (ECKeyDER priv))))))"

definition dns_names :: "string \<Rightarrow> string \<Rightarrow> string list \<Rightarrow> string list" where
  "dns_names serviceName namespace extraDNS =
     [serviceName, serviceName @ ''.'' @ namespace, serviceName @ ''.'' @ namespace @ ''.svc'',
      serviceName @ ''.'' @ namespace @ ''.svc.cluster.local''] @ extraDNS"

definition server_template :: "int \<Rightarrow> string list \<Rightarrow> int list list \<Rightarrow> time \<Rightarrow> time \<Rightarrow> Certificate" where
  "server_template serial dnsNames extraIPs t1 t2 = \<lparr>SerialNumber = serial, CommonName = dnsNames ! 2,
     DNSNames = dnsNames, IPAddresses = extraIPs, NotBefore = t1 + (- 5) * minute, NotAfter = t2 + certValidity,
     KeyUsage = [UsageDigitalSignature, UsageKeyEncipherment], ServerAuth = True, BasicConstraintsValid = False,
     IsCA = False, Issuer = '''', PublicKey = None, SignedBy = None\<rparr>"

definition parse_ca :: "bytes \<Rightarrow> bytes \<Rightarrow> go_error + Certificate \<times> nat" where
  "parse_ca caCertPEM caKeyPEM = (case pem_Decode caCertPEM of
     None \<Rightarrow> Inl (NewError ''decoding CA cert PEM'')
   | Some (ty, caBlock) \<Rightarrow> (case ParseCertificate caBlock of
        Inl err \<Rightarrow> Inl (Wrapped ''parsing CA cert'' err)
      | Inr caCert \<Rightarrow> (case pem_Decode caKeyPEM of
          None \<Rightarrow> Inl (NewError ''decoding CA key PEM'')
        | Some (ty, caKeyBlock) \<Rightarrow> (case ParseECPrivateKey caKeyBlock of
            Inl err \<Rightarrow> Inl (Wrapped ''parsing CA key'' err)
          | Inr caKey \<Rightarrow> Inr (caCert, caKey)))))"

definition generateServerCert :: "'w cert_env \<Rightarrow> bytes \<Rightarrow> bytes \<Rightarrow> string \<Rightarrow> string \<Rightarrow> string list \<Rightarrow> int list list
    \<Rightarrow> ('w, bytes \<times> bytes) cop" where
  "generateServerCert E caCertPEM caKeyPEM serviceName namespace extraDNS extraIPs =
     (case parse_ca caCertPEM caKeyPEM of
        Inl err \<Rightarrow> go_raise err
      | Inr (caCert, caKey) \<Rightarrow>
          go_bind (go_map_err (Wrapped ''generating server key'') (ask (k_GenerateKey E))) (\<lambda>priv.
          go_bind (go_map_err (Wrapped ''generating serial number'') (ask (k_rand_Int E (2 ^ 128)))) (\<lambda>serial.
          go_bind (time_Now E) (\<lambda>t1. go_bind (time_Now E) (\<lambda>t2.
            case CreateCertificate (server_template serial (dns_names serviceName namespace extraDNS) extraIPs t1 t2) caCert priv caKey of
              Inl err \<Rightarrow> go_raise (Wrapped ''creating server cert'' err)
            | Inr certDER \<Rightarrow> go_ret (PEM pemCertificate certDER, PEM pemECPrivateKey (ECKeyDER priv)))))))"

definition write_temp :: "'w cert_env \<Rightarrow> string \<Rightarrow> string \<Rightarrow> bytes \<Rightarrow> ('w, unit) cop" where
  "write_temp E path tmpPath data =
     go_bind (go_try (os_Chmod E tmpPath)) (\<lambda>r. case r of
       Inl err \<Rightarrow> go_then (go_try (os_Close E tmpPath)) (go_raise (Wrapped ''setting permissions'' err))
     | Inr _ \<Rightarrow> go_bind (go_try (os_Write E tmpPath data)) (\<lambda>r. case r of
         Inl err \<Rightarrow> go_then (go_try (os_Close E tmpPath)) (go_raise (Wrapped ''writing data'' err))
       | Inr _ \<Rightarrow> go_then (go_map_err (Wrapped ''closing temp file'') (os_Close E tmpPath))
           (os_Rename E tmpPath path)))"

definition atomicWriteFile :: "'w cert_env \<Rightarrow> string \<Rightarrow> bytes \<Rightarrow> ('w, unit) cop" where
  "atomicWriteFile E path data =
     go_bind (go_map_err (Wrapped ''creating temp file'') (os_CreateTemp E (filepath_Dir path) ''.cert-tmp-*'')) (\<lambda>tmpPath.
       go_defer (write_temp E path tmpPath data) (os_Remove E tmpPath))"

definition writeCertsToDisk :: "'w cert_env \<Rightarrow> string \<Rightarrow> bytes \<Rightarrow> bytes \<Rightarrow> ('w, unit) cop" where
  "writeCertsToDisk E dir serverCert serverKey =
     go_then (go_map_err (Wrapped ''creating cert dir'') (os_MkdirAll E dir))
     (go_for (k_files_range E [''tls.crt'', ''tls.key'']) (\<lambda>name.
        go_map_err (Wrapped (''writing '' @ name))
          (atomicWriteFile E (filepath_Join dir name) (if name = ''tls.crt'' then serverCert else serverKey))))"

definition set_ca :: "Secret \<Rightarrow> bytes \<Rightarrow> bytes \<Rightarrow> Secret" where
  "set_ca secret caCert caKey = secret\<lparr>Data := map_option (\<lambda>kvs.
     AList.update caKeyField caKey (AList.update caCertField caCert kvs)) (Data secret)\<rparr>"

text \<open>The three branches of \<open>ensureCA\<close>; the result is the certificate, the key and \<open>rotated\<close>.\<close>

definition rotate_ca :: "'w cert_env \<Rightarrow> Secret \<Rightarrow> ('w, bytes \<times> bytes \<times> bool) cop" where
  "rotate_ca E secret =
     go_bind (go_map_err (Wrapped ''rotating CA'') (generateCA E)) (\<lambda>(caCert, caKey).
       if Data secret = None then go_raise (NewError ''panic: assignment to entry in nil map'')
       else go_then (go_map_err (Wrapped ''patching CA secret'')
              (cert_call (PatchSecret secret (set_ca secret caCert caKey)) (k_patchSecret E secret (set_ca secret caCert caKey))))
            (go_ret (caCert, caKey, True)))"

definition get_secret :: "'w cert_env \<Rightarrow> CertBootstrapper \<Rightarrow> ('w, Secret) cop" where
  "get_secret E b = cert_call (GetSecret (Namespace b) (SecretName b)) (k_getSecret E (Namespace b) (SecretName b))"

definition new_secret :: "CertBootstrapper \<Rightarrow> bytes \<Rightarrow> bytes \<Rightarrow> Secret" where
  "new_secret b caCert caKey = \<lparr>sec_Namespace = Namespace b, sec_Name = SecretName b,
     Data = Some [(caCertField, caCert), (caKeyField, caKey)]\<rparr>"

definition create_ca :: "'w cert_env \<Rightarrow> CertBootstrapper \<Rightarrow> ('w, bytes \<times> bytes \<times> bool) cop" where
  "create_ca E b =
     go_bind (go_map_err (Wrapped ''generating CA'') (generateCA E)) (\<lambda>(caCert, caKey).
       go_bind (go_try (cert_call (CreateSecret (new_secret b caCert caKey)) (k_createSecret E (new_secret b caCert caKey)))) (\<lambda>r. case r of
         Inl createErr \<Rightarrow>
           if \<not> IsAlreadyExists createErr then go_raise (Wrapped ''creating CA secret'' createErr)
           else go_bind (go_map_err (Wrapped ''reading CA secret after create race'') (get_secret E b)) (\<lambda>secret.
                  go_ret (dget (Data secret) caCertField, dget (Data secret) caKeyField, True))
       | Inr _ \<Rightarrow> go_ret (caCert, caKey, True)))"

definition ensureCA :: "'w cert_env \<Rightarrow> CertBootstrapper \<Rightarrow> ('w, bytes \<times> bytes \<times> bool) cop" where
  "ensureCA E b = go_bind (go_try (get_secret E b)) (\<lambda>r. case r of
     Inr secret \<Rightarrow> go_bind (caIsExpiring E secret) (\<lambda>expiring.
       if \<not> expiring then go_ret (dget (Data secret) caCertField, dget (Data secret) caKeyField, False)
       else go_bind (caIsExpiring E secret) (\<lambda>expiring.
         if expiring then rotate_ca E secret
         else go_raise (NewError ''getting CA secret: %!w(<nil>)'')))
   | Inl getErr \<Rightarrow>
       if IsNotFound getErr then create_ca E b
       else go_raise (Wrapped ''getting CA secret'' getErr))"

text \<open>A call that may not return, and sequencing of such calls.\<close>

type_synonym ('w, 'a) lop = "'w cst \<Rightarrow> ((go_error + 'a) \<times> 'w cst) option"

definition lop_of :: "('w, 'a) cop \<Rightarrow> ('w, 'a) lop" where
  "lop_of m s = Some (m s)"

definition lop_bind :: "('w, 'a) lop \<Rightarrow> ('a \<Rightarrow> ('w, 'b) lop) \<Rightarrow> ('w, 'b) lop" where
  "lop_bind m f s = (case m s of None \<Rightarrow> None | Some (Inl e, t) \<Rightarrow> Some (Inl e, t) | Some (Inr x, t) \<Rightarrow> f x t)"

partial_function (option) await_config :: "'w cert_env \<Rightarrow> string \<Rightarrow> 'w cst \<Rightarrow> ((go_error + WebhookConfig) \<times> 'w cst) option" where
  "await_config E name s = (case cert_call (GetWebhookConfig name) (k_getWebhookConfig E name) s of
     (Inr config, t) \<Rightarrow> Some (Inr config, t)
   | (Inl err, t) \<Rightarrow>
       if \<not> IsNotFound err then Some (Inl (Wrapped (''getting webhook config '' @ go_quote name) err), t)
       else (case k_wait E (cst_world t) of
          (Some ctxErr, w) \<Rightarrow> Some (Inl (Wrapped (''timed out waiting for webhook config '' @ go_quote name) ctxErr), t\<lparr>cst_world := w\<rparr>)
        | (None, w) \<Rightarrow> await_config E name (t\<lparr>cst_world := w\<rparr>)))"

definition set_bundle :: "bytes \<Rightarrow> WebhookConfig \<Rightarrow> WebhookConfig" where
  "set_bundle caBundle config = config\<lparr>Webhooks := map (\<lambda>h. h\<lparr>CABundle := caBundle\<rparr>) (Webhooks config)\<rparr>"

definition patchCABundle :: "'w cert_env \<Rightarrow> CertBootstrapper \<Rightarrow> bytes \<Rightarrow> ('w, unit) lop" where
  "patchCABundle E b caBundle = lop_bind (await_config E (WebhookConfigName b)) (\<lambda>config.
     lop_of (go_map_err (Wrapped (''patching caBundle on '' @ go_quote (WebhookConfigName b)))
       (cert_call (PatchWebhookConfig config (set_bundle caBundle config))
          (k_patchWebhookConfig E config (set_bundle caBundle config)))))"

text \<open>\<open>dir != "" && (caRotated || serverCertNeedsRenewal(dir))\<close>\<close>

definition wants_cert :: "'w cert_env \<Rightarrow> string \<Rightarrow> bool \<Rightarrow> ('w, bool) cop" where
  "wants_cert E dir caRotated =
     (if dir = '''' then go_ret False else if caRotated then go_ret True else serverCertNeedsRenewal E dir)"

definition webhook_cert :: "'w cert_env \<Rightarrow> CertBootstrapper \<Rightarrow> bytes \<Rightarrow> bytes \<Rightarrow> ('w, unit) lop" where
  "webhook_cert E b caCert caKey =
     lop_bind (lop_of (go_map_err (Wrapped ''generating webhook server cert'')
       (generateServerCert E caCert caKey (ServiceName b) (Namespace b) [] []))) (\<lambda>(serverCert, serverKey).
     lop_bind (lop_of (go_map_err (Wrapped ''writing webhook certs to disk'') (writeCertsToDisk E (CertDir b) serverCert serverKey))) (\<lambda>_.
     patchCABundle E b caCert))"

definition metrics_cert :: "'w cert_env \<Rightarrow> CertBootstrapper \<Rightarrow> bytes \<Rightarrow> bytes \<Rightarrow> ('w, unit) cop" where
  "metrics_cert E b caCert caKey =
     go_bind (go_map_err (Wrapped ''generating metrics server cert'')
       (generateServerCert E caCert caKey (MetricsServiceName b) (Namespace b) [localhostDNS] [[127, 0, 0, 1]])) (\<lambda>(metricsCert, metricsKey).
     go_map_err (Wrapped ''writing metrics certs to disk'') (writeCertsToDisk E (MetricsCertDir b) metricsCert metricsKey))"

definition EnsureCerts :: "'w cert_env \<Rightarrow> CertBootstrapper \<Rightarrow> ('w, unit) lop" where
  "EnsureCerts E b =
     lop_bind (lop_of (ensureCA E b)) (\<lambda>(caCert, caKey, caRotated).
     lop_bind (lop_of (wants_cert E (CertDir b) caRotated)) (\<lambda>wanted.
     lop_bind (if wanted then webhook_cert E b caCert caKey else lop_of (go_ret ())) (\<lambda>_.
     lop_of (go_bind (wants_cert E (MetricsCertDir b) caRotated) (\<lambda>wanted.
       go_when wanted (metrics_cert E b caCert caKey))))))"

text \<open>
  The renewal loop over what its \<open>select\<close> receives; the list ends while the loop waits. An
  error of a renewal is only logged.
\<close>

datatype signal = Tick | CtxDone

fun Start :: "'w cert_env \<Rightarrow> CertBootstrapper \<Rightarrow> signal list \<Rightarrow> 'w cst \<Rightarrow> ((go_error + unit) \<times> 'w cst) option" where
  "Start E b [] s = None"
| "Start E b (Tick # sigs) s = (case EnsureCerts E b s of None \<Rightarrow> None | Some (r, t) \<Rightarrow> Start E b sigs t)"
| "Start E b (CtxDone # sigs) s = Some (Inr (), s)"

text \<open>What a client checks of a server certificate against a CA certificate.\<close>

definition issued_by :: "Certificate \<Rightarrow> Certificate \<Rightarrow> bool" where
  "issued_by ca cert \<longleftrightarrow> IsCA ca \<and> UsageCertSign \<in> set (KeyUsage ca) \<and> Issuer cert = CommonName ca \<and>
     SignedBy cert = PublicKey ca \<and> PublicKey ca \<noteq> None"

definition expires_in :: "bytes \<Rightarrow> time \<Rightarrow> duration option" where
  "expires_in data now = (case pem_Decode data of
     None \<Rightarrow> None
   | Some (ty, block) \<Rightarrow> (case ParseCertificate block of Inl _ \<Rightarrow> None | Inr c \<Rightarrow> Some (time_sub (NotAfter c) now)))"

text \<open>At every reading of the clock, the certificate in \<open>data\<close> has at least 30 days left.\<close>

definition stays_fresh :: "'w cert_env \<Rightarrow> bytes \<Rightarrow> bool" where
  "stays_fresh E data \<longleftrightarrow> (\<forall>w. \<exists>d. expires_in data (fst (k_time_Now E w)) = Some d \<and> renewBefore \<le> d)"

text \<open>The certificates the two generators make.\<close>

definition ca_cert :: "int \<Rightarrow> time \<Rightarrow> time \<Rightarrow> nat \<Rightarrow> Certificate" where
  "ca_cert serial t1 t2 priv = (ca_template serial t1 t2)\<lparr>NotBefore := whole_seconds (t1 + (- 5) * minute),
     NotAfter := whole_seconds (t2 + certValidity), Issuer := ''node-maintenance-orchestrator-ca'',
     PublicKey := Some priv, SignedBy := Some priv\<rparr>"

definition server_cert :: "int \<Rightarrow> string list \<Rightarrow> int list list \<Rightarrow> time \<Rightarrow> time \<Rightarrow> Certificate \<Rightarrow> nat \<Rightarrow> nat \<Rightarrow> Certificate" where
  "server_cert serial names ips t1 t2 ca priv caKey = (server_template serial names ips t1 t2)\<lparr>
     NotBefore := whole_seconds (t1 + (- 5) * minute), NotAfter := whole_seconds (t2 + certValidity),
     Issuer := CommonName ca, PublicKey := Some priv, SignedBy := Some caKey\<rparr>"

text \<open>Making keys and certificates reads the clock and the randomness and touches nothing else.\<close>

definition thinks :: "'w cst \<Rightarrow> 'w cst \<Rightarrow> bool" where
  "thinks s t \<longleftrightarrow> cst_files t = cst_files s \<and> cst_history t = cst_history s \<and> cst_calls t = cst_calls s"

section \<open>Lemmas\<close>

lemma cert_call_run [go_run]: "f (cst_world s) = (r, w) \<Longrightarrow> cert_call c f s = (r, s\<lparr>cst_world := w, cst_calls := cst_calls s @ [c]\<rparr>)"
  by (simp add: cert_call_def)

lemma time_Now_run: "\<exists>now w. time_Now E s = (Inr now, s\<lparr>cst_world := w\<rparr>) \<and> k_time_Now E (cst_world s) = (now, w)"
  by (cases "k_time_Now E (cst_world s)") (simp add: time_Now_def)

lemma pem_expiring_fresh:
  fixes s :: "'w cst"
  assumes "stays_fresh E data"
  shows "\<exists>w. pem_expiring E data s = (Inr False, s\<lparr>cst_world := w\<rparr>)"
proof -
  obtain now w where now: "time_Now E s = (Inr now, s\<lparr>cst_world := w\<rparr>)" "k_time_Now E (cst_world s) = (now, w)"
    using time_Now_run [of E s] by blast
  have "\<exists>d. expires_in data now = Some d \<and> renewBefore \<le> d"
    using assms now(2) unfolding stays_fresh_def by (metis fst_conv)
  then show ?thesis
    using now(1)
    by (auto simp: expires_in_def pem_expiring_def go_bind_def go_run split: option.splits sum.splits intro: exI [of _ w])
qed

lemma CreateCertificate_Inr:
  "CreateCertificate tmpl parent pub priv = Inr d \<longleftrightarrow>
     0 \<le> SerialNumber tmpl \<and> (PublicKey parent = None \<or> PublicKey parent = Some priv) \<and>
     d = CertificateDER (tmpl\<lparr>NotBefore := whole_seconds (NotBefore tmpl),
        NotAfter := whole_seconds (NotAfter tmpl), Issuer := CommonName parent,
        PublicKey := Some pub, SignedBy := Some priv\<rparr>)"
  by (auto simp: CreateCertificate_def)

interpretation thinking: effect thinks
  by unfold_locales (auto simp: thinks_def)

lemma thinks_ask: "obeys thinks (ask f)"
  by (auto simp: obeys_def thinks_def ask_def split: prod.splits)

lemma thinks_time_Now: "obeys thinks (time_Now E)"
  by (auto simp: obeys_def thinks_def time_Now_def split: prod.splits)

lemmas thinks_intros = thinking.obeys_intros thinks_ask thinks_time_Now

lemma generateCA_thinks: "obeys thinks (generateCA E)"
  unfolding generateCA_def Let_def by (intro thinks_intros)

lemma pem_expiring_thinks: "obeys thinks (pem_expiring E data)"
  unfolding pem_expiring_def by (intro thinks_intros)

lemma generateServerCert_thinks: "obeys thinks (generateServerCert E caCertPEM caKeyPEM serviceName namespace extraDNS extraIPs)"
  unfolding generateServerCert_def parse_ca_def by (intro thinks_intros)

lemma thinksD: "obeys thinks m \<Longrightarrow> m s = (r, t) \<Longrightarrow> cst_files t = cst_files s \<and> cst_history t = cst_history s \<and> cst_calls t = cst_calls s"
  by (drule (1) obeysD) (simp add: thinks_def)

lemma CreateCertificate_ca:
  "CreateCertificate (ca_template serial t1 t2) (ca_template serial t1 t2) priv priv =
     (if serial < 0 then Inl (NewError ''x509: serial number must be positive'')
      else Inr (CertificateDER (ca_cert serial t1 t2 priv)))"
  by (simp add: CreateCertificate_def ca_template_def ca_cert_def)

lemma CreateCertificate_server:
  "CreateCertificate (server_template serial names ips t1 t2) ca priv caKey =
     (if serial < 0 then Inl (NewError ''x509: serial number must be positive'')
      else if PublicKey ca \<noteq> None \<and> PublicKey ca \<noteq> Some caKey then
        Inl (NewError ''x509: provided PrivateKey does not match the PublicKey of the parent'')
      else Inr (CertificateDER (server_cert serial names ips t1 t2 ca priv caKey)))"
  by (simp add: CreateCertificate_def server_template_def server_cert_def)

lemma generateCA_Inr:
  "generateCA E s = (Inr (caCert, caKey), t) \<Longrightarrow> \<exists>priv serial t1 t2.
     caCert = PEM pemCertificate (CertificateDER (ca_cert serial t1 t2 priv)) \<and>
     caKey = PEM pemECPrivateKey (ECKeyDER priv)"
  unfolding generateCA_def Let_def CreateCertificate_ca
  by (auto simp: go_bind_Inr go_ret_def go_raise_def split: if_splits)

lemma parse_ca_Inr:
  "parse_ca caCertPEM caKeyPEM = Inr (ca, k) \<longleftrightarrow> PublicKey ca \<noteq> None \<and>
     (\<exists>ty ty'. caCertPEM = PEM ty (CertificateDER ca) \<and> caKeyPEM = PEM ty' (ECKeyDER k))"
  unfolding parse_ca_def
  by (cases caCertPEM; cases caKeyPEM)
    (auto split: sum.splits if_splits elim!: ParseCertificate.elims ParseECPrivateKey.elims)

lemma generateServerCert_Inr:
  "generateServerCert E caCertPEM caKeyPEM serviceName namespace extraDNS ips s = (Inr (cert, key), t) \<Longrightarrow>
     \<exists>ca caKey priv serial t1 t2. parse_ca caCertPEM caKeyPEM = Inr (ca, caKey) \<and> PublicKey ca = Some caKey \<and>
       cert = PEM pemCertificate (CertificateDER (server_cert serial (dns_names serviceName namespace extraDNS) ips t1 t2 ca priv caKey)) \<and>
       key = PEM pemECPrivateKey (ECKeyDER priv)"
  unfolding generateServerCert_def CreateCertificate_server
  by (auto simp: go_bind_Inr go_ret_def go_raise_def split: sum.splits if_splits dest!: iffD1 [OF parse_ca_Inr]) blast+

lemma parse_ca_of_generateCA:
  "PublicKey ca \<noteq> None \<Longrightarrow> parse_ca (PEM pemCertificate (CertificateDER ca)) (PEM pemECPrivateKey (ECKeyDER k)) = Inr (ca, k)"
  by (auto simp: parse_ca_Inr)

lemma ca_cert_fields:
  "PublicKey (ca_cert serial t1 t2 priv) = Some priv" "IsCA (ca_cert serial t1 t2 priv)"
  "UsageCertSign \<in> set (KeyUsage (ca_cert serial t1 t2 priv))"
  "NotAfter (ca_cert serial t1 t2 priv) = whole_seconds (t2 + certValidity)"
  by (simp_all add: ca_cert_def ca_template_def)

lemma server_cert_fields:
  "PublicKey (server_cert serial names ips t1 t2 ca priv k) = Some priv"
  "SignedBy (server_cert serial names ips t1 t2 ca priv k) = Some k"
  "Issuer (server_cert serial names ips t1 t2 ca priv k) = CommonName ca"
  "DNSNames (server_cert serial names ips t1 t2 ca priv k) = names"
  "NotAfter (server_cert serial names ips t1 t2 ca priv k) = whole_seconds (t2 + certValidity)"
  by (simp_all add: server_cert_def server_template_def)

section \<open>Certificates verify against the CA that made them\<close>

text \<open>
  C23. A server certificate generated from the output of \<open>generateCA\<close>, whenever it is generated
  and wherever that output was stored meanwhile, verifies against that CA: the CA may sign, the
  issuer is its name and the signature is by its key; the private key written next to it is
  the certificate's own, and its names are those of the service.
\<close>

theorem server_cert_chains:
  fixes E :: "'w cert_env" and s :: "'w cst" and F :: "'v cert_env" and u :: "'v cst"
  assumes "generateCA E s = (Inr (caCert, caKey), t)"
    and "generateServerCert F caCert caKey serviceName namespace extraDNS extraIPs u = (Inr (cert, key), v)"
  shows "\<exists>ca c priv. pem_Decode caCert = Some (pemCertificate, CertificateDER ca) \<and>
     pem_Decode cert = Some (pemCertificate, CertificateDER c) \<and>
     pem_Decode key = Some (pemECPrivateKey, ECKeyDER priv) \<and>
     issued_by ca c \<and> PublicKey c = Some priv \<and>
     DNSNames c = [serviceName, serviceName @ ''.'' @ namespace, serviceName @ ''.'' @ namespace @ ''.svc'',
       serviceName @ ''.'' @ namespace @ ''.svc.cluster.local''] @ extraDNS"
proof -
  from generateCA_Inr [OF assms(1)] obtain k serial t1 t2 where
    ca: "caCert = PEM pemCertificate (CertificateDER (ca_cert serial t1 t2 k))" "caKey = PEM pemECPrivateKey (ECKeyDER k)"
    by blast
  from generateServerCert_Inr [OF assms(2)] obtain priv serial' t1' t2' where
    "cert = PEM pemCertificate (CertificateDER (server_cert serial' (dns_names serviceName namespace extraDNS) extraIPs t1' t2'
       (ca_cert serial t1 t2 k) priv k))" "key = PEM pemECPrivateKey (ECKeyDER priv)"
    unfolding ca by (auto simp: parse_ca_of_generateCA ca_cert_fields)
  with ca show ?thesis
    by (simp add: issued_by_def ca_cert_fields server_cert_fields dns_names_def)
qed

theorem server_cert_chains_witness:
  "\<exists>caCert caKey cert key. fst (generateCA mem_cert_env mem_start) = Inr (caCert, caKey) \<and>
     fst (generateServerCert mem_cert_env caCert caKey ''hook'' ''ops'' [] [] mem_start) = Inr (cert, key) \<and>
     (\<exists>ca c priv. pem_Decode caCert = Some (pemCertificate, CertificateDER ca) \<and>
       pem_Decode cert = Some (pemCertificate, CertificateDER c) \<and>
       pem_Decode key = Some (pemECPrivateKey, ECKeyDER priv) \<and>
       issued_by ca c \<and> PublicKey c = Some priv \<and>
       DNSNames c = [''hook'', ''hook'' @ ''.'' @ ''ops'', ''hook'' @ ''.'' @ ''ops'' @ ''.svc'',
         ''hook'' @ ''.'' @ ''ops'' @ ''.svc.cluster.local''] @ [])"
proof -
  obtain t where ca: "generateCA mem_cert_env mem_start =
      (Inr (PEM pemCertificate (CertificateDER (ca_cert 2 0 0 1)), PEM pemECPrivateKey (ECKeyDER 1)), t)"
    by (simp add: generateCA_def go_bind_def go_map_err_def ask_def time_Now_def mem_cert_env_def mem_start_def
        CreateCertificate_ca Let_def go_ret_def)
  obtain cert key v where srv: "generateServerCert mem_cert_env (PEM pemCertificate (CertificateDER (ca_cert 2 0 0 1)))
      (PEM pemECPrivateKey (ECKeyDER 1)) ''hook'' ''ops'' [] [] mem_start = (Inr (cert, key), v)"
    by (simp add: generateServerCert_def parse_ca_of_generateCA go_bind_def go_map_err_def ask_def time_Now_def
        mem_cert_env_def mem_start_def CreateCertificate_server ca_cert_fields go_ret_def)
  show ?thesis
    using server_cert_chains [OF ca srv] ca srv by (metis fst_conv)
qed

end
