(* ===== verification/Cert_Disk.thy ===== *)
theory Cert_Disk
  imports Cert_Bootstrap
begin

text \<open>
  What \<open>certbootstrap.go\<close> does to the disk and to the webhook configuration: a file of a
  certificate directory is replaced in one step, a pair is written completely or the error is
  returned, and a pass of \<open>EnsureCerts\<close> that renews leaves a pair on disk that verifies against
  the bundle it published. Then what it does not do: a settled pass never looks at the bundle,
  and a pair half written is taken for a good one.
\<close>

section \<open>Definitions\<close>

text \<open>No state between \<open>s\<close> and \<open>t\<close> has anything else than the old or the new content at \<open>path\<close>.\<close>

definition never_torn :: "string \<Rightarrow> bytes option \<Rightarrow> bytes option \<Rightarrow> 'w cst \<Rightarrow> 'w cst \<Rightarrow> bool" where
  "never_torn path old new s t \<longleftrightarrow> (\<exists>h. cst_history t = cst_history s @ h \<and> (\<forall>f\<in>set h. f path = old \<or> f path = new))"

text \<open>
  A run that writes \<open>path\<close> by way of \<open>tmp\<close>, with \<open>c\<close> at \<open>path\<close> so far: nothing torn, no request,
  no other file touched.
\<close>

definition swapping :: "string \<Rightarrow> string \<Rightarrow> bytes option \<Rightarrow> bytes option \<Rightarrow> bytes option \<Rightarrow> 'w cst \<Rightarrow> 'w cst \<Rightarrow> bool" where
  "swapping path tmp old new c s t \<longleftrightarrow>
     (\<exists>h. cst_history t = cst_history s @ h \<and> (\<forall>f\<in>set h. (f path = old \<or> f path = new) \<and>
       (\<forall>p. p \<noteq> path \<longrightarrow> p \<noteq> tmp \<longrightarrow> f p = cst_files s p))) \<and>
     cst_files t path = c \<and> cst_calls t = cst_calls s \<and> (\<forall>p. p \<noteq> path \<longrightarrow> p \<noteq> tmp \<longrightarrow> cst_files t p = cst_files s p)"

abbreviation "tls_crt dir \<equiv> filepath_Join dir ''tls.crt''"
abbreviation "tls_key dir \<equiv> filepath_Join dir ''tls.key''"

text \<open>
  What is assumed of the surroundings: a \<open>range\<close> over the two files visits each once, and a
  temporary file never has the name of a certificate file (the pattern is \<open>.cert-tmp-*\<close>).
\<close>

definition disk_laws :: "'w cert_env \<Rightarrow> string list \<Rightarrow> bool" where
  "disk_laws E dirs \<longleftrightarrow> mset (k_files_range E [''tls.crt'', ''tls.key'']) = mset [''tls.crt'', ''tls.key''] \<and>
     (\<forall>dir\<in>set dirs. \<forall>d w. k_tempName E d w \<noteq> tls_crt dir \<and> k_tempName E d w \<noteq> tls_key dir)"

text \<open>A client that trusts the bundle accepts the pair of files: certificate, key and signature fit.\<close>

fun verifies :: "bytes \<Rightarrow> bytes option \<Rightarrow> bytes option \<Rightarrow> bool" where
  "verifies (PEM _ (CertificateDER ca)) (Some (PEM _ (CertificateDER c))) (Some (PEM _ (ECKeyDER priv))) \<longleftrightarrow>
     PublicKey c = Some priv \<and> Issuer c = CommonName ca \<and> PublicKey ca \<noteq> None \<and> SignedBy c = PublicKey ca"
| "verifies _ _ _ \<longleftrightarrow> False"

text \<open>What a part of a pass does to the certificate files and to the list of requests.\<close>

definition asks :: "'w cst \<Rightarrow> 'w cst \<Rightarrow> bool" where
  "asks s t \<longleftrightarrow> cst_files t = cst_files s \<and> (\<exists>cs. cst_calls t = cst_calls s @ cs)"

definition looks :: "'w cst \<Rightarrow> 'w cst \<Rightarrow> bool" where
  "looks s t \<longleftrightarrow> cst_files t = cst_files s \<and> cst_calls t = cst_calls s"

section \<open>Lemmas\<close>

lemma triple_os_op [go_hoare]:
  assumes "\<And>s w. P s \<Longrightarrow> Q () (s\<lparr>cst_world := w, cst_files := good (cst_files s), cst_history := cst_history s @ [good (cst_files s)]\<rparr>)"
    and "\<And>s w. P s \<Longrightarrow> X (s\<lparr>cst_world := w, cst_files := bad (cst_files s), cst_history := cst_history s @ [bad (cst_files s)]\<rparr>)"
  shows "triple P (os_op E op good bad) Q X"
  using assms by (auto simp: triple_def os_op_def split: prod.splits option.splits)

lemma swapping_step:
  "swapping path tmp old new c s t \<Longrightarrow> f path = old \<or> f path = new \<Longrightarrow>
   (\<And>p. p \<noteq> path \<Longrightarrow> p \<noteq> tmp \<Longrightarrow> f p = cst_files t p) \<Longrightarrow>
   swapping path tmp old new (f path) s (t\<lparr>cst_world := w, cst_files := f, cst_history := cst_history t @ [f]\<rparr>)"
  by (auto simp: swapping_def)

text \<open>An operation that leaves \<open>path\<close> as it is, whether it succeeds or fails.\<close>

lemma swapping_keep:
  assumes "tmp \<noteq> path" and "\<And>fs p. p \<noteq> tmp \<Longrightarrow> good fs p = fs p \<and> bad fs p = fs p"
    and "\<And>t w. swapping path tmp old new old s t \<Longrightarrow> K t \<Longrightarrow>
      K' (t\<lparr>cst_world := w, cst_files := good (cst_files t), cst_history := cst_history t @ [good (cst_files t)]\<rparr>)"
  shows "triple (\<lambda>t. swapping path tmp old new old s t \<and> K t) (os_op E op good bad)
     (\<lambda>_ t. swapping path tmp old new old s t \<and> K' t) (swapping path tmp old new old s)"
proof (rule triple_os_op)
  have path: "fs path = old \<Longrightarrow> good fs path = old" "fs path = old \<Longrightarrow> bad fs path = old" for fs
    using assms(1,2) by metis+
  fix t w assume t: "swapping path tmp old new old s t \<and> K t"
  then have old: "cst_files t path = old" by (simp add: swapping_def)
  show "swapping path tmp old new old s (t\<lparr>cst_world := w, cst_files := good (cst_files t), cst_history := cst_history t @ [good (cst_files t)]\<rparr>)
      \<and> K' (t\<lparr>cst_world := w, cst_files := good (cst_files t), cst_history := cst_history t @ [good (cst_files t)]\<rparr>)"
    using swapping_step [of path tmp old new old s t "good (cst_files t)" w] t assms(2,3) path(1) [of "cst_files t"] old by simp
  show "swapping path tmp old new old s (t\<lparr>cst_world := w, cst_files := bad (cst_files t), cst_history := cst_history t @ [bad (cst_files t)]\<rparr>)"
    using swapping_step [of path tmp old new old s t "bad (cst_files t)" w] t assms(2) path(2) [of "cst_files t"] old by simp
qed

lemmas swapping_same = swapping_keep [where K = "\<lambda>_. True" and K' = "\<lambda>_. True", simplified]

lemma swapping_rename:
  assumes "tmp \<noteq> path"
  shows "triple (\<lambda>t. swapping path tmp old new old s t \<and> cst_files t tmp = new) (os_Rename E tmp path)
     (\<lambda>_. swapping path tmp old new new s) (swapping path tmp old new old s)"
  unfolding os_Rename_def
proof (rule triple_os_op)
  fix t w assume t: "swapping path tmp old new old s t \<and> cst_files t tmp = new"
  let ?f = "(cst_files t)(path := cst_files t tmp, tmp := None)"
  show "swapping path tmp old new new s (t\<lparr>cst_world := w, cst_files := ?f, cst_history := cst_history t @ [?f]\<rparr>)"
    using swapping_step [of path tmp old new old s t ?f w] t assms by auto
  show "swapping path tmp old new old s (t\<lparr>cst_world := w, cst_files := cst_files t, cst_history := cst_history t @ [cst_files t]\<rparr>)"
    using swapping_step [of path tmp old new old s t "cst_files t" w] t by (simp add: swapping_def)
qed

lemma write_temp_swaps:
  assumes "tmp \<noteq> path"
  shows "triple (swapping path tmp old (Some data) old s) (write_temp E path tmp data)
     (\<lambda>_. swapping path tmp old (Some data) (Some data) s) (swapping path tmp old (Some data) old s)"
proof -
  let ?I = "swapping path tmp old (Some data) old s" and ?D = "swapping path tmp old (Some data) (Some data) s"
  let ?W = "\<lambda>t. ?I t \<and> cst_files t tmp = Some data"
  have quiet: "triple ?I (go_then (go_try (os_Close E tmp)) (go_raise e)) (\<lambda>_. ?D) ?I" for e
    unfolding os_Close_def
    by (rule triple_then [where R = ?I], rule triple_try, rule triple_weaken, rule swapping_same [OF assms])
      (auto intro: triple_raise)
  have put: "triple ?I (os_Write E tmp data) (\<lambda>_. ?W) ?I"
    unfolding os_Write_def
    by (rule triple_bind [where R = "\<lambda>_. ?I"], rule triple_get, assumption,
        rule swapping_keep [where K = "\<lambda>_. True", simplified, OF assms]) auto
  have close: "triple ?W (os_Close E tmp) (\<lambda>_. ?W) ?I"
    unfolding os_Close_def by (rule swapping_keep [OF assms]) auto
  have last: "triple (\<lambda>t. case r of Inl _ \<Rightarrow> ?I t | Inr _ \<Rightarrow> ?W t)
      (case r of Inl err \<Rightarrow> go_then (go_try (os_Close E tmp)) (go_raise (Wrapped ''writing data'' err))
       | Inr _ \<Rightarrow> go_then (go_map_err (Wrapped ''closing temp file'') (os_Close E tmp)) (os_Rename E tmp path))
      (\<lambda>_. ?D) ?I" for r :: "go_error + unit"
    by (cases r) (auto intro!: quiet triple_then [where R = ?W] triple_map_err close swapping_rename assms)
  have chmod: "triple ?I (go_try (os_Chmod E tmp)) (\<lambda>_. ?I) ?I"
    unfolding os_Chmod_def by (rule triple_try, rule triple_weaken, rule swapping_same [OF assms]) auto
  have wr: "triple ?I (go_try (os_Write E tmp data)) (\<lambda>r t. case r of Inl _ \<Rightarrow> ?I t | Inr _ \<Rightarrow> ?W t) ?I"
    by (rule triple_try, rule triple_weaken, rule put) auto
  show ?thesis
    unfolding write_temp_def
  proof (rule triple_bind, rule chmod)
    fix r :: "go_error + unit"
    show "triple ?I (case r of Inl err \<Rightarrow> go_then (go_try (os_Close E tmp)) (go_raise (Wrapped ''setting permissions'' err))
        | Inr _ \<Rightarrow> go_bind (go_try (os_Write E tmp data)) (\<lambda>r. case r of
            Inl err \<Rightarrow> go_then (go_try (os_Close E tmp)) (go_raise (Wrapped ''writing data'' err))
          | Inr _ \<Rightarrow> go_then (go_map_err (Wrapped ''closing temp file'') (os_Close E tmp)) (os_Rename E tmp path)))
        (\<lambda>_. ?D) ?I"
      by (cases r) (auto intro!: quiet triple_bind [OF wr last])
  qed
qed

lemma triple_defer:
  assumes "triple P m Q X" and "\<And>x. triple (Q x) c (\<lambda>_. Q x) (Q x)" and "triple X c (\<lambda>_. X) X"
  shows "triple P (go_defer m c) Q X"
  unfolding triple_def [of P]
proof (intro allI impI)
  fix s assume P: "P s"
  obtain r u where m: "m s = (r, u)" by force
  show "case go_defer m c s of (Inl e, t) \<Rightarrow> X t | (Inr x, t) \<Rightarrow> Q x t"
  proof (cases r)
    case (Inl e)
    then have "X u" using assms(1) P m by (auto simp: triple_def dest!: spec [of _ s])
    then show ?thesis using tripleD_state [OF assms(3)] m Inl by (simp add: go_defer_def)
  next
    case (Inr x)
    then have "Q x u" using assms(1) P m by (auto simp: triple_def dest!: spec [of _ s])
    then show ?thesis using tripleD_state [OF assms(2)] m Inr by (simp add: go_defer_def)
  qed
qed

lemma atomicWriteFile_swaps:
  assumes fresh: "\<And>dir w. k_tempName E dir w \<noteq> path"
    and run: "atomicWriteFile E path data s = (r, t)"
  shows "swapping path (k_tempName E (filepath_Dir path) (cst_world s)) (cst_files s path) (Some data)
     (case r of Inl _ \<Rightarrow> cst_files s path | Inr _ \<Rightarrow> Some data) s t"
proof -
  define tmp old where "tmp = k_tempName E (filepath_Dir path) (cst_world s)" and "old = cst_files s path"
  have tmp: "tmp \<noteq> path" using fresh by (simp add: tmp_def)
  let ?I = "swapping path tmp old (Some data) old s" and ?D = "swapping path tmp old (Some data) (Some data) s"
  have start: "?I s" by (simp add: swapping_def old_def)
  have create: "triple (\<lambda>u. u = s) (os_CreateTemp E (filepath_Dir path) ''.cert-tmp-*'') (\<lambda>x u. x = tmp \<and> ?I u) ?I"
    unfolding os_CreateTemp_def
  proof (rule triple_bind [where R = "\<lambda>x u. x = tmp \<and> u = s"])
    show "triple (\<lambda>u. u = s) (go_get (\<lambda>s. k_tempName E (filepath_Dir path) (cst_world s))) (\<lambda>x u. x = tmp \<and> u = s) ?I"
      by (rule triple_get) (simp add: tmp_def)
    fix x
    show "triple (\<lambda>u. x = tmp \<and> u = s) (go_then (os_op E (CreateTemp (filepath_Dir path) ''.cert-tmp-*'')
        (\<lambda>fs. fs(x \<mapsto> Plain [])) (\<lambda>fs. fs)) (go_ret x)) (\<lambda>x u. x = tmp \<and> ?I u) ?I"
    proof (rule triple_then [where R = "\<lambda>u. x = tmp \<and> ?I u"])
      have "triple ?I (os_op E (CreateTemp (filepath_Dir path) ''.cert-tmp-*'') (\<lambda>fs. fs(tmp \<mapsto> Plain [])) (\<lambda>fs. fs)) (\<lambda>_. ?I) ?I"
        by (rule swapping_same [OF tmp]) simp
      then show "triple (\<lambda>u. x = tmp \<and> u = s) (os_op E (CreateTemp (filepath_Dir path) ''.cert-tmp-*'')
          (\<lambda>fs. fs(x \<mapsto> Plain [])) (\<lambda>fs. fs)) (\<lambda>_ u. x = tmp \<and> ?I u) ?I"
        using start unfolding triple_def by (cases "x = tmp") (auto split: prod.splits sum.splits)
    qed (rule triple_ret)
  qed
  have remove: "triple (swapping path tmp old (Some data) c s) (os_Remove E tmp) (\<lambda>_. swapping path tmp old (Some data) c s)
      (swapping path tmp old (Some data) c s)" if "c = old \<or> c = Some data" for c
    unfolding os_Remove_def
  proof (rule triple_os_op)
    fix u w assume u: "swapping path tmp old (Some data) c s u"
    show "swapping path tmp old (Some data) c s (u\<lparr>cst_world := w, cst_files := (cst_files u)(tmp := None),
        cst_history := cst_history u @ [(cst_files u)(tmp := None)]\<rparr>)"
      using swapping_step [of path tmp old "Some data" c s u "(cst_files u)(tmp := None)" w] u that tmp
      by (simp add: swapping_def)
    show "swapping path tmp old (Some data) c s (u\<lparr>cst_world := w, cst_files := cst_files u,
        cst_history := cst_history u @ [cst_files u]\<rparr>)"
      using swapping_step [of path tmp old "Some data" c s u "cst_files u" w] u that by (simp add: swapping_def)
  qed
  have "triple (\<lambda>u. x = tmp \<and> ?I u) (go_defer (write_temp E path x data) (os_Remove E x)) (\<lambda>_. ?D) ?I" for x
    by (cases "x = tmp")
      (auto simp: triple_def [of "\<lambda>s. False"] intro!: triple_defer write_temp_swaps remove tmp)
  then have "triple (\<lambda>u. u = s) (atomicWriteFile E path data) (\<lambda>_. ?D) ?I"
    unfolding atomicWriteFile_def by (intro triple_bind [OF triple_map_err, OF create])
  then show ?thesis
    using run by (auto simp: triple_def tmp_def old_def split: sum.splits)
qed

lemma swapping_never_torn:
  "swapping path tmp old new c s t \<Longrightarrow> never_torn path old new s t"
  "swapping path tmp old new c s t \<Longrightarrow> p \<noteq> path \<Longrightarrow> p \<noteq> tmp \<Longrightarrow> never_torn p (cst_files s p) (cst_files s p) s t"
  by (auto simp: swapping_def never_torn_def)

lemma swapping_at: "swapping path tmp old new c s t \<Longrightarrow> cst_files t path = c \<and> cst_calls t = cst_calls s"
  by (simp add: swapping_def)

lemma swapping_only: "swapping path tmp old new c s t \<Longrightarrow> x \<noteq> path \<Longrightarrow> x \<noteq> tmp \<Longrightarrow> cst_files t x = cst_files s x"
  by (simp add: swapping_def)

lemma never_torn_trans:
  "never_torn p old new s t \<Longrightarrow> never_torn p old' new' t u \<Longrightarrow> {old', new'} \<subseteq> {old, new} \<Longrightarrow> never_torn p old new s u"
  by (fastforce simp: never_torn_def)

text \<open>One file after the other, an error of the first skipping the second.\<close>

lemma two_files:
  assumes "p \<noteq> q" and fresh: "\<And>dir w. k_tempName E dir w \<noteq> p \<and> k_tempName E dir w \<noteq> q"
    and run: "go_then (go_map_err e (atomicWriteFile E p a)) (go_map_err e' (atomicWriteFile E q b)) s = (r, t)"
  shows "never_torn p (cst_files s p) (Some a) s t \<and> never_torn q (cst_files s q) (Some b) s t \<and>
    cst_calls t = cst_calls s \<and>
    (case r of Inr _ \<Rightarrow> cst_files t p = Some a \<and> cst_files t q = Some b
      | Inl _ \<Rightarrow> (cst_files t p = cst_files s p \<or> cst_files t p = Some a) \<and> cst_files t q = cst_files s q) \<and>
    (\<forall>x. x \<noteq> p \<longrightarrow> x \<noteq> q \<longrightarrow> (\<forall>dir w. k_tempName E dir w \<noteq> x) \<longrightarrow> cst_files t x = cst_files s x)"
proof -
  obtain r1 u where 1: "atomicWriteFile E p a s = (r1, u)" by force
  have sw1: "swapping p (k_tempName E (filepath_Dir p) (cst_world s)) (cst_files s p) (Some a)
      (case r1 of Inl _ \<Rightarrow> cst_files s p | Inr _ \<Rightarrow> Some a) s u"
    by (rule atomicWriteFile_swaps [OF _ 1]) (simp add: fresh)
  have q1: "cst_files u q = cst_files s q" using sw1 assms(1) fresh by (metis swapping_def)
  have quiet: "never_torn q (cst_files s q) (cst_files s q) s u"
    by (rule swapping_never_torn(2) [OF sw1]) (use assms(1) fresh in metis)+
  show ?thesis
  proof (cases r1)
    case (Inl err)
    with run 1 have "r = Inl (e err)" "t = u" by (auto simp: go_then_def go_bind_def go_map_err_def)
    moreover have "never_torn q (cst_files s q) (Some b) s u"
      using quiet by (auto simp: never_torn_def)
    ultimately show ?thesis
      using sw1 swapping_never_torn(1) [OF sw1] q1 Inl by (auto simp: swapping_def)
  next
    case (Inr x)
    obtain r2 v where 2: "atomicWriteFile E q b u = (r2, v)" by force
    have sw2: "swapping q (k_tempName E (filepath_Dir q) (cst_world u)) (cst_files s q) (Some b)
        (case r2 of Inl _ \<Rightarrow> cst_files s q | Inr _ \<Rightarrow> Some b) u v"
      using atomicWriteFile_swaps [OF _ 2] fresh unfolding q1 by simp
    have p1: "cst_files u p = Some a" using sw1 Inr by (simp add: swapping_def)
    have p2: "cst_files v p = Some a" using sw2 assms(1) fresh p1 by (metis swapping_def)
    have t: "t = v" "r = (case r2 of Inl err \<Rightarrow> Inl (e' err) | Inr x \<Rightarrow> Inr x)"
      using run 1 2 Inr by (auto simp: go_then_def go_bind_def go_map_err_def split: sum.splits)
    have "never_torn p (cst_files s p) (Some a) s v"
      by (rule never_torn_trans [OF swapping_never_torn(1) [OF sw1] swapping_never_torn(2) [OF sw2]])
        (use assms(1) fresh p1 in auto)
    moreover have "never_torn q (cst_files s q) (Some b) s v"
      by (rule never_torn_trans [OF _ swapping_never_torn(1) [OF sw2]]) (use quiet in \<open>auto simp: never_torn_def\<close>)
    moreover have "cst_files v x = cst_files s x" if "x \<noteq> p" "x \<noteq> q" "\<forall>dir w. k_tempName E dir w \<noteq> x" for x
      using that swapping_only [OF sw1, of x] swapping_only [OF sw2, of x] by metis
    ultimately show ?thesis
      using swapping_at [OF sw1] swapping_at [OF sw2] p2 unfolding t by (cases r2) auto
  qed
qed

section \<open>Files are replaced in one step\<close>

text \<open>
  C25. \<open>atomicWriteFile\<close> never shows a partial file: whatever operation fails, and however much
  a failed write leaves behind, every state on the way has the old or the complete new content
  at the path, and the call returns no error exactly when the new content is there at the end
  (the old one otherwise). That the temporary name is not the path is what \<open>os.CreateTemp\<close>
  promises.
\<close>

theorem atomicWriteFile_atomic:
  assumes "\<And>dir w. k_tempName E dir w \<noteq> path" and "atomicWriteFile E path data s = (r, t)"
  shows "never_torn path (cst_files s path) (Some data) s t \<and> cst_calls t = cst_calls s \<and>
    cst_files t path = (case r of Inl _ \<Rightarrow> cst_files s path | Inr _ \<Rightarrow> Some data)"
proof -
  have sw: "swapping path (k_tempName E (filepath_Dir path) (cst_world s)) (cst_files s path) (Some data)
      (case r of Inl _ \<Rightarrow> cst_files s path | Inr _ \<Rightarrow> Some data) s t"
    by (rule atomicWriteFile_swaps [OF assms])
  show ?thesis
    using swapping_never_torn(1) [OF sw] sw by (simp add: swapping_def)
qed

lemma filepath_Join_last: "filepath_Join dir name = '''' \<or> last (filepath_Join dir name) = last name" if "name \<noteq> ''''"
  using that by (simp add: filepath_Join_def)

lemma mem_temp_fresh: "k_tempName mem_cert_env dir w \<noteq> path" if "path \<noteq> ''''" "last path \<noteq> CHR ''1''"
  using that filepath_Join_last [of "''.cert-tmp-1''" dir] by (auto simp: mem_cert_env_def)

lemma mem_start_reads: "cst_files mem_start p = None" "cst_calls mem_start = []" "cst_history mem_start = []"
  by (simp_all add: mem_start_def)

theorem atomicWriteFile_atomic_witness:
  "(\<forall>dir w. k_tempName mem_cert_env dir w \<noteq> ''/certs/tls.crt'') \<and>
   (let (r, t) = atomicWriteFile mem_cert_env ''/certs/tls.crt'' (Plain ''new'') mem_start in
     never_torn ''/certs/tls.crt'' None (Some (Plain ''new'')) mem_start t \<and> cst_calls t = [] \<and>
     cst_files t ''/certs/tls.crt'' = (case r of Inl _ \<Rightarrow> None | Inr _ \<Rightarrow> Some (Plain ''new'')))"
proof -
  have fresh: "k_tempName mem_cert_env dir w \<noteq> ''/certs/tls.crt''" for dir w
    by (rule mem_temp_fresh) simp_all
  obtain r t where rt: "atomicWriteFile mem_cert_env ''/certs/tls.crt'' (Plain ''new'') mem_start = (r, t)" by force
  show ?thesis
    using atomicWriteFile_atomic [OF fresh rt] fresh rt by (simp add: mem_start_reads cong: sum.case_cong)
qed

section \<open>Pairs of files\<close>

lemma files_range_cases:
  assumes "disk_laws E dirs"
  shows "k_files_range E [''tls.crt'', ''tls.key''] = [''tls.crt'', ''tls.key''] \<or>
    k_files_range E [''tls.crt'', ''tls.key''] = [''tls.key'', ''tls.crt'']"
proof -
  have m: "mset (k_files_range E [''tls.crt'', ''tls.key'']) = mset [''tls.crt'', ''tls.key'']"
    using assms by (simp add: disk_laws_def)
  have "length (k_files_range E [''tls.crt'', ''tls.key'']) = 2"
    using mset_eq_length [OF m] by simp
  then obtain x y where xy: "k_files_range E [''tls.crt'', ''tls.key''] = [x, y]"
    by (auto simp: numeral_2_eq_2 length_Suc_conv)
  with m show ?thesis by (auto simp: add_eq_conv_ex)
qed

lemma go_then_ret: "go_then m (go_ret ()) = m"
  by (rule ext) (auto simp: go_then_def go_bind_def go_ret_def split: prod.splits sum.splits)

lemma Join_neq: "tls_crt dir \<noteq> tls_key dir"
  by (cases "dir = []") (simp_all add: filepath_Join_def)

lemma MkdirAll_run: "\<exists>r t. os_MkdirAll E dir s = (r, t) \<and> cst_files t = cst_files s \<and> cst_calls t = cst_calls s \<and>
    cst_history t = cst_history s @ [cst_files s]"
  by (cases "k_fs E (MkdirAll dir) (cst_world s)") (auto simp: os_MkdirAll_def os_op_def split: option.splits)

lemma writeCertsToDisk_pair:
  assumes laws: "disk_laws E dirs" "dir \<in> set dirs" and run: "writeCertsToDisk E dir cert key s = (r, t)"
  shows "cst_calls t = cst_calls s \<and>
    never_torn (tls_crt dir) (cst_files s (tls_crt dir)) (Some cert) s t \<and>
    never_torn (tls_key dir) (cst_files s (tls_key dir)) (Some key) s t \<and>
    (case r of Inr _ \<Rightarrow> cst_files t (tls_crt dir) = Some cert \<and> cst_files t (tls_key dir) = Some key
      | Inl _ \<Rightarrow> (cst_files t (tls_crt dir) = cst_files s (tls_crt dir) \<or> cst_files t (tls_crt dir) = Some cert) \<and>
          (cst_files t (tls_key dir) = cst_files s (tls_key dir) \<or> cst_files t (tls_key dir) = Some key)) \<and>
    (\<forall>x. x \<noteq> tls_crt dir \<longrightarrow> x \<noteq> tls_key dir \<longrightarrow> (\<forall>d w. k_tempName E d w \<noteq> x) \<longrightarrow> cst_files t x = cst_files s x)"
proof -
  obtain r0 u where mk: "os_MkdirAll E dir s = (r0, u)" "cst_files u = cst_files s" "cst_calls u = cst_calls s"
    "cst_history u = cst_history s @ [cst_files s]" using MkdirAll_run [of E dir s] by blast
  have fresh: "k_tempName E d w \<noteq> tls_crt dir \<and> k_tempName E d w \<noteq> tls_key dir" for d w
    using laws by (auto simp: disk_laws_def)
  have pre: "never_torn p (cst_files s p) v u t \<Longrightarrow> never_torn p (cst_files s p) v s t" for p v
    using mk(4) by (auto simp: never_torn_def)
  let ?A = "\<lambda>name c. go_map_err (Wrapped (''writing '' @ name)) (atomicWriteFile E (filepath_Join dir name) c)"
  show ?thesis
  proof (cases r0)
    case (Inl err)
    then have "r = Inl (Wrapped ''creating cert dir'' err)" "t = u"
      using run mk(1) by (auto simp: writeCertsToDisk_def go_then_def go_bind_def go_map_err_def)
    then show ?thesis using mk by (auto simp: never_torn_def)
  next
    case (Inr x)
    from files_range_cases [OF laws(1)] show ?thesis
    proof
      assume k: "k_files_range E [''tls.crt'', ''tls.key''] = [''tls.crt'', ''tls.key'']"
      have "go_then (?A ''tls.crt'' cert) (?A ''tls.key'' key) u = (r, t)"
        using run mk(1) Inr unfolding writeCertsToDisk_def k
        by (simp add: go_then_ret) (simp add: go_then_def [of "go_map_err (Wrapped ''creating cert dir'') _"] go_bind_def go_map_err_def)
      from two_files [OF Join_neq _ this] show ?thesis using fresh mk pre by (auto split: sum.splits)
    next
      assume k: "k_files_range E [''tls.crt'', ''tls.key''] = [''tls.key'', ''tls.crt'']"
      have "go_then (?A ''tls.key'' key) (?A ''tls.crt'' cert) u = (r, t)"
        using run mk(1) Inr unfolding writeCertsToDisk_def k
        by (simp add: go_then_ret) (simp add: go_then_def [of "go_map_err (Wrapped ''creating cert dir'') _"] go_bind_def go_map_err_def)
      from two_files [OF Join_neq [symmetric] _ this] show ?thesis using fresh mk pre by (auto split: sum.splits)
    qed
  qed
qed

section \<open>Passes of EnsureCerts\<close>

lemma lop_bind_Some:
  "lop_bind m f s = Some (Inr y, u) \<longleftrightarrow> (\<exists>x t. m s = Some (Inr x, t) \<and> f x t = Some (Inr y, u))"
  by (auto simp: lop_bind_def split: option.splits prod.splits sum.splits)

lemma lop_of_Some: "lop_of m s = Some (r, t) \<longleftrightarrow> m s = (r, t)"
  by (simp add: lop_of_def)

lemma await_config_run:
  assumes "await_config E name s = Some y"
  shows "cst_files (snd y) = cst_files s \<and> (\<exists>n. cst_calls (snd y) = cst_calls s @ replicate n (GetWebhookConfig name))"
proof (rule await_config.raw_induct [where P = "\<lambda>E name s y. cst_files (snd y) = cst_files s \<and>
      (\<exists>n. cst_calls (snd y) = cst_calls s @ replicate n (GetWebhookConfig name))", OF _ assms])
  fix f :: "'a cert_env \<Rightarrow> string \<Rightarrow> 'a cst \<Rightarrow> ((go_error + WebhookConfig) \<times> 'a cst) option" and E name s y
  assume IH: "\<And>E name s y. f E name s = Some y \<Longrightarrow> cst_files (snd y) = cst_files s \<and>
      (\<exists>n. cst_calls (snd y) = cst_calls s @ replicate n (GetWebhookConfig name))"
    and body: "(case cert_call (GetWebhookConfig name) (k_getWebhookConfig E name) s of
     (Inl err, t) \<Rightarrow>
       if \<not> IsNotFound err then Some (Inl (Wrapped (''getting webhook config '' @ go_quote name) err), t)
       else (case k_wait E (cst_world t) of
          (None, w) \<Rightarrow> f E name (t\<lparr>cst_world := w\<rparr>)
        | (Some ctxErr, w) \<Rightarrow> Some (Inl (Wrapped (''timed out waiting for webhook config '' @ go_quote name) ctxErr), t\<lparr>cst_world := w\<rparr>))
    | (Inr config, t) \<Rightarrow> Some (Inr config, t)) = Some y"
  obtain r t where rt: "cert_call (GetWebhookConfig name) (k_getWebhookConfig E name) s = (r, t)" by force
  then have t: "cst_files t = cst_files s" "cst_calls t = cst_calls s @ replicate 1 (GetWebhookConfig name)"
    by (auto simp: cert_call_def split: prod.splits)
  have one: "\<exists>n. cst_calls t = cst_calls s @ replicate n (GetWebhookConfig name)" using t(2) by blast
  show "cst_files (snd y) = cst_files s \<and> (\<exists>n. cst_calls (snd y) = cst_calls s @ replicate n (GetWebhookConfig name))"
  proof (cases "\<exists>w. f E name (t\<lparr>cst_world := w\<rparr>) = Some y")
    case True
    then obtain n where "cst_files (snd y) = cst_files t" "cst_calls (snd y) = cst_calls t @ replicate n (GetWebhookConfig name)"
      using IH by fastforce
    then have "cst_calls (snd y) = cst_calls s @ replicate (Suc n) (GetWebhookConfig name)" using t(2) by simp
    with t(1) \<open>cst_files (snd y) = cst_files t\<close> show ?thesis by metis
  next
    case False
    from body [unfolded rt] False one t(1) show ?thesis
      by (auto split: sum.splits if_splits prod.splits option.splits)
  qed
qed

interpretation asking: effect asks
  by unfold_locales (auto simp: asks_def)

interpretation looking: effect looks
  by unfold_locales (auto simp: looks_def)

lemma asks_call: "obeys asks (cert_call c f)"
  by (auto simp: obeys_def asks_def cert_call_def split: prod.splits)

lemma thinks_looks: "obeys thinks m \<Longrightarrow> obeys looks m"
  by (erule obeys_mono) (auto simp: thinks_def looks_def)

lemma thinks_asks: "obeys thinks m \<Longrightarrow> obeys asks m"
  by (erule obeys_mono) (auto simp: thinks_def asks_def)

lemma looks_same: "obeys looks (os_op E op (\<lambda>fs. fs) (\<lambda>fs. fs))"
  by (auto simp: obeys_def looks_def os_op_def split: prod.splits option.splits)

lemma wants_cert_looks: "obeys looks (wants_cert E dir rotated)"
  unfolding wants_cert_def serverCertNeedsRenewal_def os_ReadFile_def
  by (intro looking.obeys_intros looks_same thinks_looks [OF pem_expiring_thinks])

lemma ensureCA_asks: "obeys asks (ensureCA E b)"
  unfolding ensureCA_def rotate_ca_def create_ca_def get_secret_def caIsExpiring_def
  by (intro asking.obeys_intros asks_call thinks_asks [OF pem_expiring_thinks] thinks_asks [OF generateCA_thinks])

lemma ensureCA_reused:
  assumes "ensureCA E b s = (Inr (caCert, caKey, False), t)"
  shows "cst_calls t = cst_calls s @ [GetSecret (Namespace b) (SecretName b)]"
proof -
  obtain r u where g: "get_secret E b s = (r, u)" by force
  then have u: "cst_calls u = cst_calls s @ [GetSecret (Namespace b) (SecretName b)]"
    by (auto simp: get_secret_def cert_call_def split: prod.splits)
  show ?thesis
  proof (cases r)
    case (Inl err)
    have "create_ca E b v \<noteq> (Inr (caCert, caKey, False), t)" for v
      by (auto simp: create_ca_def go_Inr go_try_bind go_ret_def go_raise_def split: sum.splits if_splits prod.splits)
    then show ?thesis using assms g Inl
      by (auto simp: ensureCA_def go_try_bind go_raise_def split: if_splits)
  next
    case (Inr secret)
    have rot: "rotate_ca E secret v \<noteq> (Inr (caCert, caKey, False), t)" for v
      by (auto simp: rotate_ca_def go_Inr go_ret_def go_raise_def split: if_splits prod.splits)
    from assms g Inr obtain expiring v where e: "caIsExpiring E secret u = (Inr expiring, v)"
      by (auto simp: ensureCA_def go_try_bind go_bind_Inr)
    have "cst_calls v = cst_calls u"
      using thinksD [OF pem_expiring_thinks e [unfolded caIsExpiring_def]] by simp
    moreover have "t = v"
      using assms g Inr e rot by (auto simp: ensureCA_def go_try_bind go_bind_Inr go_ret_def go_raise_def split: if_splits)
    ultimately show ?thesis using u by simp
  qed
qed

lemma generateServerCert_verifies:
  assumes "generateServerCert E caCert caKey serviceName namespace extraDNS ips s = (Inr (cert, key), t)"
  shows "verifies caCert (Some cert) (Some key)"
  using generateServerCert_Inr [OF assms] by (auto simp: parse_ca_Inr server_cert_fields)

lemma wants_cert_present:
  assumes "wants_cert E dir False s = (Inr False, t)" and "dir \<noteq> ''''"
  shows "cst_files s (tls_crt dir) \<noteq> None"
proof
  assume none: "cst_files s (tls_crt dir) = None"
  have "\<exists>err u. os_ReadFile E (tls_crt dir) s = (Inl err, u)"
    using none by (auto simp: os_ReadFile_def os_op_def go_then_def go_bind_def go_get_def go_raise_def
        split: prod.splits option.splits sum.splits)
  with assms show False
    by (auto simp: wants_cert_def serverCertNeedsRenewal_def go_try_bind go_ret_def)
qed

lemma Join_dirs:
  assumes "dir \<noteq> ''''" "dir' \<noteq> ''''" "dir \<noteq> dir'"
  shows "tls_crt dir \<noteq> tls_crt dir' \<and> tls_crt dir \<noteq> tls_key dir' \<and> tls_key dir \<noteq> tls_crt dir' \<and> tls_key dir \<noteq> tls_key dir'"
proof -
  have ends: "rev (dir @ ''/tls.crt'') \<noteq> rev (dir' @ ''/tls.key'')" "rev (dir @ ''/tls.key'') \<noteq> rev (dir' @ ''/tls.crt'')" by simp_all
  then show ?thesis using assms unfolding rev_is_rev_conv by (simp add: filepath_Join_def)
qed

lemma metrics_cert_frame:
  assumes laws: "disk_laws E [dir, MetricsCertDir b]" and dirs: "dir \<noteq> ''''" "MetricsCertDir b \<noteq> ''''" "dir \<noteq> MetricsCertDir b"
    and run: "metrics_cert E b caCert caKey s = (r, t)"
  shows "cst_calls t = cst_calls s \<and> cst_files t (tls_crt dir) = cst_files s (tls_crt dir) \<and>
    cst_files t (tls_key dir) = cst_files s (tls_key dir)"
proof -
  let ?gen = "generateServerCert E caCert caKey (MetricsServiceName b) (Namespace b) [localhostDNS] [[127, 0, 0, 1]]"
  obtain r0 u where g: "?gen s = (r0, u)" by force
  have u: "cst_calls u = cst_calls s" "cst_files u = cst_files s"
    using thinksD [OF generateServerCert_thinks g] by simp_all
  show ?thesis
  proof (cases r0)
    case (Inl err)
    with run g u show ?thesis by (auto simp: metrics_cert_def go_bind_def go_map_err_def)
  next
    case (Inr pair)
    obtain cert key where ck: "pair = (cert, key)" by force
    obtain r1 v where w: "writeCertsToDisk E (MetricsCertDir b) cert key u = (r1, v)" by force
    have "t = v" using run g Inr ck w by (auto simp: metrics_cert_def go_bind_def go_map_err_def)
    then show ?thesis
      using writeCertsToDisk_pair [OF laws _ w] Join_dirs [OF dirs] laws u by (auto simp: disk_laws_def)
  qed
qed

lemma webhook_cert_Inr:
  assumes laws: "disk_laws E dirs" "CertDir b \<in> set dirs" and run: "webhook_cert E b caCert caKey s = Some (Inr (), t)"
  shows "verifies caCert (cst_files t (tls_crt (CertDir b))) (cst_files t (tls_key (CertDir b))) \<and>
    (\<exists>n config. cst_calls t = cst_calls s @ replicate n (GetWebhookConfig (WebhookConfigName b)) @
       [PatchWebhookConfig config (set_bundle caCert config)])"
proof -
  from run obtain cert key s1 s2 config s3 where
    g: "generateServerCert E caCert caKey (ServiceName b) (Namespace b) [] [] s = (Inr (cert, key), s1)" and
    w: "writeCertsToDisk E (CertDir b) cert key s1 = (Inr (), s2)" and
    a: "await_config E (WebhookConfigName b) s2 = Some (Inr config, s3)" and
    p: "cert_call (PatchWebhookConfig config (set_bundle caCert config)) (k_patchWebhookConfig E config (set_bundle caCert config)) s3
       = (Inr (), t)"
    by (auto simp: webhook_cert_def patchCABundle_def lop_bind_Some lop_of_Some go_map_err_Inr)
  have "cst_calls s1 = cst_calls s" using thinksD [OF generateServerCert_thinks g] by simp
  moreover have "cst_calls s2 = cst_calls s1" "cst_files s2 (tls_crt (CertDir b)) = Some cert" "cst_files s2 (tls_key (CertDir b)) = Some key"
    using writeCertsToDisk_pair [OF laws w] by simp_all
  moreover obtain n where "cst_files s3 = cst_files s2" "cst_calls s3 = cst_calls s2 @ replicate n (GetWebhookConfig (WebhookConfigName b))"
    using await_config_run [OF a] by auto
  moreover have "cst_files t = cst_files s3" "cst_calls t = cst_calls s3 @ [PatchWebhookConfig config (set_bundle caCert config)]"
    using p by (auto simp: cert_call_def split: prod.splits)
  ultimately show ?thesis using generateServerCert_verifies [OF g] by auto
qed

section \<open>What a successful pass leaves\<close>

lemma EnsureCerts_installs_core:
  assumes laws: "disk_laws E [CertDir b, MetricsCertDir b]" and dirs: "CertDir b \<noteq> ''''" "MetricsCertDir b \<noteq> CertDir b"
    and run: "EnsureCerts E b s = Some (Inr (), t)"
  shows "\<exists>cs. cst_calls t = cst_calls s @ cs \<and>
    ((\<exists>caCert config. PatchWebhookConfig config (set_bundle caCert config) \<in> set cs \<and>
        verifies caCert (cst_files t (tls_crt (CertDir b))) (cst_files t (tls_key (CertDir b)))) \<or>
     (cs = [GetSecret (Namespace b) (SecretName b)] \<and> cst_files s (tls_crt (CertDir b)) \<noteq> None \<and>
        cst_files t (tls_crt (CertDir b)) = cst_files s (tls_crt (CertDir b)) \<and> cst_files t (tls_key (CertDir b)) = cst_files s (tls_key (CertDir b))))"
proof -
  from run obtain caCert caKey rotated s1 wanted s2 s3 wanted' s4 where
    ca: "ensureCA E b s = (Inr (caCert, caKey, rotated), s1)" and
    w: "wants_cert E (CertDir b) rotated s1 = (Inr wanted, s2)" and
    hook: "(if wanted then webhook_cert E b caCert caKey else lop_of (go_ret ())) s2 = Some (Inr (), s3)" and
    w': "wants_cert E (MetricsCertDir b) rotated s3 = (Inr wanted', s4)" and
    met: "go_when wanted' (metrics_cert E b caCert caKey) s4 = (Inr (), t)"
    by (auto simp: EnsureCerts_def lop_bind_Some lop_of_Some go_bind_Inr)
  obtain cs where s1: "cst_files s1 = cst_files s" "cst_calls s1 = cst_calls s @ cs"
    using obeysD [OF ensureCA_asks ca] by (auto simp: asks_def)
  have s2: "cst_files s2 = cst_files s1" "cst_calls s2 = cst_calls s1"
    using obeysD [OF wants_cert_looks w] by (auto simp: looks_def)
  have s4: "cst_files s4 = cst_files s3" "cst_calls s4 = cst_calls s3"
    using obeysD [OF wants_cert_looks w'] by (auto simp: looks_def)
  have t: "cst_calls t = cst_calls s4" "cst_files t (tls_crt (CertDir b)) = cst_files s4 (tls_crt (CertDir b))"
      "cst_files t (tls_key (CertDir b)) = cst_files s4 (tls_key (CertDir b))"
  proof -
    have "wanted' \<Longrightarrow> MetricsCertDir b \<noteq> ''''" using w' by (auto simp: wants_cert_def go_ret_def)
    then have "cst_calls t = cst_calls s4 \<and> cst_files t (tls_crt (CertDir b)) = cst_files s4 (tls_crt (CertDir b)) \<and>
        cst_files t (tls_key (CertDir b)) = cst_files s4 (tls_key (CertDir b))"
      using met metrics_cert_frame [OF laws dirs(1) _ dirs(2) [symmetric]] by (auto simp: go_when_def go_ret_def split: if_splits)
    then show "cst_calls t = cst_calls s4" "cst_files t (tls_crt (CertDir b)) = cst_files s4 (tls_crt (CertDir b))"
      "cst_files t (tls_key (CertDir b)) = cst_files s4 (tls_key (CertDir b))" by simp_all
  qed
  show ?thesis
  proof (cases wanted)
    case True
    with hook have "webhook_cert E b caCert caKey s2 = Some (Inr (), s3)" by simp
    from webhook_cert_Inr [OF laws _ this] obtain n config where
      v: "verifies caCert (cst_files s3 (tls_crt (CertDir b))) (cst_files s3 (tls_key (CertDir b)))" and
      c: "cst_calls s3 = cst_calls s2 @ replicate n (GetWebhookConfig (WebhookConfigName b)) @ [PatchWebhookConfig config (set_bundle caCert config)]"
      by auto
    have "cst_calls t = cst_calls s @ (cs @ replicate n (GetWebhookConfig (WebhookConfigName b)) @ [PatchWebhookConfig config (set_bundle caCert config)])"
      using c s1 s2 s4 t by simp
    moreover have "PatchWebhookConfig config (set_bundle caCert config) \<in> set (cs @ replicate n (GetWebhookConfig (WebhookConfigName b)) @
        [PatchWebhookConfig config (set_bundle caCert config)])" by simp
    ultimately show ?thesis using v unfolding s4(1) [symmetric] t(2,3) [symmetric] by blast
  next
    case False
    then have "\<not> rotated" using w dirs(1) by (auto simp: wants_cert_def go_ret_def split: if_splits)
    then have "cst_calls s1 = cst_calls s @ [GetSecret (Namespace b) (SecretName b)]"
      using ensureCA_reused ca by auto
    moreover have "cst_files s1 (tls_crt (CertDir b)) \<noteq> None"
      using wants_cert_present [OF _ dirs(1)] w False \<open>\<not> rotated\<close> by auto
    ultimately show ?thesis using hook False s1 s2 s4 t by (auto simp: lop_of_def go_ret_def)
  qed
qed

text \<open>
  C13. A pass of \<open>EnsureCerts\<close> that returns without error has either renewed the webhook's
  certificate, and then a client that trusts the bundle the pass put into the webhook
  configuration accepts the pair it left on disk, or it reused the CA (the Secret was only
  read) and left the certificate that was already there alone, with no other request.
\<close>

theorem EnsureCerts_installs:
  assumes laws: "disk_laws E [CertDir b, MetricsCertDir b]" and dirs: "CertDir b \<noteq> ''''" "MetricsCertDir b \<noteq> CertDir b"
    and run: "EnsureCerts E b s = Some (Inr (), t)"
  shows "\<exists>cs. cst_calls t = cst_calls s @ cs \<and>
    ((\<exists>caCert config. PatchWebhookConfig config (set_bundle caCert config) \<in> set cs \<and>
        verifies caCert (cst_files t (tls_crt (CertDir b))) (cst_files t (tls_key (CertDir b)))) \<or>
     (cs = [GetSecret (Namespace b) (SecretName b)] \<and> cst_files s (tls_crt (CertDir b)) \<noteq> None \<and>
        cst_files t (tls_crt (CertDir b)) = cst_files s (tls_crt (CertDir b)) \<and> cst_files t (tls_key (CertDir b)) = cst_files s (tls_key (CertDir b))))"
  by (rule EnsureCerts_installs_core [OF assms])

text \<open>The first pass of the first pod, with the webhook configuration already applied.\<close>

definition demo_bootstrapper :: CertBootstrapper where
  "demo_bootstrapper = \<lparr>Namespace = ''ops'', SecretName = ''ca'', CertDir = ''/tmp/k8s-webhook-server/serving-certs'', ServiceName = ''hook'',
     WebhookConfigName = ''vwc'', MetricsCertDir = '''', MetricsServiceName = ''''\<rparr>"

definition demo_certs :: "mem_certs cst" where
  "demo_certs = mem_start\<lparr>cst_world := (cst_world mem_start)\<lparr>m_configs := [''vwc'' \<mapsto>
     \<lparr>vwc_Name = ''vwc'', Webhooks = [\<lparr>hook_Name = ''h'', CABundle = Plain ''''\<rparr>]\<rparr>]\<rparr>\<rparr>"

lemma mem_disk_laws: "disk_laws mem_cert_env dirs"
proof -
  have "k_tempName mem_cert_env d w \<noteq> tls_crt dir \<and> k_tempName mem_cert_env d w \<noteq> tls_key dir" for d w dir
    using filepath_Join_last [of "''.cert-tmp-1''" d] filepath_Join_last [of "''tls.crt''" dir]
      filepath_Join_last [of "''tls.key''" dir]
    by (auto simp: mem_cert_env_def filepath_Join_def)
  then show ?thesis by (simp add: disk_laws_def mem_cert_env_def)
qed

lemmas os_ops = os_MkdirAll_def os_ReadFile_def os_CreateTemp_def os_Chmod_def os_Write_def os_Close_def os_Rename_def os_Remove_def
lemmas go_ops = go_bind_def go_then_def go_try_def go_map_err_def go_ret_def go_raise_def go_get_def go_when_def

lemma mem_fields:
  "k_getSecret mem_cert_env ns name w = found (m_secrets w (ns, name)) w"
  "k_createSecret mem_cert_env sec w = (if m_secrets w (sec_Namespace sec, sec_Name sec) = None
     then (Inr (), w\<lparr>m_secrets := (m_secrets w)((sec_Namespace sec, sec_Name sec) \<mapsto> sec)\<rparr>)
     else (Inl (ApiError ReasonAlreadyExists), w))"
  "k_patchSecret mem_cert_env old new w = (Inr (), w\<lparr>m_secrets := (m_secrets w)((sec_Namespace new, sec_Name new) \<mapsto> new)\<rparr>)"
  "k_getWebhookConfig mem_cert_env name w = found (m_configs w name) w"
  "k_patchWebhookConfig mem_cert_env cfg cfg' w = (Inr (), w\<lparr>m_configs := (m_configs w)(vwc_Name cfg' \<mapsto> cfg')\<rparr>)"
  "k_files_range mem_cert_env names = names" "k_time_Now mem_cert_env w = (0, w)"
  by (simp_all add: mem_cert_env_def)

lemma mem_os_op: "os_op mem_cert_env op good bad s =
    (Inr (), s\<lparr>cst_files := good (cst_files s), cst_history := cst_history s @ [good (cst_files s)]\<rparr>)"
  by (simp add: os_op_def mem_cert_env_def)

lemma mem_write: "\<exists>t. writeCertsToDisk mem_cert_env dir cert key s = (Inr (), t) \<and> cst_world t = cst_world s"
  by (simp add: writeCertsToDisk_def atomicWriteFile_def write_temp_def go_defer_def os_ops go_ops mem_os_op mem_fields)

lemma mem_generateCA: "generateCA mem_cert_env s = (Inr (PEM pemCertificate (CertificateDER (ca_cert
      ((int (m_next (cst_world s)) + 1) mod 2 ^ 128) 0 0 (m_next (cst_world s)))),
      PEM pemECPrivateKey (ECKeyDER (m_next (cst_world s)))), s\<lparr>cst_world := (cst_world s)\<lparr>m_next := m_next (cst_world s) + 2\<rparr>\<rparr>)"
  by (simp add: generateCA_def go_ops ask_def time_Now_def mem_cert_env_def CreateCertificate_ca Let_def add.commute)

lemma mem_generateServerCert:
  assumes "parse_ca caCert caKey = Inr (ca, k)" and "PublicKey ca = Some k"
  shows "\<exists>serial priv. generateServerCert mem_cert_env caCert caKey serviceName namespace dns ips s =
    (Inr (PEM pemCertificate (CertificateDER (server_cert serial (dns_names serviceName namespace dns) ips 0 0 ca priv k)),
       PEM pemECPrivateKey (ECKeyDER priv)), s\<lparr>cst_world := (cst_world s)\<lparr>m_next := m_next (cst_world s) + 2\<rparr>\<rparr>)"
  using assms
  by (simp add: generateServerCert_def go_ops ask_def time_Now_def mem_cert_env_def CreateCertificate_server not_less) blast

text \<open>A certificate issued at time 0 is fresh for the clock that stands still there.\<close>

lemma mem_stays_fresh:
  assumes "PublicKey c \<noteq> None" "NotAfter c = whole_seconds (0 + certValidity)"
  shows "stays_fresh mem_cert_env (PEM ty (CertificateDER c))"
  using assms
  by (auto simp: stays_fresh_def expires_in_def mem_fields whole_seconds_def second_def certValidity_def renewBefore_def
      hour_def minute_def time_sub_def minInt64_def maxInt64_def)

text \<open>A first pass up to the patch of the bundle.\<close>

lemma demo_until_bundle:
  fixes s :: "mem_certs cst"
  assumes none: "m_secrets (cst_world s) (''ops'', ''ca'') = None"
  shows "\<exists>caCert u secret. m_configs (cst_world u) = m_configs (cst_world s) \<and>
     m_secrets (cst_world u) (''ops'', ''ca'') = Some secret \<and> stays_fresh mem_cert_env (dget (Data secret) caCertField) \<and>
     (\<exists>data. cst_files u (tls_crt ''/tmp/k8s-webhook-server/serving-certs'') = Some data \<and> stays_fresh mem_cert_env data) \<and>
     (\<forall>r t. patchCABundle mem_cert_env demo_bootstrapper caCert u = Some (r, t) \<longrightarrow>
        EnsureCerts mem_cert_env demo_bootstrapper s = Some (r, t))"
proof -
  define ca where "ca = ca_cert ((int (m_next (cst_world s)) + 1) mod 2 ^ 128) 0 0 (m_next (cst_world s))"
  let ?pem = "PEM pemCertificate (CertificateDER ca)" and ?key = "PEM pemECPrivateKey (ECKeyDER (m_next (cst_world s)))"
  let ?secret = "new_secret demo_bootstrapper ?pem ?key"
  obtain s1 where en: "ensureCA mem_cert_env demo_bootstrapper s = (Inr (?pem, ?key, True), s1)"
    and w1: "m_configs (cst_world s1) = m_configs (cst_world s)" "m_secrets (cst_world s1) (''ops'', ''ca'') = Some ?secret"
    using none
    by (simp add: ensureCA_def create_ca_def go_ops get_secret_def cert_call_def mem_generateCA new_secret_def demo_bootstrapper_def
        mem_fields found_def ca_def)
  have pk: "parse_ca ?pem ?key = Inr (ca, m_next (cst_world s))" "PublicKey ca = Some (m_next (cst_world s))"
    by (simp_all add: parse_ca_of_generateCA ca_cert_fields ca_def)
  from mem_generateServerCert [OF pk, of "''hook''" "''ops''" "[]" "[]" s1] obtain c key s2 where
    g: "generateServerCert mem_cert_env ?pem ?key ''hook'' ''ops'' [] [] s1 = (Inr (PEM pemCertificate (CertificateDER c), key), s2)"
      "m_configs (cst_world s2) = m_configs (cst_world s1)" "m_secrets (cst_world s2) = m_secrets (cst_world s1)"
    and c: "PublicKey c \<noteq> None" "NotAfter c = whole_seconds (0 + certValidity)"
    by (auto simp: server_cert_fields)
  obtain s3 where w: "writeCertsToDisk mem_cert_env ''/tmp/k8s-webhook-server/serving-certs'' (PEM pemCertificate (CertificateDER c)) key s2 = (Inr (), s3)"
      "cst_world s3 = cst_world s2"
    using mem_write by blast
  have crt: "cst_files s3 (tls_crt ''/tmp/k8s-webhook-server/serving-certs'') = Some (PEM pemCertificate (CertificateDER c))"
    using writeCertsToDisk_pair [OF mem_disk_laws [of "[''/tmp/k8s-webhook-server/serving-certs'']"] _ w(1)] by simp
  have run: "EnsureCerts mem_cert_env demo_bootstrapper s = Some (r, t)"
    if "patchCABundle mem_cert_env demo_bootstrapper ?pem s3 = Some (r, t)" for r t
    unfolding EnsureCerts_def webhook_cert_def
    using en g(1) w(1) that
    by (cases r) (simp_all add: lop_bind_def lop_of_def wants_cert_def go_ops demo_bootstrapper_def)
  have "stays_fresh mem_cert_env ?pem" "stays_fresh mem_cert_env (PEM pemCertificate (CertificateDER c))"
    by (rule mem_stays_fresh; simp add: ca_def ca_cert_fields c)+
  moreover have "dget (Data ?secret) caCertField = ?pem" by (simp add: new_secret_def dget_def)
  ultimately show ?thesis using run crt w(2) g(2,3) w1 by metis
qed

lemma demo_pass: "\<exists>t. EnsureCerts mem_cert_env demo_bootstrapper demo_certs = Some (Inr (), t)"
proof -
  have "m_secrets (cst_world demo_certs) (''ops'', ''ca'') = None" by (simp add: demo_certs_def mem_start_def)
  from demo_until_bundle [OF this] obtain caCert u where u: "m_configs (cst_world u) = m_configs (cst_world demo_certs)"
    "\<And>r t. patchCABundle mem_cert_env demo_bootstrapper caCert u = Some (r, t) \<Longrightarrow>
      EnsureCerts mem_cert_env demo_bootstrapper demo_certs = Some (r, t)" by blast
  have "m_configs (cst_world u) ''vwc'' \<noteq> None" unfolding u(1) by (simp add: demo_certs_def mem_start_def)
  then have "\<exists>t. patchCABundle mem_cert_env demo_bootstrapper caCert u = Some (Inr (), t)"
    unfolding patchCABundle_def lop_bind_def
    by (subst await_config.simps) (auto simp: cert_call_def mem_fields found_def demo_bootstrapper_def lop_of_def go_ops)
  with u(2) show ?thesis by blast
qed

theorem EnsureCerts_installs_witness:
  "disk_laws mem_cert_env [CertDir demo_bootstrapper, MetricsCertDir demo_bootstrapper] \<and>
   (\<exists>t cs. EnsureCerts mem_cert_env demo_bootstrapper demo_certs = Some (Inr (), t) \<and> cst_calls t = cst_calls demo_certs @ cs \<and>
    ((\<exists>caCert config. PatchWebhookConfig config (set_bundle caCert config) \<in> set cs \<and>
        verifies caCert (cst_files t (tls_crt ''/tmp/k8s-webhook-server/serving-certs'')) (cst_files t (tls_key ''/tmp/k8s-webhook-server/serving-certs''))) \<or>
     (cs = [GetSecret ''ops'' ''ca''] \<and> cst_files demo_certs (tls_crt ''/tmp/k8s-webhook-server/serving-certs'') \<noteq> None \<and> cst_files t (tls_crt ''/tmp/k8s-webhook-server/serving-certs'') = cst_files demo_certs (tls_crt ''/tmp/k8s-webhook-server/serving-certs'') \<and>
        cst_files t (tls_key ''/tmp/k8s-webhook-server/serving-certs'') = cst_files demo_certs (tls_key ''/tmp/k8s-webhook-server/serving-certs''))))"
proof -
  obtain t where t: "EnsureCerts mem_cert_env demo_bootstrapper demo_certs = Some (Inr (), t)" using demo_pass by blast
  have b: "CertDir demo_bootstrapper = ''/tmp/k8s-webhook-server/serving-certs''" "MetricsCertDir demo_bootstrapper = []"
    "Namespace demo_bootstrapper = ''ops''" "SecretName demo_bootstrapper = ''ca''"
    by (simp_all add: demo_bootstrapper_def)
  from EnsureCerts_installs [OF mem_disk_laws _ _ t] show ?thesis
    using t mem_disk_laws unfolding b by blast
qed

end
