(* ===== verification/Cert_Renewal.thy ===== *)
theory Cert_Renewal
  imports Cert_Disk
begin

text \<open>
  The renewal of \<open>certbootstrap.go\<close> over several passes: a pass that finds a fresh CA and fresh
  files only reads, a pass returns as soon as its context has a deadline, and does not return
  without one while the webhook configuration is missing. Then a run in which the published
  bundle stays empty for good.
\<close>

section \<open>Definitions\<close>

text \<open>A rank of the surroundings that every wait without an end of the context brings down.\<close>

definition deadline :: "'w cert_env \<Rightarrow> ('w \<Rightarrow> nat) \<Rightarrow> bool" where
  "deadline E rank \<longleftrightarrow> (\<forall>name w r w1 w2. k_getWebhookConfig E name w = (r, w1) \<longrightarrow> k_wait E w1 = (None, w2) \<longrightarrow> rank w2 < rank w)"

definition never_applied :: "'w cert_env \<Rightarrow> string \<Rightarrow> bool" where
  "never_applied E name \<longleftrightarrow> (\<forall>w. \<exists>w1 w2. k_getWebhookConfig E name w = (Inl (ApiError ReasonNotFound), w1) \<and> k_wait E w1 = (None, w2))"

definition settled_dir :: "'w cert_env \<Rightarrow> 'w cst \<Rightarrow> string \<Rightarrow> bool" where
  "settled_dir E s dir \<longleftrightarrow> dir = '''' \<or> (\<exists>data. cst_files s (tls_crt dir) = Some data \<and> stays_fresh E data)"

definition returns :: "('w, 'a) lop \<Rightarrow> bool" where
  "returns m \<longleftrightarrow> (\<forall>u. m u \<noteq> None)"

section \<open>Settled passes\<close>

lemma settled_wants:
  fixes s :: "'w cst"
  assumes "settled_dir E s dir" and reads: "\<And>path w. fst (k_fs E (ReadFile path) w) = None"
  shows "\<exists>t. wants_cert E dir False s = (Inr False, t) \<and> looks s t"
proof (cases "dir = ''''")
  case True
  then show ?thesis by (auto simp: wants_cert_def go_ret_def looks_def)
next
  case False
  with assms(1) obtain data where data: "cst_files s (tls_crt dir) = Some data" "stays_fresh E data"
    by (auto simp: settled_dir_def)
  obtain w where w: "k_fs E (ReadFile (tls_crt dir)) (cst_world s) = (None, w)"
    using reads [of "tls_crt dir" "cst_world s"] by (cases "k_fs E (ReadFile (tls_crt dir)) (cst_world s)") auto
  let ?u = "s\<lparr>cst_world := w, cst_files := cst_files s, cst_history := cst_history s @ [cst_files s]\<rparr>"
  have rd: "os_ReadFile E (tls_crt dir) s = (Inr data, ?u)"
    using w data(1) by (simp add: os_ReadFile_def os_op_def go_then_def go_bind_def go_get_def go_ret_def)
  obtain w' where p: "pem_expiring E data ?u = (Inr False, ?u\<lparr>cst_world := w'\<rparr>)"
    using pem_expiring_fresh [OF data(2)] by blast
  have "wants_cert E dir False s = (Inr False, ?u\<lparr>cst_world := w'\<rparr>)"
    using False rd p by (simp add: wants_cert_def serverCertNeedsRenewal_def go_try_bind)
  then show ?thesis by (auto simp: looks_def)
qed

lemma settled_looks: "looks s t \<Longrightarrow> settled_dir E s dir \<Longrightarrow> settled_dir E t dir"
  by (simp add: looks_def settled_dir_def)

lemma EnsureCerts_settled_core:
  fixes E :: "'w cert_env" and s :: "'w cst"
  assumes secret: "fst (k_getSecret E (Namespace b) (SecretName b) (cst_world s)) = Inr secret"
    and ca: "stays_fresh E (dget (Data secret) caCertField)"
    and dirs: "settled_dir E s (CertDir b)" "settled_dir E s (MetricsCertDir b)"
    and reads: "\<And>path w. fst (k_fs E (ReadFile path) w) = None"
  shows "\<exists>t. EnsureCerts E b s = Some (Inr (), t) \<and> cst_files t = cst_files s \<and>
    cst_calls t = cst_calls s @ [GetSecret (Namespace b) (SecretName b)]"
proof -
  obtain w where "k_getSecret E (Namespace b) (SecretName b) (cst_world s) = (Inr secret, w)"
    using secret by (cases "k_getSecret E (Namespace b) (SecretName b) (cst_world s)") auto
  then obtain u where g: "get_secret E b s = (Inr secret, u)"
    and u: "cst_files u = cst_files s" "cst_calls u = cst_calls s @ [GetSecret (Namespace b) (SecretName b)]"
    by (simp add: get_secret_def cert_call_def)
  obtain w1 where ex: "caIsExpiring E secret u = (Inr False, u\<lparr>cst_world := w1\<rparr>)"
    using pem_expiring_fresh [OF ca] unfolding caIsExpiring_def by blast
  with g have en: "ensureCA E b s = (Inr (dget (Data secret) caCertField, dget (Data secret) caKeyField, False), u\<lparr>cst_world := w1\<rparr>)"
    by (simp add: ensureCA_def go_try_bind go_bind_run(2) [where m = "caIsExpiring E secret" and s = u, OF ex] go_ret_def)
  have d: "settled_dir E (u\<lparr>cst_world := w1\<rparr>) (CertDir b)" using dirs(1) u(1) by (simp add: settled_dir_def)
  from settled_wants [OF this reads] obtain v where
    v: "wants_cert E (CertDir b) False (u\<lparr>cst_world := w1\<rparr>) = (Inr False, v)" "looks (u\<lparr>cst_world := w1\<rparr>) v" by blast
  have "settled_dir E v (MetricsCertDir b)" using dirs(2) u(1) v(2) by (simp add: settled_dir_def looks_def)
  from settled_wants [OF this reads] obtain t where
    t: "wants_cert E (MetricsCertDir b) False v = (Inr False, t)" "looks v t" by blast
  have "EnsureCerts E b s = Some (Inr (), t)"
    using en v(1) t(1) by (simp add: EnsureCerts_def lop_bind_def lop_of_def go_bind_def go_ret_def go_when_def)
  then show ?thesis using u v(2) t(2) by (auto simp: looks_def)
qed

text \<open>
  C34. A pass that finds an unexpired CA in the Secret and unexpired certificates in its
  directories returns at once: it reads the Secret once, asks the API server nothing else and
  leaves the files as they are. In particular it never looks at the webhook configuration, nor
  at whether the certificate on disk was signed by the CA it just read.
\<close>

theorem EnsureCerts_settled:
  fixes E :: "'w cert_env" and s :: "'w cst"
  assumes secret: "fst (k_getSecret E (Namespace b) (SecretName b) (cst_world s)) = Inr secret"
    and ca: "stays_fresh E (dget (Data secret) caCertField)"
    and dirs: "settled_dir E s (CertDir b)" "settled_dir E s (MetricsCertDir b)"
    and reads: "\<And>path w. fst (k_fs E (ReadFile path) w) = None"
  shows "\<exists>t. EnsureCerts E b s = Some (Inr (), t) \<and> cst_files t = cst_files s \<and>
    cst_calls t = cst_calls s @ [GetSecret (Namespace b) (SecretName b)]"
  by (rule EnsureCerts_settled_core [OF assms])

theorem EnsureCerts_settled_witness:
  "\<exists>s secret. fst (k_getSecret mem_cert_env ''ops'' ''ca'' (cst_world s)) = Inr secret \<and>
     stays_fresh mem_cert_env (dget (Data secret) caCertField) \<and>
     settled_dir mem_cert_env s ''/tmp/k8s-webhook-server/serving-certs'' \<and> settled_dir mem_cert_env s '''' \<and>
     (\<exists>t. EnsureCerts mem_cert_env demo_bootstrapper s = Some (Inr (), t) \<and> cst_files t = cst_files s \<and>
       cst_calls t = cst_calls s @ [GetSecret ''ops'' ''ca''])"
proof -
  have b: "CertDir demo_bootstrapper = ''/tmp/k8s-webhook-server/serving-certs''" "MetricsCertDir demo_bootstrapper = ''''"
    "Namespace demo_bootstrapper = ''ops''" "SecretName demo_bootstrapper = ''ca''"
    by (simp_all add: demo_bootstrapper_def)
  have "m_secrets (cst_world mem_start) (''ops'', ''ca'') = None" by (simp add: mem_start_def)
  from demo_until_bundle [OF this] obtain s :: "mem_certs cst" and secret data where
    s: "m_secrets (cst_world s) (''ops'', ''ca'') = Some secret" "stays_fresh mem_cert_env (dget (Data secret) caCertField)"
      "cst_files s (tls_crt ''/tmp/k8s-webhook-server/serving-certs'') = Some data" "stays_fresh mem_cert_env data" by blast
  have g: "fst (k_getSecret mem_cert_env ''ops'' ''ca'' (cst_world s)) = Inr secret" using s(1) by (simp add: mem_fields found_def)
  have d: "settled_dir mem_cert_env s ''/tmp/k8s-webhook-server/serving-certs''" "settled_dir mem_cert_env s ''''" using s by (auto simp: settled_dir_def)
  have "fst (k_fs mem_cert_env (ReadFile path) w) = None" for path w by (simp add: mem_cert_env_def)
  from EnsureCerts_settled [where b = demo_bootstrapper, unfolded b, OF g s(2) d this] show ?thesis
    using g s(2) d by blast
qed

section \<open>Waiting for the webhook configuration\<close>

lemma await_config_returns:
  fixes s :: "'w cst"
  assumes "deadline E rank"
  shows "\<exists>y. await_config E name s = Some y"
proof (induction "rank (cst_world s)" arbitrary: s rule: less_induct)
  case less
  obtain r w1 where g: "k_getWebhookConfig E name (cst_world s) = (r, w1)" by force
  obtain c w2 where k: "k_wait E w1 = (c, w2)" by force
  let ?t = "s\<lparr>cst_world := w1, cst_calls := cst_calls s @ [GetWebhookConfig name]\<rparr>"
  have "\<exists>y. await_config E name (?t\<lparr>cst_world := w2\<rparr>) = Some y" if "c = None"
    by (rule less) (use assms g k that in \<open>simp add: deadline_def\<close>)
  then show ?case
    using g k by (subst await_config.simps) (auto simp: cert_call_def split: sum.splits option.splits)
qed

lemma await_config_hangs:
  assumes "never_applied E name"
  shows "await_config E name s = None"
proof (rule ccontr)
  assume "await_config E name s \<noteq> None"
  then obtain y where y: "await_config E name s = Some y" by blast
  have "never_applied E name \<longrightarrow> False"
  proof (rule await_config.raw_induct [where P = "\<lambda>E name s y. never_applied E name \<longrightarrow> False", OF _ y])
    fix f :: "'a cert_env \<Rightarrow> string \<Rightarrow> 'a cst \<Rightarrow> ((go_error + WebhookConfig) \<times> 'a cst) option" and E name s y
    assume IH: "\<And>E name s y. f E name s = Some y \<Longrightarrow> never_applied E name \<longrightarrow> False"
      and body: "(case cert_call (GetWebhookConfig name) (k_getWebhookConfig E name) s of
       (Inl err, t) \<Rightarrow>
         if \<not> IsNotFound err then Some (Inl (Wrapped (''getting webhook config '' @ go_quote name) err), t)
         else (case k_wait E (cst_world t) of
            (None, w) \<Rightarrow> f E name (t\<lparr>cst_world := w\<rparr>)
          | (Some ctxErr, w) \<Rightarrow> Some (Inl (Wrapped (''timed out waiting for webhook config '' @ go_quote name) ctxErr), t\<lparr>cst_world := w\<rparr>))
      | (Inr config, t) \<Rightarrow> Some (Inr config, t)) = Some y"
    show "never_applied E name \<longrightarrow> False"
    proof
      assume na: "never_applied E name"
      then obtain w1 w2 where "k_getWebhookConfig E name (cst_world s) = (Inl (ApiError ReasonNotFound), w1)" "k_wait E w1 = (None, w2)"
        unfolding never_applied_def by blast
      with body obtain t where "f E name t = Some y" by (auto simp: cert_call_def)
      with IH na show False by blast
    qed
  qed
  with assms show False by simp
qed

lemma returns_of: "returns (lop_of m)"
  by (simp add: returns_def lop_of_def)

lemma returns_bind: "returns m \<Longrightarrow> (\<And>x. returns (f x)) \<Longrightarrow> returns (lop_bind m f)"
  by (auto simp: returns_def lop_bind_def split: option.splits prod.splits sum.splits)

lemma returns_prod: "(\<And>x y. p = (x, y) \<Longrightarrow> returns (f x y)) \<Longrightarrow> returns (case p of (x, y) \<Rightarrow> f x y)"
  by (cases p) simp

lemma returns_if: "returns m \<Longrightarrow> returns n \<Longrightarrow> returns (if b then m else n)"
  by simp

lemmas returns_intros = returns_of returns_bind returns_prod returns_if

text \<open>
  C27. When the context has a deadline every pass of \<open>EnsureCerts\<close> returns, whatever the API
  server, the disk and the clock do.
\<close>

theorem EnsureCerts_returns:
  fixes E :: "'w cert_env" and s :: "'w cst"
  assumes "deadline E rank"
  shows "\<exists>r t. EnsureCerts E b s = Some (r, t)"
proof -
  have "returns (await_config E name)" for name
    using await_config_returns [OF assms] by (simp add: returns_def)
  then have "returns (webhook_cert E b caCert caKey)" for caCert caKey
    unfolding webhook_cert_def patchCABundle_def by (intro returns_intros)
  then have "returns (EnsureCerts E b)"
    unfolding EnsureCerts_def by (intro returns_intros)
  then show ?thesis by (simp add: returns_def)
qed

theorem EnsureCerts_returns_witness:
  "deadline mem_cert_env (\<lambda>_. 0) \<and> (\<exists>r t. EnsureCerts mem_cert_env demo_bootstrapper mem_start = Some (r, t))"
proof -
  have "deadline mem_cert_env (\<lambda>_. 0)" by (simp add: deadline_def mem_cert_env_def)
  then show ?thesis using EnsureCerts_returns by blast
qed

text \<open>
  Without a deadline the wait need not end: while the configuration does not exist and the
  context stays open, a pass that has to renew the webhook's certificate does not return, so the
  renewal loop never comes to the certificate of the metrics server. (\<open>Start\<close> passes on the
  manager's context, which ends with the process.)
\<close>

theorem EnsureCerts_hangs:
  assumes "never_applied E (WebhookConfigName b)"
    and ca: "ensureCA E b s = (Inr (caCert, caKey, True), s1)" and "CertDir b \<noteq> ''''"
    and gen: "generateServerCert E caCert caKey (ServiceName b) (Namespace b) [] [] s1 = (Inr (cert, key), s2)"
    and put: "writeCertsToDisk E (CertDir b) cert key s2 = (Inr (), s3)"
  shows "EnsureCerts E b s = None"
  using assms(3) ca gen put await_config_hangs [OF assms(1)]
  by (simp add: EnsureCerts_def lop_bind_def lop_of_def wants_cert_def go_ret_def webhook_cert_def go_map_err_def patchCABundle_def)

lemma whole_seconds_bounds: "t - second < whole_seconds t" "whole_seconds t \<le> t"
  using pos_mod_bound [of second t] pos_mod_sign [of second t] by (simp_all add: whole_seconds_def second_def)

text \<open>
  What this leads to. The first pass runs before the webhook configuration is applied and gives
  up at the deadline, with the certificates on disk (\<open>cmd/main.go\<close> logs the error and goes on).
  The configuration then appears with an empty bundle; the next pass is settled and returns
  without error, and the bundle is still empty.
\<close>

definition demo_config :: WebhookConfig where
  "demo_config = \<lparr>vwc_Name = ''vwc'', Webhooks = [\<lparr>hook_Name = ''h'', CABundle = Plain ''''\<rparr>]\<rparr>"

definition apply_config :: "WebhookConfig \<Rightarrow> mem_certs cst \<Rightarrow> mem_certs cst" where
  "apply_config config s = s\<lparr>cst_world := (cst_world s)\<lparr>m_configs := (m_configs (cst_world s))(vwc_Name config \<mapsto> config)\<rparr>\<rparr>"

theorem bundle_stays_empty:
  "\<exists>err t u. EnsureCerts mem_cert_env demo_bootstrapper mem_start = Some (Inl err, t) \<and>
     EnsureCerts mem_cert_env demo_bootstrapper (apply_config demo_config t) = Some (Inr (), u) \<and>
     (\<forall>c\<in>set (drop (length (cst_calls t)) (cst_calls u)). c = GetSecret ''ops'' ''ca'')"
proof -
  have start: "m_secrets (cst_world mem_start) (''ops'', ''ca'') = None" "m_configs (cst_world mem_start) ''vwc'' = None"
    by (simp_all add: mem_start_def)
  from demo_until_bundle [OF start(1)] obtain caCert s secret data where
    s: "m_configs (cst_world s) = m_configs (cst_world mem_start)" "m_secrets (cst_world s) (''ops'', ''ca'') = Some secret"
      "stays_fresh mem_cert_env (dget (Data secret) caCertField)"
      "cst_files s (tls_crt ''/tmp/k8s-webhook-server/serving-certs'') = Some data" "stays_fresh mem_cert_env data"
    and run: "\<And>r t. patchCABundle mem_cert_env demo_bootstrapper caCert s = Some (r, t) \<Longrightarrow>
      EnsureCerts mem_cert_env demo_bootstrapper mem_start = Some (r, t)" by blast
  have "\<exists>err t. await_config mem_cert_env ''vwc'' s = Some (Inl err, t) \<and> cst_world t = cst_world s \<and> cst_files t = cst_files s"
    using s(1) start(2) by (subst await_config.simps) (simp add: cert_call_def mem_cert_env_def found_def)
  then obtain err t where t: "await_config mem_cert_env ''vwc'' s = Some (Inl err, t)" "cst_world t = cst_world s" "cst_files t = cst_files s"
    by blast
  have first: "EnsureCerts mem_cert_env demo_bootstrapper mem_start = Some (Inl err, t)"
    by (rule run) (use t(1) in \<open>simp add: patchCABundle_def lop_bind_def demo_bootstrapper_def\<close>)
  let ?t = "apply_config demo_config t"
  have b: "CertDir demo_bootstrapper = ''/tmp/k8s-webhook-server/serving-certs''" "MetricsCertDir demo_bootstrapper = ''''"
    "Namespace demo_bootstrapper = ''ops''" "SecretName demo_bootstrapper = ''ca''"
    by (simp_all add: demo_bootstrapper_def)
  have "\<exists>u. EnsureCerts mem_cert_env demo_bootstrapper ?t = Some (Inr (), u) \<and> cst_files u = cst_files ?t \<and>
      cst_calls u = cst_calls ?t @ [GetSecret (Namespace demo_bootstrapper) (SecretName demo_bootstrapper)]"
  proof (rule EnsureCerts_settled_core)
    show "fst (k_getSecret mem_cert_env (Namespace demo_bootstrapper) (SecretName demo_bootstrapper) (cst_world ?t)) = Inr secret"
      using s(2) t(2) by (simp add: b mem_fields found_def apply_config_def)
  qed (use s t in \<open>auto simp: b settled_dir_def apply_config_def mem_cert_env_def\<close>)
  then show ?thesis using first by (auto simp: b apply_config_def)
qed

end
