(* ===== verification/Cert_HA.thy ===== *)
theory Cert_HA
  imports Cert_Renewal
begin

text \<open>
  Several replicas calling \<open>ensureCA\<close> on one Secret: each call is a thread that makes one API
  request per step, so every interleaving of the replicas' requests is a path of \<open>ca_step\<close>; a
  replica may also be restarted at any point. Run alone a thread is \<open>ensureCA\<close>. In every
  interleaving the replicas that race to create the Secret end with the same CA; two replicas
  that race to rotate it need not.
\<close>

section \<open>Definitions\<close>

type_synonym ca_result = "go_error + bytes \<times> bytes \<times> bool"

datatype ca_thread = CaGet | CaCreate bytes bytes | CaReread | CaPatch Secret bytes bytes | CaDone ca_result

text \<open>What follows the first read, up to the next request.\<close>

definition ca_generate :: "'w cert_env \<Rightarrow> string \<Rightarrow> (bytes \<Rightarrow> bytes \<Rightarrow> ca_thread) \<Rightarrow> ('w, ca_thread) cop" where
  "ca_generate E what next = go_bind (go_try (go_map_err (Wrapped what) (generateCA E))) (\<lambda>r. go_ret (case r of
     Inl err \<Rightarrow> CaDone (Inl err) | Inr (caCert, caKey) \<Rightarrow> next caCert caKey))"

definition ca_after_get :: "'w cert_env \<Rightarrow> go_error + Secret \<Rightarrow> ('w, ca_thread) cop" where
  "ca_after_get E r = (case r of
     Inr secret \<Rightarrow> go_bind (caIsExpiring E secret) (\<lambda>expiring.
       if \<not> expiring then go_ret (CaDone (Inr (dget (Data secret) caCertField, dget (Data secret) caKeyField, False)))
       else go_bind (caIsExpiring E secret) (\<lambda>expiring.
         if expiring then ca_generate E ''rotating CA'' (\<lambda>caCert caKey.
           if Data secret = None then CaDone (Inl (NewError ''panic: assignment to entry in nil map''))
           else CaPatch secret caCert caKey)
         else go_ret (CaDone (Inl (NewError ''getting CA secret: %!w(<nil>)'')))))
   | Inl getErr \<Rightarrow>
       if IsNotFound getErr then ca_generate E ''generating CA'' CaCreate
       else go_ret (CaDone (Inl (Wrapped ''getting CA secret'' getErr))))"

text \<open>One request, and the computation up to the next.\<close>

fun ca_turn :: "'w cert_env \<Rightarrow> CertBootstrapper \<Rightarrow> ca_thread \<Rightarrow> ('w, ca_thread) cop" where
  "ca_turn E b CaGet = go_bind (go_try (get_secret E b)) (ca_after_get E)"
| "ca_turn E b (CaCreate caCert caKey) =
     go_bind (go_try (cert_call (CreateSecret (new_secret b caCert caKey)) (k_createSecret E (new_secret b caCert caKey)))) (\<lambda>r.
       go_ret (case r of
         Inl err \<Rightarrow> if \<not> IsAlreadyExists err then CaDone (Inl (Wrapped ''creating CA secret'' err)) else CaReread
       | Inr _ \<Rightarrow> CaDone (Inr (caCert, caKey, True))))"
| "ca_turn E b CaReread =
     go_bind (go_try (go_map_err (Wrapped ''reading CA secret after create race'') (get_secret E b))) (\<lambda>r.
       go_ret (CaDone (case r of Inl err \<Rightarrow> Inl err
         | Inr secret \<Rightarrow> Inr (dget (Data secret) caCertField, dget (Data secret) caKeyField, True))))"
| "ca_turn E b (CaPatch secret caCert caKey) =
     go_bind (go_try (go_map_err (Wrapped ''patching CA secret'')
       (cert_call (PatchSecret secret (set_ca secret caCert caKey)) (k_patchSecret E secret (set_ca secret caCert caKey))))) (\<lambda>r.
       go_ret (CaDone (case r of Inl err \<Rightarrow> Inl err | Inr _ \<Rightarrow> Inr (caCert, caKey, True))))"
| "ca_turn E b (CaDone r) = go_ret (CaDone r)"

text \<open>A thread run alone for \<open>n\<close> turns.\<close>

fun ca_alone :: "'w cert_env \<Rightarrow> CertBootstrapper \<Rightarrow> nat \<Rightarrow> ca_thread \<Rightarrow> ('w, ca_thread) cop" where
  "ca_alone E b 0 th = go_ret th"
| "ca_alone E b (Suc n) th = go_bind (ca_turn E b th) (ca_alone E b n)"

inductive ca_step :: "'w cert_env \<Rightarrow> CertBootstrapper \<Rightarrow> ca_thread list \<times> 'w cst \<Rightarrow> ca_thread list \<times> 'w cst \<Rightarrow> bool"
  for E :: "'w cert_env" and b :: CertBootstrapper where
  turn: "i < length ths \<Longrightarrow> ca_turn E b (ths ! i) s = (Inr th, t) \<Longrightarrow> ca_step E b (ths, s) (ths[i := th], t)"
| restart: "i < length ths \<Longrightarrow> ca_step E b (ths, s) (ths[i := CaGet], s)"

abbreviation ca_steps :: "'w cert_env \<Rightarrow> CertBootstrapper \<Rightarrow> ca_thread list \<times> 'w cst \<Rightarrow> ca_thread list \<times> 'w cst \<Rightarrow> bool" where
  "ca_steps E b \<equiv> (ca_step E b)\<^sup>*\<^sup>*"

text \<open>
  What is assumed of the API server: \<open>stored\<close> is the Secret; a read returns it, a create that
  succeeds found none and stored its own, a create that fails changed nothing or was applied
  nevertheless (its answer lost), and reading clock and randomness changes nothing.
\<close>

definition secret_store :: "'w cert_env \<Rightarrow> CertBootstrapper \<Rightarrow> ('w \<Rightarrow> Secret option) \<Rightarrow> bool" where
  "secret_store E b stored \<longleftrightarrow>
     (\<forall>w r w'. k_getSecret E (Namespace b) (SecretName b) w = (r, w') \<longrightarrow>
        stored w' = stored w \<and> (\<forall>x. r = Inr x \<longrightarrow> stored w = Some x)) \<and>
     (\<forall>x w r w'. sec_Namespace x = Namespace b \<longrightarrow> sec_Name x = SecretName b \<longrightarrow> k_createSecret E x w = (r, w') \<longrightarrow>
        (stored w = None \<and> stored w' = Some x) \<or> (r \<noteq> Inr () \<and> stored w' = stored w)) \<and>
     (\<forall>w. stored (snd (k_GenerateKey E w)) = stored w) \<and>
     (\<forall>n w. stored (snd (k_rand_Int E n w)) = stored w) \<and>
     (\<forall>w. stored (snd (k_time_Now E w)) = stored w)"

text \<open>All readings of the clock lie within \<open>len\<close> of each other.\<close>

definition clock_window :: "'w cert_env \<Rightarrow> duration \<Rightarrow> bool" where
  "clock_window E len \<longleftrightarrow> (\<forall>w w'. fst (k_time_Now E w) \<le> fst (k_time_Now E w') + len)"

text \<open>The replicas agree with the Secret, and its CA (if there is one) is fresh.\<close>

definition agreed :: "'w cert_env \<Rightarrow> Secret option \<Rightarrow> ca_thread \<Rightarrow> bool" where
  "agreed E sec th = (case th of
     CaPatch _ _ _ \<Rightarrow> False
   | CaCreate caCert caKey \<Rightarrow> stays_fresh E caCert
   | CaDone (Inr (caCert, caKey, rotated)) \<Rightarrow>
       (\<exists>x. sec = Some x \<and> dget (Data x) caCertField = caCert \<and> dget (Data x) caKeyField = caKey)
   | _ \<Rightarrow> True)"

definition all_agreed :: "'w cert_env \<Rightarrow> ('w \<Rightarrow> Secret option) \<Rightarrow> ca_thread list \<times> 'w cst \<Rightarrow> bool" where
  "all_agreed E stored c \<longleftrightarrow> (\<forall>th\<in>set (fst c). agreed E (stored (cst_world (snd c))) th) \<and>
     (\<forall>x. stored (cst_world (snd c)) = Some x \<longrightarrow> stays_fresh E (dget (Data x) caCertField))"

text \<open>The rest of \<open>ensureCA\<close> from each state of its thread.\<close>

fun ca_rest :: "'w cert_env \<Rightarrow> CertBootstrapper \<Rightarrow> ca_thread \<Rightarrow> ('w, bytes \<times> bytes \<times> bool) cop" where
  "ca_rest E b CaGet = ensureCA E b"
| "ca_rest E b (CaCreate caCert caKey) =
     go_bind (go_try (cert_call (CreateSecret (new_secret b caCert caKey)) (k_createSecret E (new_secret b caCert caKey)))) (\<lambda>r. case r of
         Inl createErr \<Rightarrow>
           if \<not> IsAlreadyExists createErr then go_raise (Wrapped ''creating CA secret'' createErr)
           else go_bind (go_map_err (Wrapped ''reading CA secret after create race'') (get_secret E b)) (\<lambda>secret.
                  go_ret (dget (Data secret) caCertField, dget (Data secret) caKeyField, True))
       | Inr _ \<Rightarrow> go_ret (caCert, caKey, True))"
| "ca_rest E b CaReread = go_bind (go_map_err (Wrapped ''reading CA secret after create race'') (get_secret E b)) (\<lambda>secret.
     go_ret (dget (Data secret) caCertField, dget (Data secret) caKeyField, True))"
| "ca_rest E b (CaPatch secret caCert caKey) = go_then (go_map_err (Wrapped ''patching CA secret'')
       (cert_call (PatchSecret secret (set_ca secret caCert caKey)) (k_patchSecret E secret (set_ca secret caCert caKey))))
     (go_ret (caCert, caKey, True))"
| "ca_rest E b (CaDone r) = (\<lambda>s. (r, s))"

text \<open>One turn leaves the rest unchanged and brings the number of requests still to come down.\<close>

fun ca_left :: "ca_thread \<Rightarrow> nat" where
  "ca_left CaGet = 3" | "ca_left (CaCreate _ _) = 2" | "ca_left CaReread = 1" | "ca_left (CaPatch _ _ _) = 1" | "ca_left (CaDone _) = 0"

text \<open>Reading the clock and the randomness does not touch the store.\<close>

definition same_store :: "('w \<Rightarrow> Secret option) \<Rightarrow> 'w cst \<Rightarrow> 'w cst \<Rightarrow> bool" where
  "same_store stored s t \<longleftrightarrow> stored (cst_world t) = stored (cst_world s)"

section \<open>A thread alone\<close>

lemma ca_turn_Inr: "\<exists>th' t. ca_turn E b th s = (Inr th', t)"
proof -
  have think: "\<exists>x t. pem_expiring E data u = (Inr x, t)" for data u
    by (auto simp: pem_expiring_def go_bind_def go_ret_def time_Now_def split: option.splits sum.splits prod.splits)
  have gen: "\<exists>th' t. ca_generate E what next u = (Inr th', t)" for what "next" u
    by (simp add: ca_generate_def go_try_bind go_ret_def)
  have "\<exists>th' t. ca_after_get E r u = (Inr th', t)" for r u
  proof (cases r)
    case (Inl e)
    then show ?thesis using gen by (simp add: ca_after_get_def go_ret_def)
  next
    case (Inr secret)
    obtain x v where x: "pem_expiring E (dget (Data secret) caCertField) u = (Inr x, v)" using think by blast
    obtain y v' where y: "pem_expiring E (dget (Data secret) caCertField) v = (Inr y, v')" using think by blast
    show ?thesis using Inr x y gen
      by (auto simp: ca_after_get_def caIsExpiring_def go_bind_def go_ret_def)
  qed
  then show ?thesis
    by (cases th) (auto simp: go_try_bind go_ret_def)
qed

lemma ca_alone_done: "ca_alone E b n (CaDone r) s = (Inr (CaDone r), s)"
  by (induction n) (simp_all add: go_ret_def go_bind_def)

lemma ca_alone_turn: "ca_turn E b th s = (Inr th', t) \<Longrightarrow> ca_alone E b (Suc n) th s = ca_alone E b n th' t"
  by (simp add: go_bind_def)

lemma generate_rest:
  assumes "ca_generate E what next u = (Inr th, v)"
  shows "(case generateCA E u of (Inl e, x) \<Rightarrow> th = CaDone (Inl (Wrapped what e)) \<and> x = v
    | (Inr (caCert, caKey), x) \<Rightarrow> th = next caCert caKey \<and> x = v)"
  using assms
  by (auto simp: ca_generate_def go_try_bind go_map_err_def go_ret_def split: prod.splits sum.splits)

lemma after_get_rest:
  assumes "ca_after_get E r u = (Inr th, v)" and "get_secret E b s = (r, u)"
  shows "ca_rest E b th v = ensureCA E b s \<and> ca_left th \<le> 2"
proof (cases r)
  case (Inl e)
  show ?thesis
  proof (cases "IsNotFound e")
    case True
    with assms Inl have g: "ca_generate E ''generating CA'' CaCreate u = (Inr th, v)" by (simp add: ca_after_get_def)
    have "ensureCA E b s = create_ca E b u" using assms(2) Inl True by (simp add: ensureCA_def go_try_bind)
    then show ?thesis using generate_rest [OF g]
      by (auto simp: create_ca_def go_bind_def go_map_err_def split: prod.splits sum.splits)
  next
    case False
    with assms Inl show ?thesis by (auto simp: ca_after_get_def ensureCA_def go_try_bind go_ret_def go_raise_def)
  qed
next
  case (Inr secret)
  have en: "ensureCA E b s = go_bind (caIsExpiring E secret) (\<lambda>expiring.
       if \<not> expiring then go_ret (dget (Data secret) caCertField, dget (Data secret) caKeyField, False)
       else go_bind (caIsExpiring E secret) (\<lambda>expiring.
         if expiring then rotate_ca E secret
         else go_raise (NewError ''getting CA secret: %!w(<nil>)''))) u"
    using assms(2) Inr by (simp add: ensureCA_def go_try_bind)
  from assms(1) Inr obtain x u1 where x: "caIsExpiring E secret u = (Inr x, u1)"
    by (auto simp: ca_after_get_def go_bind_Inr)
  show ?thesis
  proof (cases x)
    case False
    with assms(1) Inr x en show ?thesis by (auto simp: ca_after_get_def go_bind_def go_ret_def)
  next
    case True
    with assms(1) Inr x obtain y u2 where y: "caIsExpiring E secret u1 = (Inr y, u2)"
      by (auto simp: ca_after_get_def go_bind_def split: prod.splits sum.splits)
    show ?thesis
    proof (cases y)
      case False
      with assms(1) Inr x True y en show ?thesis by (auto simp: ca_after_get_def go_bind_def go_ret_def go_raise_def)
    next
      case y': True
      have "ensureCA E b s = rotate_ca E secret u2" using en x y True y' by (simp add: go_bind_def)
      moreover have "ca_generate E ''rotating CA'' (\<lambda>caCert caKey.
           if Data secret = None then CaDone (Inl (NewError ''panic: assignment to entry in nil map''))
           else CaPatch secret caCert caKey) u2 = (Inr th, v)"
        using assms(1) Inr x y True y' by (simp add: ca_after_get_def go_bind_def)
      ultimately show ?thesis using generate_rest
        by (fastforce simp: rotate_ca_def go_bind_def go_map_err_def go_raise_def split: prod.splits sum.splits)
    qed
  qed
qed

lemma ca_turn_rest:
  assumes "ca_turn E b th s = (Inr th', t)"
  shows "ca_rest E b th' t = ca_rest E b th s \<and> (ca_left th' < ca_left th \<or> ca_left th = 0)"
proof (cases th)
  case CaGet
  obtain r u where g: "get_secret E b s = (r, u)" by force
  with assms CaGet have "ca_after_get E r u = (Inr th', t)" by (simp add: go_try_bind)
  from after_get_rest [OF this g] show ?thesis using CaGet by simp
qed (use assms in \<open>auto simp: go_try_def go_ret_def go_raise_def go_bind_def go_then_def go_map_err_def split: sum.splits prod.splits\<close>)

lemma ca_alone_rest:
  "ca_left th \<le> n \<Longrightarrow> ca_alone E b n th s = (case ca_rest E b th s of (r, t) \<Rightarrow> (Inr (CaDone r), t))"
proof (induction n arbitrary: th s)
  case 0
  then obtain r where "th = CaDone r" by (cases th) auto
  then show ?case by (simp add: go_ret_def)
next
  case (Suc n)
  obtain th' t where t: "ca_turn E b th s = (Inr th', t)" using ca_turn_Inr by blast
  have "ca_left th' \<le> n" using ca_turn_rest [OF t] Suc.prems t by (cases th) (auto simp: go_ret_def)
  with Suc.IH t show ?case using ca_turn_rest [OF t] by (simp add: ca_alone_turn del: ca_alone.simps)
qed

text \<open>
  C19. A replica's thread, run alone for its at most three requests, ends with exactly what
  \<open>ensureCA\<close> returns, from the same state in the same state: the steps whose interleavings the
  next theorems are about are those of the code.
\<close>

theorem ca_thread_is_ensureCA:
  "ca_alone E b 3 CaGet s = (case ensureCA E b s of (r, t) \<Rightarrow> (Inr (CaDone r), t))"
  using ca_alone_rest [of CaGet 3 E b s] by simp

section \<open>Racing to create\<close>

text \<open>Within a window of 60 days, less a second for rounding, a new CA stays fresh.\<close>

lemma new_ca_fresh:
  fixes E :: "'w cert_env"
  assumes win: "clock_window E (60 * 24 * hour - second)" and t2: "t2 = fst (k_time_Now E w0)"
  shows "stays_fresh E (PEM ty (CertificateDER (ca_cert serial t1 t2 priv)))"
  unfolding stays_fresh_def
proof
  fix w
  let ?now = "fst (k_time_Now E w)"
  have "?now \<le> t2 + (60 * 24 * hour - second)" using win unfolding t2 clock_window_def by blast
  moreover have "t2 + certValidity - second < whole_seconds (t2 + certValidity)"
    using whole_seconds_bounds(1) [of "t2 + certValidity"] by simp
  ultimately have "renewBefore \<le> whole_seconds (t2 + certValidity) - ?now"
    by (simp add: certValidity_def renewBefore_def hour_def minute_def second_def)
  moreover have "renewBefore \<le> maxInt64" by (simp add: renewBefore_def hour_def minute_def maxInt64_def)
  ultimately have "renewBefore \<le> time_sub (whole_seconds (t2 + certValidity)) ?now"
    by (simp add: time_sub_def)
  then show "\<exists>d. expires_in (PEM ty (CertificateDER (ca_cert serial t1 t2 priv))) ?now = Some d \<and> renewBefore \<le> d"
    by (simp add: expires_in_def ca_cert_fields)
qed

lemma generateCA_fresh:
  assumes win: "clock_window E (60 * 24 * hour - second)" and run: "generateCA E s = (Inr (caCert, caKey), t)"
  shows "stays_fresh E caCert"
proof -
  have "\<exists>ty serial t1 t2 priv w0. caCert = PEM ty (CertificateDER (ca_cert serial t1 t2 priv)) \<and> t2 = fst (k_time_Now E w0)"
    using run unfolding generateCA_def Let_def CreateCertificate_ca
    by (auto simp: go_bind_Inr go_ret_def go_raise_def time_Now_def split: if_splits prod.splits) (metis fst_conv)
  with new_ca_fresh [OF win] show ?thesis by blast
qed

interpretation storing: effect "same_store stored" for stored :: "'w \<Rightarrow> Secret option"
  by unfold_locales (auto simp: same_store_def)

lemma store_asks:
  assumes "secret_store E b stored"
  shows "obeys (same_store stored) (ask (k_GenerateKey E))" "obeys (same_store stored) (ask (k_rand_Int E n))"
    "obeys (same_store stored) (time_Now E)"
  using assms by (auto simp: secret_store_def obeys_def same_store_def ask_def time_Now_def split: prod.splits) (metis snd_conv)+

lemma generateCA_store: "secret_store E b stored \<Longrightarrow> obeys (same_store stored) (generateCA E)"
  unfolding generateCA_def Let_def by (intro storing.obeys_intros store_asks)

lemma pem_expiring_store: "secret_store E b stored \<Longrightarrow> obeys (same_store stored) (pem_expiring E data)"
  unfolding pem_expiring_def by (intro storing.obeys_intros store_asks)

lemma generate_agreed:
  assumes st: "secret_store E b stored" and win: "clock_window E (60 * 24 * hour - second)"
    and g: "ca_generate E what CaCreate u = (Inr th, v)"
  shows "same_store stored u v \<and> agreed E sec th"
proof -
  obtain r x where gr: "generateCA E u = (r, x)" by force
  have "same_store stored u x" using obeysD [OF generateCA_store [OF st] gr] .
  then show ?thesis
    using generate_rest [OF g] gr generateCA_fresh [OF win] by (cases r) (auto simp: agreed_def)
qed

lemma agreed_None: "agreed E None th \<Longrightarrow> agreed E sec th"
  by (auto simp: agreed_def split: ca_thread.splits sum.splits)

lemma get_secret_stored:
  assumes "secret_store E b stored" and "get_secret E b s = (r, u)"
  shows "same_store stored s u" and "r = Inr x \<Longrightarrow> stored (cst_world s) = Some x"
proof -
  obtain w where w: "k_getSecret E (Namespace b) (SecretName b) (cst_world s) = (r, w)" "cst_world u = w"
    using assms(2) by (auto simp: get_secret_def cert_call_def split: prod.splits)
  with assms(1) show "same_store stored s u" "r = Inr x \<Longrightarrow> stored (cst_world s) = Some x"
    unfolding secret_store_def same_store_def by blast+
qed

lemma get_turn_agreed:
  assumes st: "secret_store E b stored" and win: "clock_window E (60 * 24 * hour - second)"
    and fresh: "\<And>x. stored (cst_world s) = Some x \<Longrightarrow> stays_fresh E (dget (Data x) caCertField)"
    and turn: "ca_turn E b CaGet s = (Inr th, t)"
  shows "same_store stored s t \<and> agreed E (stored (cst_world t)) th"
proof -
  obtain r u where g: "get_secret E b s = (r, u)" by force
  have su: "same_store stored s u" by (rule get_secret_stored [OF st g])
  have after: "ca_after_get E r u = (Inr th, t)" using turn g by (simp add: go_try_bind)
  show ?thesis
  proof (cases r)
    case (Inl e)
    show ?thesis
    proof (cases "IsNotFound e")
      case True
      with after Inl have "ca_generate E ''generating CA'' CaCreate u = (Inr th, t)" by (simp add: ca_after_get_def)
      from generate_agreed [OF st win this] su show ?thesis by (auto intro: storing.R_trans)
    next
      case False
      with after Inl su show ?thesis by (auto simp: ca_after_get_def go_ret_def agreed_def)
    qed
  next
    case (Inr secret)
    have sec: "stored (cst_world s) = Some secret" by (rule get_secret_stored(2) [OF st g Inr])
    obtain w where w: "pem_expiring E (dget (Data secret) caCertField) u = (Inr False, u\<lparr>cst_world := w\<rparr>)"
      using pem_expiring_fresh [OF fresh [OF sec]] by blast
    have "same_store stored u (u\<lparr>cst_world := w\<rparr>)" by (rule obeysD [OF pem_expiring_store [OF st] w])
    with su have "same_store stored s (u\<lparr>cst_world := w\<rparr>)" by (rule storing.R_trans)
    moreover have "th = CaDone (Inr (dget (Data secret) caCertField, dget (Data secret) caKeyField, False))" "t = u\<lparr>cst_world := w\<rparr>"
      using after Inr w by (auto simp: ca_after_get_def caIsExpiring_def go_bind_def go_ret_def)
    ultimately show ?thesis using sec by (auto simp: agreed_def same_store_def)
  qed
qed

lemma create_turn_agreed:
  assumes st: "secret_store E b stored" and fresh: "stays_fresh E caCert"
    and turn: "ca_turn E b (CaCreate caCert caKey) s = (Inr th, t)"
  shows "agreed E (stored (cst_world t)) th \<and> (same_store stored s t \<or>
    (stored (cst_world s) = None \<and> stored (cst_world t) = Some (new_secret b caCert caKey)))"
proof -
  obtain r w where c: "k_createSecret E (new_secret b caCert caKey) (cst_world s) = (r, w)" by force
  have "(stored (cst_world s) = None \<and> stored w = Some (new_secret b caCert caKey)) \<or> (r \<noteq> Inr () \<and> stored w = stored (cst_world s))"
    using st c unfolding secret_store_def by (metis new_secret_def Secret.select_convs(1,2))
  moreover have "cst_world t = w" "th = (case r of
         Inl err \<Rightarrow> if \<not> IsAlreadyExists err then CaDone (Inl (Wrapped ''creating CA secret'' err)) else CaReread
       | Inr _ \<Rightarrow> CaDone (Inr (caCert, caKey, True)))"
    using turn c by (auto simp: go_try_bind cert_call_def go_ret_def)
  ultimately show ?thesis
    by (cases r) (auto simp: agreed_def same_store_def new_secret_def dget_def)
qed

lemma ca_turn_agreed:
  assumes st: "secret_store E b stored" and win: "clock_window E (60 * 24 * hour - second)"
    and fresh: "\<And>x. stored (cst_world s) = Some x \<Longrightarrow> stays_fresh E (dget (Data x) caCertField)"
    and agreed: "agreed E (stored (cst_world s)) th" and turn: "ca_turn E b th s = (Inr th', t)"
  shows "agreed E (stored (cst_world t)) th' \<and> (same_store stored s t \<or>
    (stored (cst_world s) = None \<and> (\<exists>x. stored (cst_world t) = Some x \<and> stays_fresh E (dget (Data x) caCertField))))"
proof (cases th)
  case CaGet
  then show ?thesis using get_turn_agreed [OF st win fresh] turn by blast
next
  case (CaCreate caCert caKey)
  with agreed have f: "stays_fresh E caCert" by (simp add: agreed_def)
  have "dget (Data (new_secret b caCert caKey)) caCertField = caCert" by (simp add: new_secret_def dget_def)
  then show ?thesis using create_turn_agreed [OF st f] turn f unfolding CaCreate by metis
next
  case CaReread
  obtain r u where g: "get_secret E b s = (r, u)" by force
  have "t = u" "th' = CaDone (case r of Inl err \<Rightarrow> Inl (Wrapped ''reading CA secret after create race'' err)
         | Inr secret \<Rightarrow> Inr (dget (Data secret) caCertField, dget (Data secret) caKeyField, True))"
    using turn g CaReread by (auto simp: go_try_def go_bind_def go_map_err_def go_ret_def split: sum.splits)
  then show ?thesis using get_secret_stored [OF st g] by (cases r) (auto simp: agreed_def same_store_def)
next
  case (CaPatch secret caCert caKey)
  with agreed show ?thesis by (simp add: agreed_def)
next
  case (CaDone r)
  with turn agreed show ?thesis by (auto simp: go_ret_def same_store_def)
qed

lemma ca_step_agreed:
  assumes st: "secret_store E b stored" and win: "clock_window E (60 * 24 * hour - second)"
    and step: "ca_step E b c c'" and inv: "all_agreed E stored c"
  shows "all_agreed E stored c'"
  using step
proof cases
  case (turn i ths s th t)
  have fresh: "stays_fresh E (dget (Data x) caCertField)" if "stored (cst_world s) = Some x" for x
    using inv that turn(1) by (simp add: all_agreed_def)
  have ag: "agreed E (stored (cst_world s)) a" if "a \<in> set ths" for a
    using inv that turn(1) by (simp add: all_agreed_def)
  have "agreed E (stored (cst_world s)) (ths ! i)" using ag turn(3) by simp
  from ca_turn_agreed [OF st win fresh this turn(4)]
  have th: "agreed E (stored (cst_world t)) th" and
    new: "same_store stored s t \<or> (stored (cst_world s) = None \<and> (\<exists>x. stored (cst_world t) = Some x \<and> stays_fresh E (dget (Data x) caCertField)))"
    by blast+
  have "agreed E (stored (cst_world t)) a" if "a \<in> set ths" for a
    using ag [OF that] new agreed_None by (auto simp: same_store_def)
  then have "\<forall>a\<in>set (ths[i := th]). agreed E (stored (cst_world t)) a"
    using th set_update_subset_insert [of ths i th] by blast
  then show ?thesis using new fresh turn(2) by (auto simp: all_agreed_def same_store_def)
next
  case (restart i ths s)
  have "agreed E sec CaGet" for sec by (simp add: agreed_def)
  then show ?thesis using inv restart set_update_subset_insert [of ths i CaGet] by (auto simp: all_agreed_def)
qed

lemma ca_steps_agreed:
  assumes "secret_store E b stored" and "clock_window E (60 * 24 * hour - second)"
    and "ca_steps E b c c'" and "all_agreed E stored c"
  shows "all_agreed E stored c'"
  using assms(3,4) by (induction rule: rtranclp_induct) (use ca_step_agreed [OF assms(1,2)] in blast)+

text \<open>
  C15. Replicas that start without a CA (or with one that is still fresh) agree: in every
  interleaving of their requests, with replicas restarted at any point and creates applied
  although their answer was lost, any two calls of \<open>ensureCA\<close> that have returned a CA have
  returned the same certificate and key, the ones in the Secret. It is assumed that the run
  takes less than 60 days.
\<close>

theorem replicas_agree:
  fixes E :: "'w cert_env" and s :: "'w cst"
  assumes st: "secret_store E b stored" and win: "clock_window E (60 * 24 * hour - second)"
    and start: "\<And>x. stored (cst_world s) = Some x \<Longrightarrow> stays_fresh E (dget (Data x) caCertField)"
    and steps: "ca_steps E b (replicate n CaGet, s) (ths, t)"
    and returned: "CaDone (Inr (caCert, caKey, rotated)) \<in> set ths"
  shows "\<exists>x. stored (cst_world t) = Some x \<and> caCert = dget (Data x) caCertField \<and> caKey = dget (Data x) caKeyField"
proof -
  have "all_agreed E stored (replicate n CaGet, s)" using start by (auto simp: all_agreed_def agreed_def)
  from ca_steps_agreed [OF st win steps this] returned show ?thesis by (fastforce simp: all_agreed_def agreed_def)
qed

section \<open>Two replicas on the in-memory server\<close>

definition demo_secret :: "mem_certs \<Rightarrow> Secret option" where
  "demo_secret w = m_secrets w (''ops'', ''ca'')"

lemma demo_names: "Namespace demo_bootstrapper = ''ops''" "SecretName demo_bootstrapper = ''ca''"
  by (simp_all add: demo_bootstrapper_def)

lemma mem_secret_store: "secret_store mem_cert_env demo_bootstrapper demo_secret"
  by (auto simp: secret_store_def demo_names mem_fields found_def demo_secret_def mem_cert_env_def split: option.splits if_splits)

lemma mem_window: "clock_window mem_cert_env (60 * 24 * hour - second)"
  by (simp add: clock_window_def mem_fields hour_def minute_def second_def)

abbreviation mem_turn :: "ca_thread \<Rightarrow> mem_certs cst \<Rightarrow> (go_error + ca_thread) \<times> mem_certs cst" where
  "mem_turn \<equiv> ca_turn mem_cert_env demo_bootstrapper"

lemma mem_get_absent:
  assumes "demo_secret (cst_world s) = None"
  shows "\<exists>c k t. mem_turn CaGet s = (Inr (CaCreate c k), t) \<and> demo_secret (cst_world t) = None"
  using assms
  by (simp add: go_try_bind get_secret_def cert_call_def demo_names mem_fields found_def ca_after_get_def ca_generate_def
      go_map_err_def mem_generateCA go_ret_def demo_secret_def)

lemma mem_create_wins:
  assumes "demo_secret (cst_world s) = None"
  shows "\<exists>t. mem_turn (CaCreate c k) s = (Inr (CaDone (Inr (c, k, True))), t) \<and>
    demo_secret (cst_world t) = Some (new_secret demo_bootstrapper c k)"
  using assms
  by (simp add: go_try_bind cert_call_def mem_fields go_ret_def demo_secret_def new_secret_def demo_names)

lemma mem_create_loses:
  assumes "demo_secret (cst_world s) = Some x"
  shows "\<exists>t. mem_turn (CaCreate c k) s = (Inr CaReread, t) \<and> demo_secret (cst_world t) = Some x"
  using assms
  by (simp add: go_try_bind cert_call_def mem_fields go_ret_def demo_secret_def new_secret_def demo_names)

lemma mem_reread:
  assumes "demo_secret (cst_world s) = Some x"
  shows "\<exists>t. mem_turn CaReread s = (Inr (CaDone (Inr (dget (Data x) caCertField, dget (Data x) caKeyField, True))), t) \<and>
    demo_secret (cst_world t) = Some x"
  using assms
  by (simp add: go_try_bind go_map_err_def get_secret_def cert_call_def mem_fields found_def go_ret_def demo_secret_def demo_names)

lemma first_turns: "mem_turn a s = (Inr a', t) \<Longrightarrow> ca_step mem_cert_env demo_bootstrapper ([a, b], s) ([a', b], t)"
  using ca_step.turn [of 0 "[a, b]" mem_cert_env demo_bootstrapper s a' t] by simp

lemma second_turns: "mem_turn b s = (Inr b', t) \<Longrightarrow> ca_step mem_cert_env demo_bootstrapper ([a, b], s) ([a, b'], t)"
  using ca_step.turn [of 1 "[a, b]" mem_cert_env demo_bootstrapper s b' t] by simp

text \<open>Both read, both generate, the first creates, the second loses the race and reads again.\<close>

lemma create_race:
  assumes none: "demo_secret (cst_world s) = None"
  shows "\<exists>c k (x :: Secret) t. ca_steps mem_cert_env demo_bootstrapper (replicate 2 CaGet, s)
     ([CaDone (Inr (c, k, True)), CaDone (Inr (dget (Data x) caCertField, dget (Data x) caKeyField, True))], t)"
proof -
  obtain c k s1 where 1: "mem_turn CaGet s = (Inr (CaCreate c k), s1)" "demo_secret (cst_world s1) = None"
    using mem_get_absent [OF none] by blast
  obtain c' k' s2 where 2: "mem_turn CaGet s1 = (Inr (CaCreate c' k'), s2)" "demo_secret (cst_world s2) = None"
    using mem_get_absent [OF 1(2)] by blast
  obtain s3 where 3: "mem_turn (CaCreate c k) s2 = (Inr (CaDone (Inr (c, k, True))), s3)"
      "demo_secret (cst_world s3) = Some (new_secret demo_bootstrapper c k)"
    using mem_create_wins [OF 2(2)] by blast
  obtain s4 where 4: "mem_turn (CaCreate c' k') s3 = (Inr CaReread, s4)" "demo_secret (cst_world s4) = Some (new_secret demo_bootstrapper c k)"
    using mem_create_loses [OF 3(2)] by blast
  let ?x = "new_secret demo_bootstrapper c k"
  obtain s5 where 5: "mem_turn CaReread s4 = (Inr (CaDone (Inr (dget (Data ?x) caCertField, dget (Data ?x) caKeyField, True))), s5)"
    using mem_reread [OF 4(2)] by blast
  have two: "replicate 2 CaGet = [CaGet, CaGet]" by (simp add: numeral_2_eq_2)
  have "ca_steps mem_cert_env demo_bootstrapper ([CaGet, CaGet], s)
      ([CaDone (Inr (c, k, True)), CaDone (Inr (dget (Data ?x) caCertField, dget (Data ?x) caKeyField, True))], s5)"
    by (rule rtranclp.rtrancl_into_rtrancl, rule rtranclp.rtrancl_into_rtrancl, rule rtranclp.rtrancl_into_rtrancl,
        rule rtranclp.rtrancl_into_rtrancl, rule rtranclp.rtrancl_into_rtrancl, rule rtranclp.rtrancl_refl,
        rule first_turns [OF 1(1)], rule second_turns [OF 2(1)], rule first_turns [OF 3(1)],
        rule second_turns [OF 4(1)], rule second_turns [OF 5])
  then show ?thesis unfolding two by (intro exI)
qed

theorem replicas_agree_witness:
  "secret_store mem_cert_env demo_bootstrapper demo_secret \<and> clock_window mem_cert_env (60 * 24 * hour - second) \<and>
   demo_secret (cst_world mem_start) = None \<and>
   (\<exists>ths t c k x. ca_steps mem_cert_env demo_bootstrapper (replicate 2 CaGet, mem_start) (ths, t) \<and>
      CaDone (Inr (c, k, True)) \<in> set ths \<and> demo_secret (cst_world t) = Some x \<and>
      c = dget (Data x) caCertField \<and> k = dget (Data x) caKeyField)"
proof -
  have none: "demo_secret (cst_world mem_start) = None" by (simp add: demo_secret_def mem_start_def)
  from create_race [OF none] obtain c k and x :: Secret and t where
    run: "ca_steps mem_cert_env demo_bootstrapper (replicate 2 CaGet, mem_start)
      ([CaDone (Inr (c, k, True)), CaDone (Inr (dget (Data x) caCertField, dget (Data x) caKeyField, True))], t)" by blast
  have "\<exists>x. demo_secret (cst_world t) = Some x \<and> c = dget (Data x) caCertField \<and> k = dget (Data x) caKeyField"
    by (rule replicas_agree [where rotated = True, OF mem_secret_store mem_window _ run]) (simp_all add: none)
  with none run mem_secret_store mem_window show ?thesis by fastforce
qed

text \<open>
  Two replicas that find an expired CA both generate one and both patch the Secret, and the
  patch of the second says nothing of what it expects to replace: each returns its own CA, and
  the Secret (and with it every replica that starts later) has the second.
\<close>

lemma mem_get_expired:
  assumes "demo_secret (cst_world s) = Some x" and "Data x = Some []"
  shows "\<exists>c t. mem_turn CaGet s = (Inr (CaPatch x c (PEM pemECPrivateKey (ECKeyDER (m_next (cst_world s))))), t) \<and>
    demo_secret (cst_world t) = Some x \<and> m_next (cst_world t) = m_next (cst_world s) + 2"
proof -
  have "go_bind (caIsExpiring mem_cert_env x) f u = f True u" for f :: "bool \<Rightarrow> (mem_certs, ca_thread) cop" and u
    using assms(2) by (simp add: caIsExpiring_def dget_def pem_expiring_def go_ret_def go_bind_def)
  then show ?thesis
    using assms
    by (simp add: go_try_bind get_secret_def cert_call_def demo_names mem_fields found_def ca_after_get_def ca_generate_def
        go_map_err_def mem_generateCA go_ret_def demo_secret_def)
qed

lemma mem_patch:
  assumes "sec_Namespace x = ''ops''" "sec_Name x = ''ca''"
  shows "\<exists>t. mem_turn (CaPatch x c k) s = (Inr (CaDone (Inr (c, k, True))), t) \<and> demo_secret (cst_world t) = Some (set_ca x c k)"
  using assms
  by (simp add: go_try_bind go_map_err_def cert_call_def mem_fields go_ret_def demo_secret_def set_ca_def)

lemma rotation_from:
  fixes s :: "mem_certs cst"
  assumes x: "demo_secret (cst_world s) = Some \<lparr>sec_Namespace = ''ops'', sec_Name = ''ca'', Data = Some []\<rparr>"
  shows "\<exists>t c k c' k'. ca_steps mem_cert_env demo_bootstrapper ([CaGet, CaGet], s)
      ([CaDone (Inr (c, k, True)), CaDone (Inr (c', k', True))], t) \<and> k \<noteq> k'"
proof -
  let ?x = "\<lparr>sec_Namespace = ''ops'', sec_Name = ''ca'', Data = Some []\<rparr>"
  let ?k = "PEM pemECPrivateKey (ECKeyDER (m_next (cst_world s)))" and ?k' = "PEM pemECPrivateKey (ECKeyDER (m_next (cst_world s) + 2))"
  obtain c s1 where 1: "mem_turn CaGet s = (Inr (CaPatch ?x c ?k), s1)" "demo_secret (cst_world s1) = Some ?x"
      "m_next (cst_world s1) = m_next (cst_world s) + 2"
    using mem_get_expired [OF x] by auto
  obtain c' s2 where 2: "mem_turn CaGet s1 = (Inr (CaPatch ?x c' ?k'), s2)"
    using mem_get_expired [OF 1(2)] 1(3) by auto
  obtain s3 where 3: "mem_turn (CaPatch ?x c ?k) s2 = (Inr (CaDone (Inr (c, ?k, True))), s3)"
    using mem_patch [OF Secret.select_convs(1) Secret.select_convs(2)] by blast
  obtain s4 where 4: "mem_turn (CaPatch ?x c' ?k') s3 = (Inr (CaDone (Inr (c', ?k', True))), s4)"
    using mem_patch [OF Secret.select_convs(1) Secret.select_convs(2)] by blast
  have "ca_steps mem_cert_env demo_bootstrapper ([CaGet, CaGet], s)
      ([CaDone (Inr (c, ?k, True)), CaDone (Inr (c', ?k', True))], s4)"
    by (rule rtranclp.rtrancl_into_rtrancl, rule rtranclp.rtrancl_into_rtrancl, rule rtranclp.rtrancl_into_rtrancl,
        rule rtranclp.rtrancl_into_rtrancl, rule rtranclp.rtrancl_refl,
        rule first_turns [OF 1(1)], rule second_turns [OF 2], rule first_turns [OF 3], rule second_turns [OF 4])
  moreover have "?k \<noteq> ?k'" by (simp del: add_2_eq_Suc')
  ultimately show ?thesis by blast
qed

text \<open>
  C39. Replicas that race to rotate need not agree: from a Secret without a usable CA there is an
  interleaving of two calls of \<open>ensureCA\<close>, both successful, that return different keys.
\<close>

theorem rotation_race:
  "\<exists>(s :: mem_certs cst) t c k c' k'. demo_secret (cst_world s) \<noteq> None \<and> ca_steps mem_cert_env demo_bootstrapper ([CaGet, CaGet], s)
      ([CaDone (Inr (c, k, True)), CaDone (Inr (c', k', True))], t) \<and> k \<noteq> k'"
proof -
  let ?s = "mem_start\<lparr>cst_world := (cst_world mem_start)\<lparr>m_secrets :=
    [(''ops'', ''ca'') \<mapsto> \<lparr>sec_Namespace = ''ops'', sec_Name = ''ca'', Data = Some []\<rparr>]\<rparr>\<rparr>"
  have "demo_secret (cst_world ?s) = Some \<lparr>sec_Namespace = ''ops'', sec_Name = ''ca'', Data = Some []\<rparr>"
    by (simp add: demo_secret_def)
  with rotation_from [OF this] show ?thesis by (metis option.discI)
qed

end
