(* ===== verification/Startup.thy ===== *)
theory Startup
  imports Cert_Renewal
begin

text \<open>
  \<open>cmd/main.go\<close>: the flags, the decision to bootstrap certificates and what follows from it for
  the servers, and the calls that set the manager up, in order. The manager, the flag parser
  and the client's constructor are libraries: each call may fail, and a failure ends the
  process with status 1.
\<close>

section \<open>Definitions\<close>

record Flags =
  metricsAddr :: string
  probeAddr :: string
  metricsCertPath :: string
  metricsCertName :: string
  metricsCertKey :: string
  webhookCertPath :: string
  webhookCertName :: string
  webhookCertKey :: string
  enableLeaderElection :: bool
  secureMetrics :: bool
  enableHTTP2 :: bool
  webhookEnabled :: bool
  operatorNamespace :: string
  webhookServiceName :: string
  webhookConfigName :: string
  tlsCertSecretName :: string
  metricsServiceName :: string

text \<open>The flags' defaults.\<close>

definition default_flags :: Flags where
  "default_flags = \<lparr>metricsAddr = ''0'', probeAddr = '':8081'', metricsCertPath = '''', metricsCertName = ''tls.crt'',
     metricsCertKey = ''tls.key'', webhookCertPath = '''', webhookCertName = ''tls.crt'', webhookCertKey = ''tls.key'',
     enableLeaderElection = False, secureMetrics = True, enableHTTP2 = False, webhookEnabled = False,
     operatorNamespace = ''nmo-system'', webhookServiceName = ''node-maintenance-orchestrator-webhook-service'',
     webhookConfigName = ''node-maintenance-orchestrator-validating-webhook-configuration'',
     tlsCertSecretName = ''node-maintenance-orchestrator-tls-cert'',
     metricsServiceName = ''node-maintenance-orchestrator-ctrl-manager-metrics-service''\<rparr>"

abbreviation "defaultWebhookCertDir \<equiv> ''/tmp/k8s-webhook-server/serving-certs''"
abbreviation "defaultMetricsCertDir \<equiv> ''/tmp/k8s-metrics-server/serving-certs''"

definition needsBootstrap :: "Flags \<Rightarrow> bool" where
  "needsBootstrap f \<longleftrightarrow> (webhookEnabled f \<and> length (webhookCertPath f) = 0) \<or> (secureMetrics f \<and> length (metricsCertPath f) = 0)"

definition bootstrapper_of :: "Flags \<Rightarrow> CertBootstrapper" where
  "bootstrapper_of f =
     (let b = \<lparr>Namespace = operatorNamespace f, SecretName = tlsCertSecretName f, CertDir = '''', ServiceName = '''',
            WebhookConfigName = '''', MetricsCertDir = '''', MetricsServiceName = ''''\<rparr>;
          b = (if webhookEnabled f \<and> length (webhookCertPath f) = 0
               then b\<lparr>CertDir := defaultWebhookCertDir, ServiceName := webhookServiceName f, WebhookConfigName := webhookConfigName f\<rparr>
               else b)
      in if secureMetrics f \<and> length (metricsCertPath f) = 0
         then b\<lparr>MetricsCertDir := defaultMetricsCertDir, MetricsServiceName := metricsServiceName f\<rparr> else b)"

text \<open>
  The bootstrap. An error of the client's constructor ends the process; an error of
  \<open>EnsureCerts\<close> is logged, and the flags stay as they are and no renewer is registered.
\<close>

definition bootstrap :: "'w cert_env \<Rightarrow> ('w, unit) outside \<Rightarrow> Flags \<Rightarrow> ('w, Flags \<times> CertBootstrapper option) lop" where
  "bootstrap E newClient f s =
     (if \<not> needsBootstrap f then Some (Inr (f, None), s)
      else case ask newClient s of
        (Inl err, t) \<Rightarrow> Some (Inl err, t)
      | (Inr _, t) \<Rightarrow>
          (let b = bootstrapper_of f in
           case EnsureCerts E b t of
             None \<Rightarrow> None
           | Some (Inl err, u) \<Rightarrow> Some (Inr (f, None), u)
           | Some (Inr _, u) \<Rightarrow>
               (let f = (if CertDir b \<noteq> '''' then f\<lparr>webhookCertPath := defaultWebhookCertDir\<rparr> else f);
                    f = (if MetricsCertDir b \<noteq> '''' then f\<lparr>metricsCertPath := defaultMetricsCertDir\<rparr> else f)
                in Some (Inr (f, Some b), u))))"

definition webhookReady :: "Flags \<Rightarrow> bool" where
  "webhookReady f \<longleftrightarrow> webhookEnabled f \<and> 0 < length (webhookCertPath f)"

text \<open>A certificate directory with the names of its two files; the manager's options.\<close>

record cert_files =
  cf_Dir :: string
  cf_Cert :: string
  cf_Key :: string

record ManagerOptions =
  TLSNextProtos :: "string list option"
  MetricsBindAddress :: string
  MetricsSecureServing :: bool
  MetricsAuth :: bool
  MetricsCerts :: "cert_files option"
  WebhookServer :: "cert_files option"
  HealthProbeBindAddress :: string
  LeaderElection :: bool
  LeaderElectionID :: string

definition manager_options :: "Flags \<Rightarrow> ManagerOptions" where
  "manager_options f = \<lparr>
     TLSNextProtos = (if \<not> enableHTTP2 f then Some [''http/1.1''] else None),
     MetricsBindAddress = metricsAddr f, MetricsSecureServing = secureMetrics f, MetricsAuth = secureMetrics f,
     MetricsCerts = (if 0 < length (metricsCertPath f)
       then Some \<lparr>cf_Dir = metricsCertPath f, cf_Cert = metricsCertName f, cf_Key = metricsCertKey f\<rparr> else None),
     WebhookServer = (if webhookReady f
       then Some \<lparr>cf_Dir = webhookCertPath f, cf_Cert = webhookCertName f, cf_Key = webhookCertKey f\<rparr> else None),
     HealthProbeBindAddress = probeAddr f, LeaderElection = enableLeaderElection f, LeaderElectionID = ''ab079f3e.nmoo.io''\<rparr>"

datatype mgr_call = NewManager ManagerOptions | AddRunnable CertBootstrapper | SetupWithManager | RegisterWebhook string
  | AddHealthzCheck string | AddReadyzCheck string | StartManager

definition webhook_path :: string where
  "webhook_path = ''/validate-maintenance-nmoo-io-v1alpha1-nodemaintenanceplan''"

definition startup_calls :: "Flags \<Rightarrow> CertBootstrapper option \<Rightarrow> mgr_call list" where
  "startup_calls f renewer =
     [NewManager (manager_options f)] @ (case renewer of None \<Rightarrow> [] | Some b \<Rightarrow> [AddRunnable b]) @ [SetupWithManager] @
     (if webhookReady f then [RegisterWebhook webhook_path] else []) @
     [AddHealthzCheck ''healthz'', AddReadyzCheck ''readyz''] @
     (if webhookReady f then [AddReadyzCheck ''webhook''] else []) @ [StartManager]"

text \<open>The calls that were made, and the exit status: the first error ends the process.\<close>

fun run_calls :: "(mgr_call \<Rightarrow> ('w, unit) outside) \<Rightarrow> mgr_call list \<Rightarrow> 'w \<Rightarrow> mgr_call list \<times> nat" where
  "run_calls mgr [] w = ([], 0)"
| "run_calls mgr (c # cs) w = (case mgr c w of
     (Inl err, w') \<Rightarrow> ([c], 1)
   | (Inr _, w') \<Rightarrow> (case run_calls mgr cs w' of (made, status) \<Rightarrow> (c # made, status)))"

definition main :: "'w cert_env \<Rightarrow> ('w, unit) outside \<Rightarrow> (mgr_call \<Rightarrow> ('w, unit) outside) \<Rightarrow> Flags \<Rightarrow> 'w cst
    \<Rightarrow> (mgr_call list \<times> nat) option" where
  "main E newClient mgr f s = (case bootstrap E newClient f s of
     None \<Rightarrow> None
   | Some (Inl err, t) \<Rightarrow> Some ([], 1)
   | Some (Inr (f', renewer), t) \<Rightarrow> Some (run_calls mgr (startup_calls f' renewer) (cst_world t)))"

section \<open>Lemmas\<close>

lemma bootstrapper_dirs:
  "CertDir (bootstrapper_of f) = (if webhookEnabled f \<and> webhookCertPath f = '''' then defaultWebhookCertDir else '''')"
  "MetricsCertDir (bootstrapper_of f) = (if secureMetrics f \<and> metricsCertPath f = '''' then defaultMetricsCertDir else '''')"
  by (simp_all add: bootstrapper_of_def Let_def)

lemma run_calls_prefix: "\<exists>rest. cs = fst (run_calls mgr cs w) @ rest"
  by (induction cs arbitrary: w) (auto split: prod.splits sum.splits, metis fst_conv)

lemma all_of_it: "xs @ [a] = made @ rest \<Longrightarrow> a \<notin> set xs \<Longrightarrow> a \<in> set made \<Longrightarrow> rest = []"
  by (cases rest rule: rev_cases) auto

lemma bootstrap_cases:
  assumes "bootstrap E newClient f s = Some (Inr (f', renewer), t)"
  shows "(renewer = None \<and> f' = f) \<or>
    (\<exists>u. renewer = Some (bootstrapper_of f) \<and> needsBootstrap f \<and> EnsureCerts E (bootstrapper_of f) u = Some (Inr (), t) \<and>
      cst_files u = cst_files s \<and> cst_calls u = cst_calls s \<and>
      f' = (let f1 = (if CertDir (bootstrapper_of f) \<noteq> '''' then f\<lparr>webhookCertPath := defaultWebhookCertDir\<rparr> else f)
            in if MetricsCertDir (bootstrapper_of f) \<noteq> '''' then f1\<lparr>metricsCertPath := defaultMetricsCertDir\<rparr> else f1))"
proof (cases "needsBootstrap f")
  case False
  with assms show ?thesis by (simp add: bootstrap_def)
next
  case True
  obtain r u where a: "ask newClient s = (r, u)" by force
  have u: "cst_files u = cst_files s" "cst_calls u = cst_calls s" using a by (auto simp: ask_def split: prod.splits)
  show ?thesis
    using assms True a u by (auto simp: bootstrap_def Let_def split: sum.splits option.splits)
qed

section \<open>What is served\<close>

text \<open>
  The webhook is served with certificates or not at all: whatever fails on the way, a
  process that registers the admission handler had the webhook enabled and created its server
  with a certificate directory, the one the user gave or the one a bootstrap that returned
  without error filled; and it never starts the manager without having added the readiness
  check of that server.
\<close>

theorem webhook_served_with_certs:
  assumes run: "main E newClient mgr f s = Some (made, status)" and served: "RegisterWebhook p \<in> set made"
  shows "webhookEnabled f \<and> p = webhook_path \<and>
    (\<exists>opts c. NewManager opts \<in> set made \<and> WebhookServer opts = Some c \<and> cf_Cert c = webhookCertName f \<and> cf_Key c = webhookCertKey f \<and>
       (if webhookCertPath f \<noteq> '''' then cf_Dir c = webhookCertPath f
        else cf_Dir c = defaultWebhookCertDir \<and> CertDir (bootstrapper_of f) = defaultWebhookCertDir \<and> (\<exists>u t. EnsureCerts E (bootstrapper_of f) u = Some (Inr (), t)))) \<and>
    (StartManager \<in> set made \<longrightarrow> AddReadyzCheck ''webhook'' \<in> set made)"
proof -
  obtain f' renewer t where b: "bootstrap E newClient f s = Some (Inr (f', renewer), t)"
    and made: "made = fst (run_calls mgr (startup_calls f' renewer) (cst_world t))"
  proof (cases "bootstrap E newClient f s")
    case None
    with run show ?thesis by (simp add: main_def)
  next
    case (Some x)
    obtain r t where x: "x = (r, t)" by force
    show ?thesis
    proof (cases r)
      case (Inl err)
      with run served Some x show ?thesis by (simp add: main_def)
    next
      case (Inr y)
      obtain f' renewer where y: "y = (f', renewer)" by force
      have "made = fst (run_calls mgr (startup_calls f' renewer) (cst_world t))"
        using run Some x Inr y by (simp add: main_def)
      then show ?thesis using that Some x Inr y by simp
    qed
  qed
  obtain rest where rest: "startup_calls f' renewer = made @ rest" 
    using run_calls_prefix [of "startup_calls f' renewer" mgr "cst_world t"] made by auto
  have "RegisterWebhook p \<in> set (startup_calls f' renewer)" using served rest by simp
  then have ready: "webhookReady f'" and p: "p = webhook_path"
    by (auto simp: startup_calls_def split: option.splits if_splits)
  have flags: "webhookEnabled f' = webhookEnabled f" "webhookCertName f' = webhookCertName f" "webhookCertKey f' = webhookCertKey f"
    and path: "webhookCertPath f' = webhookCertPath f \<or> (webhookCertPath f = '''' \<and> webhookCertPath f' = defaultWebhookCertDir \<and>
      CertDir (bootstrapper_of f) = defaultWebhookCertDir \<and> (\<exists>u t. EnsureCerts E (bootstrapper_of f) u = Some (Inr (), t)))"
    using bootstrap_cases [OF b] by (auto simp: bootstrapper_dirs Let_def split: if_splits)
  have "made \<noteq> []" using served by auto
  with rest have new: "NewManager (manager_options f') \<in> set made"
    by (cases made) (auto simp: startup_calls_def)
  have start: "AddReadyzCheck ''webhook'' \<in> set made" if "StartManager \<in> set made"
  proof -
    have "startup_calls f' renewer = (butlast (startup_calls f' renewer)) @ [StartManager]" "StartManager \<notin> set (butlast (startup_calls f' renewer))"
      by (auto simp: startup_calls_def butlast_append split: option.splits)
    with that rest have "rest = []" using all_of_it by metis
    with rest ready show ?thesis by (auto simp: startup_calls_def)
  qed
  let ?c = "\<lparr>cf_Dir = webhookCertPath f', cf_Cert = webhookCertName f', cf_Key = webhookCertKey f'\<rparr>"
  have "WebhookServer (manager_options f') = Some ?c" using ready by (simp add: manager_options_def)
  moreover have "if webhookCertPath f \<noteq> '''' then cf_Dir ?c = webhookCertPath f
      else cf_Dir ?c = defaultWebhookCertDir \<and> CertDir (bootstrapper_of f) = defaultWebhookCertDir \<and>
        (\<exists>u t. EnsureCerts E (bootstrapper_of f) u = Some (Inr (), t))"
    using path ready by (auto simp: webhookReady_def)
  moreover have "cf_Cert ?c = webhookCertName f" "cf_Key ?c = webhookCertKey f" using flags by simp_all
  ultimately show ?thesis using ready p flags new start unfolding webhookReady_def by blast
qed

theorem webhook_served_with_certs_witness:
  "\<exists>made. main mem_cert_env (\<lambda>w. (Inr (), w)) (\<lambda>c w. (Inr (), w))
       (default_flags\<lparr>webhookEnabled := True, secureMetrics := False, webhookCertPath := ''/certs''\<rparr>) mem_start = Some (made, 0) \<and>
     RegisterWebhook webhook_path \<in> set made \<and> AddReadyzCheck ''webhook'' \<in> set made \<and>
     (\<exists>opts c. NewManager opts \<in> set made \<and> WebhookServer opts = Some c \<and> cf_Dir c = ''/certs'')"
proof -
  let ?f = "default_flags\<lparr>webhookEnabled := True, secureMetrics := False, webhookCertPath := ''/certs''\<rparr>"
  have b: "bootstrap mem_cert_env (\<lambda>w. (Inr (), w)) ?f mem_start = Some (Inr (?f, None), mem_start)"
    by (simp add: bootstrap_def needsBootstrap_def)
  have all: "run_calls (\<lambda>c w. (Inr (), w)) cs w = (cs, 0)" for cs and w :: mem_certs
    by (induction cs) simp_all
  have run: "main mem_cert_env (\<lambda>w. (Inr (), w)) (\<lambda>c w. (Inr (), w)) ?f mem_start = Some (startup_calls ?f None, 0)"
    by (simp add: main_def b all)
  have reg: "RegisterWebhook webhook_path \<in> set (startup_calls ?f None)" "StartManager \<in> set (startup_calls ?f None)"
    by (simp_all add: startup_calls_def webhookReady_def)
  from webhook_served_with_certs [OF run reg(1)] reg run show ?thesis
    by (auto simp: startup_calls_def)
qed

text \<open>
  After a bootstrap that failed for whatever reason (the webhook configuration not applied in
  time, say) the process runs on: without the webhook unless the user gave a directory, without
  managed certificates for the metrics server, and without the renewal loop, which nothing
  starts later.
\<close>

theorem failed_bootstrap_runs_bare:
  assumes "needsBootstrap f" and "ask newClient s = (Inr (), u)" and "EnsureCerts E (bootstrapper_of f) u = Some (Inl err, t)"
  shows "\<exists>made status. main E newClient mgr f s = Some (made, status) \<and> (\<forall>b. AddRunnable b \<notin> set made) \<and>
    (\<forall>p. \<not> (webhookCertPath f = '''' \<and> RegisterWebhook p \<in> set made)) \<and>
    (\<forall>opts. NewManager opts \<in> set made \<longrightarrow> opts = manager_options f)"
proof -
  have "bootstrap E newClient f s = Some (Inr (f, None), t)"
    using assms by (simp add: bootstrap_def Let_def)
  then have m: "main E newClient mgr f s = Some (run_calls mgr (startup_calls f None) (cst_world t))" by (simp add: main_def)
  obtain made status where ms: "run_calls mgr (startup_calls f None) (cst_world t) = (made, status)" by force
  then obtain rest where "startup_calls f None = made @ rest" using run_calls_prefix by (metis fst_conv)
  then have "set made \<subseteq> set (startup_calls f None)" by auto
  then show ?thesis unfolding m ms
    by (auto simp: startup_calls_def webhookReady_def split: if_splits)
qed

end
