(* ===== verification/Shared_Nodes.thy ===== *)
theory Shared_Nodes
  imports Deletion Validator
begin

text \<open>
  Several plans over the same nodes. The mark of a node (its \<open>managed-by\<close> annotation) as the
  API server holds it is observed by a function \<open>mk\<close> of the world. While reads are current
  and only passes write marks, a pass hands a node over only from "nobody" or from its own
  plan, so a sequence of passes never takes a node away from a plan that has not run. When
  passes interleave (the controller runs ten workers) a copy can be stale, and since a patch
  is sent without the resource version, the adoption of an owned node goes through.
\<close>

section \<open>Definitions\<close>

text \<open>The mark a merge patch leaves: an annotation both copies agree on is not in the patch.\<close>

definition patched_mark :: "Node \<Rightarrow> Node \<Rightarrow> string \<Rightarrow> string" where
  "patched_mark o1 m stored = (if owner_of m = owner_of o1 then stored else owner_of m)"

text \<open>
  The marks under an API server that serves current objects while nobody else writes marks:
  only node patches change a mark, and a failed patch may or may not have been applied.
\<close>

definition marks_laws :: "'w env \<Rightarrow> ('w \<Rightarrow> string \<Rightarrow> string) \<Rightarrow> bool" where
  "marks_laws E mk \<longleftrightarrow>
     (\<forall>c g w. reads_nodes c \<longrightarrow> served E c g \<longrightarrow> mk (g w) = mk w) \<and>
     (\<forall>w. mk (snd (k_clockNow E w)) = mk w) \<and> (\<forall>w. mk (snd (k_metaNow E w)) = mk w) \<and>
     (\<forall>nm w n w'. k_getNode E nm w = (Inr n, w') \<longrightarrow> owner_of n = mk w (node_Name n)) \<and>
     (\<forall>sel w ns w'. k_listNodes E sel w = (Inr ns, w') \<longrightarrow> (\<forall>n \<in> set ns. owner_of n = mk w (node_Name n))) \<and>
     (\<forall>o1 m w r w'. k_patchNode E o1 m w = (r, w') \<longrightarrow>
        (let w2 = (mk w)(node_Name o1 := patched_mark o1 m (mk w (node_Name o1))) in
         case r of Inl e \<Rightarrow> mk w' = mk w \<or> mk w' = w2
         | Inr n \<Rightarrow> mk w' = w2 \<and> node_Name n = node_Name o1 \<and> owner_of n = mk w' (node_Name o1)))"

text \<open>Every mark that changed was nobody's or \<open>p\<close>'s, and is now nobody's or \<open>p\<close>'s.\<close>

definition handed :: "string \<Rightarrow> (string \<Rightarrow> string) \<Rightarrow> (string \<Rightarrow> string) \<Rightarrow> bool" where
  "handed p M M' \<longleftrightarrow> (\<forall>a. M' a \<noteq> M a \<longrightarrow> M a \<in> {'''', p} \<and> M' a \<in> {'''', p})"

text \<open>A node is held under its name, with the mark the server has.\<close>

definition knows_marks :: "(string \<Rightarrow> string) \<Rightarrow> (string \<Rightarrow> Node option) \<Rightarrow> bool" where
  "knows_marks M h \<longleftrightarrow> (\<forall>a n. h a = Some n \<longrightarrow> node_Name n = a \<and> owner_of n = M a)"

definition all_safe :: "string \<Rightarrow> 'w st \<Rightarrow> bool" where
  "all_safe p s \<longleftrightarrow> (\<forall>c \<in> set (st_trace s). safe_call p c)"

text \<open>Before the nodes are read; between the parts of a pass; after an error.\<close>

definition at_start :: "('w \<Rightarrow> string \<Rightarrow> string) \<Rightarrow> string \<Rightarrow> (string \<Rightarrow> string) \<Rightarrow> 'w st \<Rightarrow> bool" where
  "at_start mk p M s \<longleftrightarrow> plan_Name (st_plan s) = p \<and> mk (st_world s) = M"

definition in_step :: "('w \<Rightarrow> string \<Rightarrow> string) \<Rightarrow> string \<Rightarrow> (string \<Rightarrow> string) \<Rightarrow> 'w st \<Rightarrow> bool" where
  "in_step mk p M s \<longleftrightarrow> plan_Name (st_plan s) = p \<and>
     (all_safe p s \<longrightarrow> handed p M (mk (st_world s)) \<and> knows_marks (mk (st_world s)) (st_heap s))"

definition out_of_step :: "('w \<Rightarrow> string \<Rightarrow> string) \<Rightarrow> string \<Rightarrow> (string \<Rightarrow> string) \<Rightarrow> 'w st \<Rightarrow> bool" where
  "out_of_step mk p M s \<longleftrightarrow> (all_safe p s \<longrightarrow> handed p M (mk (st_world s)))"

section \<open>Marks and patches\<close>

lemma handed_refl [simp]: "handed p M M"
  by (simp add: handed_def)

lemma handed_trans: "handed p M M' \<Longrightarrow> handed p M' M'' \<Longrightarrow> handed p M M''"
  unfolding handed_def by metis

lemma handed_patch:
  assumes "M a = owner_of n" "unclaimed_by_others p n" "owner_of m \<in> {owner_of n, '''', p}"
  shows "handed p M (M(a := patched_mark n m (owner_of n)))"
  using assms by (auto simp: handed_def patched_mark_def unclaimed_by_others_def)

lemma marks_served: "marks_laws E mk \<Longrightarrow> reads_nodes c \<Longrightarrow> served E c g \<Longrightarrow> mk (g w) = mk w"
  unfolding marks_laws_def by blast

lemma marks_clock: "marks_laws E mk \<Longrightarrow> mk (snd (k_clockNow E w)) = mk w" "marks_laws E mk \<Longrightarrow> mk (snd (k_metaNow E w)) = mk w"
  unfolding marks_laws_def by blast+

lemma marks_get: "marks_laws E mk \<Longrightarrow> k_getNode E nm w = (Inr n, w') \<Longrightarrow> owner_of n = mk w (node_Name n)"
  unfolding marks_laws_def by blast

lemma marks_list: "marks_laws E mk \<Longrightarrow> k_listNodes E sel w = (Inr ns, w') \<Longrightarrow> n \<in> set ns \<Longrightarrow> owner_of n = mk w (node_Name n)"
  unfolding marks_laws_def by blast

lemma marks_patch_Inr:
  assumes "marks_laws E mk" "k_patchNode E o1 m w = (Inr n, w')"
  shows "mk w' = (mk w)(node_Name o1 := patched_mark o1 m (mk w (node_Name o1)))" "node_Name n = node_Name o1"
    "owner_of n = mk w' (node_Name o1)"
proof -
  have "\<forall>o1 m w r w'. k_patchNode E o1 m w = (r, w') \<longrightarrow>
        (let w2 = (mk w)(node_Name o1 := patched_mark o1 m (mk w (node_Name o1))) in
         case r of Inl e \<Rightarrow> mk w' = mk w \<or> mk w' = w2
         | Inr n \<Rightarrow> mk w' = w2 \<and> node_Name n = node_Name o1 \<and> owner_of n = mk w' (node_Name o1))"
    using assms(1) unfolding marks_laws_def by blast
  from this [rule_format, OF assms(2)] show "mk w' = (mk w)(node_Name o1 := patched_mark o1 m (mk w (node_Name o1)))"
    "node_Name n = node_Name o1" "owner_of n = mk w' (node_Name o1)"
    by (simp_all add: Let_def)
qed

lemma marks_patch_Inl:
  assumes "marks_laws E mk" "k_patchNode E o1 m w = (Inl e, w')"
  shows "mk w' = mk w \<or> mk w' = (mk w)(node_Name o1 := patched_mark o1 m (mk w (node_Name o1)))"
proof -
  have "\<forall>o1 m w r w'. k_patchNode E o1 m w = (r, w') \<longrightarrow>
        (let w2 = (mk w)(node_Name o1 := patched_mark o1 m (mk w (node_Name o1))) in
         case r of Inl e \<Rightarrow> mk w' = mk w \<or> mk w' = w2
         | Inr n \<Rightarrow> mk w' = w2 \<and> node_Name n = node_Name o1 \<and> owner_of n = mk w' (node_Name o1))"
    using assms(1) unfolding marks_laws_def by blast
  from this [rule_format, OF assms(2)] show ?thesis by (simp add: Let_def)
qed

text \<open>The contract of a change of a node, as far as the mark goes.\<close>

definition mark_change :: "string \<Rightarrow> (Node \<Rightarrow> Node) \<Rightarrow> bool" where
  "mark_change p f \<longleftrightarrow> (\<forall>n. node_Name (f n) = node_Name n \<and> owner_of (f n) \<in> {owner_of n, '''', p})"

lemma changes_of_mark:
  "mark_change p cordon_change" "mark_change p uncordon_change" "mark_change p release_change"
  "mark_change (plan_Name plan) (adopt_change plan c)"
  by (simp_all add: mark_change_def cordon_owner uncordon_owner release_owner adopt_owner
      cordon.mut_name uncordon.mut_name release.mut_name adopt.mut_name)

section \<open>The invariant of a pass\<close>

lemma in_step_error: "in_step mk p M s \<Longrightarrow> out_of_step mk p M s"
  by (simp add: in_step_def out_of_step_def)

interpretation step: invariant_pair "in_step mk p M" "out_of_step mk p M" for mk p M
  by unfold_locales (rule in_step_error)

text \<open>The parts that do not write to nodes.\<close>

definition keeps_step :: "'w env \<Rightarrow> ('w \<Rightarrow> string \<Rightarrow> string) \<Rightarrow> string \<Rightarrow> (string \<Rightarrow> string) \<Rightarrow> 'w st \<Rightarrow> 'w st \<Rightarrow> bool" where
  "keeps_step E mk p M s t \<longleftrightarrow> (marks_laws E mk \<longrightarrow> plan_identity E \<longrightarrow>
     (in_step mk p M s \<longrightarrow> in_step mk p M t) \<and> (at_start mk p M s \<longrightarrow> at_start mk p M t))"

lemma all_safe_append: "all_safe p (s\<lparr>st_trace := st_trace s @ [c]\<rparr>) \<longleftrightarrow> all_safe p s \<and> safe_call p c"
  by (auto simp: all_safe_def)

lemma in_step_read:
  "mk w = mk (st_world s) \<Longrightarrow> in_step mk p M s \<Longrightarrow> in_step mk p M (s\<lparr>st_world := w, st_trace := st_trace s @ [c]\<rparr>)"
  by (simp add: in_step_def all_safe_def)

interpretation pass_marks: pass_effect "keeps_step E mk p M" E reads_nodes
  for E :: "'w env" and mk :: "'w \<Rightarrow> string \<Rightarrow> string" and p M
proof (unfold_locales, goal_cases)
  case (2 s t u)
  then show ?case by (simp add: keeps_step_def)
next
  case (7 c g s)
  then show ?case by (simp add: keeps_step_def in_step_read marks_served at_start_def)
next
  case (8 o1 s q w)
  then show ?case by (auto simp: keeps_step_def in_step_def all_safe_def at_start_def dest: plan_identity_status)
qed (auto simp: keeps_step_def in_step_def all_safe_def same_plan_def marks_clock at_start_def)

lemma keeps_of_effect:
  assumes "obeys (keeps_step E mk p M) m" "marks_laws E mk" "plan_identity E"
  shows "maintains (in_step mk p M) (out_of_step mk p M) m"
  by (rule step.keeps_of_obeys) (use assms in \<open>auto simp: obeys_def keeps_step_def\<close>)

section \<open>One patch\<close>

lemma in_step_patched:
  assumes L: "marks_laws E mk" and f: "mark_change p f" and s: "in_step mk p M s" and n: "st_heap s a = Some n"
    and patch: "k_patchNode E n (f n) (st_world s) = (Inr n', w)"
  shows "in_step mk p M (s\<lparr>st_world := w, st_trace := st_trace s @ [PatchNode n (f n)], st_heap := (st_heap s)(a := Some n')\<rparr>)"
proof -
  let ?t = "s\<lparr>st_world := w, st_trace := st_trace s @ [PatchNode n (f n)], st_heap := (st_heap s)(a := Some n')\<rparr>"
  have "handed p M (mk w) \<and> knows_marks (mk w) (st_heap ?t)" if safe: "all_safe p ?t"
  proof -
    have u: "unclaimed_by_others p n" and before: "all_safe p s" using safe by (simp_all add: all_safe_def)
    with s have h: "handed p M (mk (st_world s))" and k: "knows_marks (mk (st_world s)) (st_heap s)"
      by (simp_all add: in_step_def)
    from k n have a: "node_Name n = a" "mk (st_world s) a = owner_of n" by (auto simp: knows_marks_def)
    note m = marks_patch_Inr [OF L patch, unfolded a]
    have "handed p (mk (st_world s)) (mk w)"
      unfolding m(1) by (rule handed_patch [where M = "mk (st_world s)" and a = a, OF a(2) u]) (use f in \<open>simp add: mark_change_def\<close>)
    with h have "handed p M (mk w)" by (rule handed_trans)
    moreover have "knows_marks (mk w) (st_heap ?t)"
      using k m by (auto simp: knows_marks_def)
    ultimately show ?thesis by blast
  qed
  then show ?thesis using s by (simp add: in_step_def)
qed

lemma in_step_refused:
  assumes L: "marks_laws E mk" and f: "mark_change p f" and s: "in_step mk p M s" and n: "st_heap s a = Some n"
    and patch: "k_patchNode E n (f n) (st_world s) = (Inl e, w)"
  shows "out_of_step mk p M (s\<lparr>st_heap := h, st_world := w, st_trace := st_trace s @ [PatchNode n (f n)]\<rparr>)"
proof -
  let ?t = "s\<lparr>st_heap := h, st_world := w, st_trace := st_trace s @ [PatchNode n (f n)]\<rparr>"
  have "handed p M (mk w)" if safe: "all_safe p ?t"
  proof -
    have u: "unclaimed_by_others p n" and before: "all_safe p s" using safe by (simp_all add: all_safe_def)
    with s have h: "handed p M (mk (st_world s))" and k: "knows_marks (mk (st_world s)) (st_heap s)"
      by (simp_all add: in_step_def)
    from k n have a: "node_Name n = a" "mk (st_world s) a = owner_of n" by (auto simp: knows_marks_def)
    have "handed p (mk (st_world s)) ((mk (st_world s))(a := patched_mark n (f n) (owner_of n)))"
      by (rule handed_patch [where M = "mk (st_world s)" and a = a, OF a(2) u]) (use f in \<open>simp add: mark_change_def\<close>)
    then have "handed p (mk (st_world s)) (mk w)" using marks_patch_Inl [OF L patch, unfolded a] by auto
    with h show ?thesis by (rule handed_trans)
  qed
  then show ?thesis by (simp add: out_of_step_def)
qed

lemma keeps_patch_node:
  assumes "marks_laws E mk" "mark_change p f"
  shows "maintains (in_step mk p M) (out_of_step mk p M) (patch_node E a f)"
  unfolding maintains_def
  by (rule triple_patch_node) (auto intro: in_step_patched [OF assms] in_step_refused [OF assms] in_step_error)

lemma keeps_prims:
  "maintains (in_step mk p M) (out_of_step mk p M) get_plan"
  "maintains (in_step mk p M) (out_of_step mk p M) (Eventf r ty re ac no ar)"
  "maintains (in_step mk p M) (out_of_step mk p M) (load_node a)"
  by (auto simp: maintains_def in_step_def out_of_step_def all_safe_def
      intro!: triple_get_plan triple_Eventf triple_load_node)

text \<open>What a step may assume of the plan it reads.\<close>

lemma keeps_named_plan:
  assumes "\<And>plan. plan_Name plan = p \<Longrightarrow> maintains (in_step mk p M) (out_of_step mk p M) (f plan)"
  shows "maintains (in_step mk p M) (out_of_step mk p M) (go_bind get_plan f)"
  unfolding maintains_def
proof (rule triple_bind [where R = "\<lambda>plan s. in_step mk p M s \<and> plan_Name plan = p"])
  show "triple (in_step mk p M) get_plan (\<lambda>plan s. in_step mk p M s \<and> plan_Name plan = p) (out_of_step mk p M)"
    by (rule triple_get_plan) (simp add: in_step_def)
  show "triple (\<lambda>s. in_step mk p M s \<and> plan_Name plan = p) (f plan) (\<lambda>_. in_step mk p M) (out_of_step mk p M)" for plan
    by (rule triple_fact) (use assms in \<open>simp add: maintains_def\<close>)
qed

section \<open>The parts of a pass\<close>

text \<open>
  The server of the next lemmas keeps marks and plan names; every part of the pass that holds
  node objects then stays in step with the server's marks.
\<close>

locale marked_server =
  fixes E :: "'w env" and mk :: "'w \<Rightarrow> string \<Rightarrow> string"
  assumes marks: "marks_laws E mk" and identity: "plan_identity E"
begin

lemmas patch = keeps_patch_node [OF marks]

lemma node_writers:
  "maintains (in_step mk p M) (out_of_step mk p M) (CordonNode E a)"
  "maintains (in_step mk p M) (out_of_step mk p M) (UncordonNode E a)"
  "maintains (in_step mk p M) (out_of_step mk p M) (ReleaseNode E a)"
  "maintains (in_step mk p M) (out_of_step mk p M) (AdoptNode E a c)"
proof -
  show "maintains (in_step mk p M) (out_of_step mk p M) (CordonNode E a)"
    "maintains (in_step mk p M) (out_of_step mk p M) (UncordonNode E a)"
    "maintains (in_step mk p M) (out_of_step mk p M) (ReleaseNode E a)"
    unfolding CordonNode_def UncordonNode_def ReleaseNode_def
    by (intro step.keeps_intros keeps_prims patch changes_of_mark)+
  show "maintains (in_step mk p M) (out_of_step mk p M) (AdoptNode E a c)"
    unfolding AdoptNode_def
    by (rule keeps_named_plan, intro step.keeps_intros keeps_prims patch) (use changes_of_mark in blast)
qed

lemma give_back_step: "maintains (in_step mk p M) (out_of_step mk p M) (give_back E u r n a)"
  unfolding give_back_def by (intro step.keeps_intros keeps_prims node_writers)

lemma acting_parts:
  "maintains (in_step mk p M) (out_of_step mk p M) (ReconcileOwnership E res now)"
  "maintains (in_step mk p M) (out_of_step mk p M) (ReconcileCordon E res)"
  "maintains (in_step mk p M) (out_of_step mk p M) (ReconcileDrift E res)"
  unfolding ReconcileOwnership_def conflict_event_def adopt_one_def ReconcileCordon_def cordon_stable_def
    release_one_def ReconcileDrift_def drift_node_def
  by (intro step.keeps_intros keeps_prims node_writers give_back_step)+

lemma still_parts:
  "maintains (in_step mk p M) (out_of_step mk p M) (ComputeSchedule E)"
  "maintains (in_step mk p M) (out_of_step mk p M) (UpdateStatus E res)"
  "maintains (in_step mk p M) (out_of_step mk p M) (ReconcilePreview E res)"
  "maintains (in_step mk p M) (out_of_step mk p M) (ReconcileDrain E res)"
  "maintains (in_step mk p M) (out_of_step mk p M) (record_metrics f)"
proof -
  note eff = keeps_of_effect [OF _ marks identity]
  have "obeys (keeps_step E mk p M) (ComputeSchedule E)"
    unfolding ComputeSchedule_def by (intro pass_marks.obeys_intros pass_marks.obeys_prims)
  then show "maintains (in_step mk p M) (out_of_step mk p M) (ComputeSchedule E)" by (rule eff)
  show "maintains (in_step mk p M) (out_of_step mk p M) (UpdateStatus E res)"
    by (rule eff, rule pass_marks.obeys_UpdateStatus) simp
  show "maintains (in_step mk p M) (out_of_step mk p M) (ReconcilePreview E res)"
    by (rule eff, rule pass_marks.obeys_ReconcilePreview) (metis dry_call.simps reads_nodes.elims(3))
  show "maintains (in_step mk p M) (out_of_step mk p M) (ReconcileDrain E res)"
    by (rule eff, rule pass_marks.obeys_ReconcileDrain) (auto elim: pod_call.elims)
  show "maintains (in_step mk p M) (out_of_step mk p M) (record_metrics f)"
    by (rule eff) (simp add: obeys_def record_metrics_def go_run pass_marks.aside)
qed

text \<open>Reading the nodes: what is held afterwards is what the server has.\<close>

definition marked :: "(string \<Rightarrow> string) \<Rightarrow> Node list \<Rightarrow> bool" where
  "marked M ns \<longleftrightarrow> (\<forall>n \<in> set ns. owner_of n = M (node_Name n))"

lemma start_effect: "obeys (keeps_step E mk p M) m \<Longrightarrow> triple (at_start mk p M) m (\<lambda>_. at_start mk p M) (at_start mk p M)"
  using marks identity by (force simp: obeys_def keeps_step_def triple_def split: prod.split sum.split)

lemma read_call:
  assumes "reads_nodes c" "served E c (\<lambda>w. snd (f w))"
    and "\<And>s x w. at_start mk p M s \<Longrightarrow> f (st_world s) = (Inr x, w) \<Longrightarrow> Good x"
  shows "triple (at_start mk p M) (client_call c f) (\<lambda>x s. at_start mk p M s \<and> Good x) (at_start mk p M)"
proof (rule triple_client_call)
  fix s x w assume s: "at_start mk p M s" and x: "f (st_world s) = (Inr x, w)"
  have "mk w = mk (st_world s)" using marks_served [OF marks assms(1,2), of "st_world s"] x by simp
  with s show "at_start mk p M (s\<lparr>st_world := w, st_trace := st_trace s @ [c]\<rparr>) \<and> Good x"
    using assms(3) [OF s x] by (simp add: at_start_def)
next
  fix s e w assume s: "at_start mk p M s" and x: "f (st_world s) = (Inl e, w)"
  have "mk w = mk (st_world s)" using marks_served [OF marks assms(1,2), of "st_world s"] x by simp
  with s show "at_start mk p M (s\<lparr>st_world := w, st_trace := st_trace s @ [c]\<rparr>)" by (simp add: at_start_def)
qed

text \<open>The three ways to look up the wanted nodes, and the owned ones.\<close>

lemma read_node: "triple (at_start mk p M) (get_node E nm) (\<lambda>n s. at_start mk p M s \<and> owner_of n = M (node_Name n)) (at_start mk p M)"
  unfolding get_node_def by (rule read_call) (auto simp: at_start_def dest: marks_get [OF marks])

lemma read_list: "triple (at_start mk p M) (client_call ListNodes (k_listNodes E sel)) (\<lambda>ns s. at_start mk p M s \<and> marked M ns) (at_start mk p M)"
  by (rule read_call) (auto simp: at_start_def marked_def dest: marks_list [OF marks])

lemma read_try:
  "triple (at_start mk p M) (go_try (get_node E nm))
     (\<lambda>r s. at_start mk p M s \<and> (\<forall>n. r = Inr n \<longrightarrow> owner_of n = M (node_Name n))) (at_start mk p M)"
  by (rule triple_try, rule triple_weaken [OF read_node]) auto

lemma read_nodes_loop:
  fixes r0 :: NodeResolutionResult
  assumes keep: "\<And>name result. rr_Nodes (keep name result) = rr_Nodes result"
  shows "triple (\<lambda>s. at_start mk p M s \<and> marked M (rr_Nodes r0))
    (go_fold names r0 (\<lambda>name result. go_bind (go_try (get_node E name)) (\<lambda>r. case r of
       Inl err \<Rightarrow> if IsNotFound err then go_ret (keep name result) else go_raise (g name err)
     | Inr node \<Rightarrow> go_ret (result\<lparr>rr_Nodes := rr_Nodes result @ [node]\<rparr>))))
    (\<lambda>r s. at_start mk p M s \<and> marked M (rr_Nodes r)) (at_start mk p M)"
proof (rule triple_fold)
  fix x :: string and acc :: NodeResolutionResult
  have one: "triple (\<lambda>s. at_start mk p M s \<and> marked M (rr_Nodes acc)) (go_try (get_node E x))
      (\<lambda>r s. (at_start mk p M s \<and> (\<forall>n. r = Inr n \<longrightarrow> owner_of n = M (node_Name n))) \<and> marked M (rr_Nodes acc)) (at_start mk p M)"
    by (rule triple_fact, rule triple_weaken [OF read_try]) auto
  show "triple (\<lambda>s. at_start mk p M s \<and> marked M (rr_Nodes acc))
      (go_bind (go_try (get_node E x)) (\<lambda>r. case r of
         Inl err \<Rightarrow> if IsNotFound err then go_ret (keep x acc) else go_raise (g x err)
       | Inr node \<Rightarrow> go_ret (acc\<lparr>rr_Nodes := rr_Nodes acc @ [node]\<rparr>)))
      (\<lambda>r s. at_start mk p M s \<and> marked M (rr_Nodes r)) (at_start mk p M)"
    by (rule triple_bind [OF one]) (auto simp: marked_def keep intro!: triple_ret triple_raise split: sum.split)
qed

lemma read_explicit:
  "triple (at_start mk p M) (resolveExplicitNodes E plan) (\<lambda>r s. at_start mk p M s \<and> marked M (rr_Nodes r)) (at_start mk p M)"
  unfolding resolveExplicitNodes_def
  by (rule triple_weaken [OF read_nodes_loop [where g = "\<lambda>_ e. e"]]) (auto simp: marked_def)

lemma read_snapshot:
  "triple (at_start mk p M) (resolveSnapshotNodes E names) (\<lambda>r s. at_start mk p M s \<and> marked M (rr_Nodes r)) (at_start mk p M)"
  unfolding resolveSnapshotNodes_def
  by (rule triple_weaken [OF read_nodes_loop [where keep = "\<lambda>_ r. r" and g = "\<lambda>name err. Wrapped (''getting node '' @ go_quote name) err"]])
    (auto simp: marked_def)

lemma read_selector:
  "triple (at_start mk p M) (resolveSelectorNodes E sel) (\<lambda>r s. at_start mk p M s \<and> marked M (rr_Nodes r)) (at_start mk p M)"
  unfolding resolveSelectorNodes_def
  by (auto intro!: triple_raise triple_bind [OF triple_map_err [OF read_list]] triple_ret split: sum.split)

lemma read_desired:
  "triple (at_start mk p M) (desired_nodes E plan)
     (\<lambda>r s. at_start mk p M s \<and> (\<forall>x. fst r = Some x \<longrightarrow> marked M (rr_Nodes x))) (at_start mk p M)"
  unfolding desired_nodes_def ResolveNodes_def
  by (auto intro!: triple_if triple_bind [OF triple_map_err [OF read_snapshot]] triple_bind [OF triple_map_err [OF read_selector]]
      triple_bind [OF read_explicit] triple_bind [OF read_selector] triple_map_err triple_ret
      triple_bind [where R = "\<lambda>r s. at_start mk p M s \<and> (\<forall>x. r = Some x \<longrightarrow> marked M (rr_Nodes x))"] split: option.split)

lemma marked_by_name: "marked M ns \<Longrightarrow> knows_marks M (map_of (by_name ns))"
  using by_name_keyed by (fastforce simp: knows_marks_def marked_def)

lemma knows_marks_empty [simp]: "knows_marks M (\<lambda>_. None)"
  by (simp add: knows_marks_def)

lemma knows_marks_append:
  "knows_marks M (map_of d) \<Longrightarrow> knows_marks M (map_of m) \<Longrightarrow> knows_marks M (map_of (d @ m))"
  by (auto simp: knows_marks_def map_add_def split: option.splits)

lemma read_owned:
  "triple (at_start mk p M) (go_map_err f (ResolveOwnedNodes E q))
     (\<lambda>managed s. at_start mk p M s \<and> knows_marks M (map_of managed)) (at_start mk p M)"
  unfolding ResolveOwnedNodes_def
  by (rule triple_map_err, rule triple_bind [OF triple_map_err [OF read_list]], rule triple_ret)
    (auto intro!: marked_by_name simp: marked_def)

lemma point_step:
  assumes "knows_marks M (map_of desired)"
  shows "triple (\<lambda>s. at_start mk p M s \<and> knows_marks M (map_of managed)) (go_then (point_to desired managed) (go_ret x))
    (\<lambda>_. in_step mk p M) (out_of_step mk p M)"
  unfolding point_to_def
  by (rule triple_then [where R = "in_step mk p M", OF triple_modify triple_ret])
    (use knows_marks_append [OF assms] in \<open>auto simp: at_start_def in_step_def\<close>)

lemma resolve_step:
  "triple (at_start mk p M) (ComputeOwnershipResolution E) (\<lambda>_. in_step mk p M) (out_of_step mk p M)"
proof -
  have start: "at_start mk p M s \<Longrightarrow> out_of_step mk p M s" for s by (simp add: at_start_def out_of_step_def)
  have plan: "triple (at_start mk p M) get_plan (\<lambda>_. at_start mk p M) (out_of_step mk p M)"
    by (rule triple_get_plan)
  have desired: "triple (at_start mk p M) (desired_nodes E plan)
      (\<lambda>r s. at_start mk p M s \<and> (\<forall>x. fst r = Some x \<longrightarrow> marked M (rr_Nodes x))) (out_of_step mk p M)" for plan
    by (rule triple_weaken [OF read_desired]) (auto intro: start)
  have owned: "triple (at_start mk p M) (go_map_err f (ResolveOwnedNodes E q))
      (\<lambda>managed s. at_start mk p M s \<and> knows_marks M (map_of managed)) (out_of_step mk p M)" for f q
    by (rule triple_weaken [OF read_owned]) (auto intro: start)
  have rest: "triple (at_start mk p M)
      (let desired = (case r of None \<Rightarrow> [] | Some r \<Rightarrow> by_name (rr_Nodes r))
       in go_bind (go_map_err (Wrapped ''resolving owned nodes'') (ResolveOwnedNodes E q))
            (\<lambda>managed. go_then (point_to desired managed)
               (go_ret ((ComputeOwnership E desired managed q)\<lparr>SnapshotNodes := sn\<rparr>)))) (\<lambda>_. in_step mk p M) (out_of_step mk p M)"
    if "\<forall>x. r = Some x \<longrightarrow> marked M (rr_Nodes x)" for r q sn
    unfolding Let_def
    by (rule triple_bind [OF owned], rule point_step) (use that in \<open>auto intro: marked_by_name split: option.split\<close>)
  show ?thesis unfolding ComputeOwnershipResolution_def
    by (rule triple_bind [OF plan], rule triple_bind [OF desired], rule triple_fact, simp only: split_beta, rule rest) simp
qed

lemma clean_step: "triple (at_start mk p M) (CleanUp E) (\<lambda>_. in_step mk p M) (out_of_step mk p M)"
proof -
  have start: "at_start mk p M s \<Longrightarrow> out_of_step mk p M s" for s by (simp add: at_start_def out_of_step_def)
  have plan: "triple (at_start mk p M) get_plan (\<lambda>_. at_start mk p M) (out_of_step mk p M)"
    by (rule triple_get_plan)
  have owned: "triple (at_start mk p M) (go_map_err f (ResolveOwnedNodes E q))
      (\<lambda>managed s. at_start mk p M s \<and> knows_marks M (map_of managed)) (out_of_step mk p M)" for f q
    by (rule triple_weaken [OF read_owned]) (auto intro: start)
  have point: "triple (\<lambda>s. at_start mk p M s \<and> knows_marks M (map_of m)) (point_to [] m) (\<lambda>_. in_step mk p M) (out_of_step mk p M)" for m
    unfolding point_to_def by (rule triple_modify) (auto simp: at_start_def in_step_def)
  have each: "triple (in_step mk p M) (go_for xs (clean_one E)) (\<lambda>_. in_step mk p M) (out_of_step mk p M)" for xs
    unfolding maintains_def [symmetric] clean_one_def by (intro step.keeps_intros keeps_prims give_back_step)
  show ?thesis unfolding CleanUp_def
    by (rule triple_bind [OF plan], rule triple_bind [OF owned], rule triple_then [OF point each])
qed

text \<open>The patches of the plan itself.\<close>

lemma patch_plan_effect:
  assumes "\<And>q. plan_Name (f q) = plan_Name q"
  shows "obeys (keeps_step E mk p M) (patch_plan E f)"
  unfolding obeys_def
proof
  fix s :: "'w st"
  have change: "keeps_step E mk p M s (s\<lparr>st_plan := f (st_plan s)\<rparr>)"
    using assms by (simp add: keeps_step_def in_step_def at_start_def all_safe_def)
  let ?u = "s\<lparr>st_plan := f (st_plan s)\<rparr>" and ?c = "PatchPlan (st_plan s) (f (st_plan s))"
  obtain r w where rw: "k_patchPlan E (st_plan s) (f (st_plan s)) (st_world s) = (r, w)" by force
  have call: "keeps_step E mk p M ?u (?u\<lparr>st_world := w, st_trace := st_trace s @ [?c]\<rparr>)"
    using pass_marks.called [of ?c E "\<lambda>w. snd (k_patchPlan E (st_plan s) (f (st_plan s)) w)" mk p M ?u] rw by simp
  have "keeps_step E mk p M s (snd (patch_plan E f s))"
  proof (cases r)
    case (Inl e)
    then show ?thesis
      using pass_marks.R_trans [OF change call] rw by (simp add: patch_plan_def go_bind_def go_then_def go_run client_call_def)
  next
    case (Inr q)
    have "plan_Name q = plan_Name (st_plan s)"
      using plan_identity_patch [OF identity rw [unfolded Inr]] assms [of "st_plan s"] by simp
    then have "keeps_step E mk p M (?u\<lparr>st_world := w, st_trace := st_trace s @ [?c]\<rparr>) (?u\<lparr>st_world := w, st_trace := st_trace s @ [?c], st_plan := q\<rparr>)"
      using assms [of "st_plan s"] by (auto simp: keeps_step_def in_step_def at_start_def all_safe_def)
    from pass_marks.R_trans [OF pass_marks.R_trans [OF change call] this] show ?thesis
      using rw Inr by (simp add: patch_plan_def go_bind_def go_then_def go_run client_call_def)
  qed
  then show "keeps_step E mk p M s (snd (patch_plan E f s))" .
qed

lemma live_step: "triple (at_start mk p M) (reconcile_live E) (\<lambda>_. in_step mk p M) (out_of_step mk p M)"
proof -
  have start: "at_start mk p M s \<Longrightarrow> out_of_step mk p M s" for s by (simp add: at_start_def out_of_step_def)
  have "obeys (keeps_step E mk p M) (ensureFinalizer E)"
    unfolding ensureFinalizer_def
    by (intro pass_marks.obeys_intros pass_marks.obeys_prims patch_plan_effect) (simp add: add_finalizer_def)
  then have fin: "triple (at_start mk p M) (ensureFinalizer E) (\<lambda>_. at_start mk p M) (out_of_step mk p M)"
    by (rule triple_weaken [OF start_effect]) (auto intro: start)
  note parts = acting_parts still_parts
  show ?thesis unfolding reconcile_live_def Let_def
    by (rule triple_then [OF fin], rule triple_bind [OF resolve_step], unfold maintains_def [symmetric])
      (intro step.keeps_intros parts)
qed

lemma deletion_step: "triple (at_start mk p M) (handleDeletion E) (\<lambda>_. out_of_step mk p M) (out_of_step mk p M)"
proof -
  have start: "at_start mk p M s \<Longrightarrow> out_of_step mk p M s" for s by (simp add: at_start_def out_of_step_def)
  have plan: "triple (at_start mk p M) get_plan (\<lambda>_. at_start mk p M) (out_of_step mk p M)"
    by (rule triple_get_plan)
  have "obeys (keeps_step E mk p M) (go_try (patch_plan E (remove_finalizer E)))"
    by (intro pass_marks.obeys_try patch_plan_effect) (simp add: remove_finalizer_def)
  then have patch: "maintains (in_step mk p M) (out_of_step mk p M) (go_try (patch_plan E (remove_finalizer E)))"
    by (rule keeps_of_effect [OF _ marks identity])
  have rest: "maintains (in_step mk p M) (out_of_step mk p M) (go_then (record_metrics DeletePlan)
      (go_bind (go_try (patch_plan E (remove_finalizer E))) (\<lambda>r. case r of
          Inl err \<Rightarrow> if \<not> IsNotFound err then go_raise err else go_ret ()
        | Inr _ \<Rightarrow> go_ret ())))"
    by (intro step.keeps_intros patch still_parts)
  show ?thesis unfolding handleDeletion_def
    by (rule triple_bind [OF plan], rule triple_if, rule triple_ret, rule start, assumption,
        rule triple_then [OF clean_step], rule triple_weaken [OF rest [unfolded maintains_def]])
      (auto intro: in_step_error)
qed

lemma pass_hands_over:
  assumes range: "range_laws E" and trace: "st_trace s = []" and run: "Reconcile E name s = (r, t)"
  shows "handed name (mk (st_world s)) (mk (st_world t))"
proof -
  obtain a w where get: "k_getPlan E name (st_world s) = (a, w)" by force
  have w: "mk w = mk (st_world s)"
    using marks_served [OF marks, of "GetPlan name" "\<lambda>w. snd (k_getPlan E name w)" "st_world s"] get by simp
  show ?thesis
  proof (cases a)
    case (Inl e)
    then show ?thesis
      using run get w by (auto simp: Reconcile_def go_try_bind client_call_def go_run split: if_splits)
  next
    case (Inr q)
    let ?u = "s\<lparr>st_world := w, st_trace := st_trace s @ [GetPlan name], st_plan := q\<rparr>"
    have q: "plan_Name q = name" using plan_identity_get [OF identity] get Inr by simp
    have "triple (at_start mk name (mk w)) (if c then go_then (handleDeletion E) (go_ret 0) else reconcile_live E)
        (\<lambda>_. out_of_step mk name (mk w)) (out_of_step mk name (mk w))" for c
      by (intro triple_if triple_then [OF deletion_step triple_ret] triple_weaken [OF live_step]) (auto intro: in_step_error)
    moreover have "(if plan_DeletionTimestamp q \<noteq> None then go_then (handleDeletion E) (go_ret 0) else reconcile_live E) ?u = (r, t)"
      using run Reconcile_found [of E name s q w] get Inr by simp
    moreover have "at_start mk name (mk w) ?u" by (simp add: at_start_def q)
    ultimately have "out_of_step mk name (mk w) t" using tripleD_state by (metis snd_conv)
    moreover have "all_safe name t"
      using pass_is_safe [OF range identity trace run] by (simp add: all_safe_def)
    ultimately show ?thesis by (simp add: out_of_step_def w)
  qed
qed

end

section \<open>A cluster that merges patches, and passes that interleave\<close>

text \<open>
  \<open>client.MergeFrom\<close> sends the difference of the two copies; the server merges it into the
  object it has. Without the resource version in the patch nothing compares that object with
  the copy the caller started from.
\<close>

definition merge_key :: "gomap \<Rightarrow> gomap \<Rightarrow> string \<Rightarrow> gomap \<Rightarrow> gomap" where
  "merge_key o1 m k stored = (if mget m k = mget o1 k then stored
     else if mhas m k then mput k (mget m k) (mmake stored) else mdelete k stored)"

definition gokeys :: "gomap \<Rightarrow> string list" where
  "gokeys m = (case m of None \<Rightarrow> [] | Some al \<Rightarrow> map fst al)"

definition merge_map :: "gomap \<Rightarrow> gomap \<Rightarrow> gomap \<Rightarrow> gomap" where
  "merge_map o1 m stored = fold (merge_key o1 m) (gokeys o1 @ gokeys m) stored"

definition merge_node :: "Node \<Rightarrow> Node \<Rightarrow> Node \<Rightarrow> Node" where
  "merge_node o1 m stored = stored\<lparr>
     Annotations := merge_map (Annotations o1) (Annotations m) (Annotations stored),
     Labels := merge_map (Labels o1) (Labels m) (Labels stored),
     Unschedulable := (if Unschedulable m = Unschedulable o1 then Unschedulable stored else Unschedulable m)\<rparr>"

definition node_named :: "cluster \<Rightarrow> string \<Rightarrow> Node option" where
  "node_named w nm = find (\<lambda>n. node_Name n = nm) (cl_nodes w)"

definition shared_env :: "cluster env" where
  "shared_env = memory_env\<lparr>
     k_listNodes := (\<lambda>sel w. (Inr (filter (\<lambda>n. node_named w (node_Name n) = Some n \<and>
        (case sel of None \<Rightarrow> True | Some f \<Rightarrow> f (Labels n))) (cl_nodes w)), w)),
     k_patchNode := (\<lambda>o1 m w. case node_named w (node_Name o1) of
        None \<Rightarrow> (Inl (ApiError ReasonNotFound), w)
      | Some n \<Rightarrow> (Inr (merge_node o1 m n), w\<lparr>cl_nodes := replace_node (merge_node o1 m n) (cl_nodes w)\<rparr>))\<rparr>"

definition cluster_marks :: "cluster \<Rightarrow> string \<Rightarrow> string" where
  "cluster_marks w a = (case node_named w a of None \<Rightarrow> '''' | Some n \<Rightarrow> owner_of n)"

lemma merge_key_get: "mget (merge_key o1 m k stored) k' =
    (if k' = k \<and> mget m k \<noteq> mget o1 k then mget m k else mget stored k')"
  by (auto simp: merge_key_def gomap_simps mget_not_mhas)

lemma merge_fold_get: "mget (fold (merge_key o1 m) ks stored) k' =
    (if k' \<in> set ks \<and> mget m k' \<noteq> mget o1 k' then mget m k' else mget stored k')"
  by (induction ks arbitrary: stored) (auto simp: merge_key_get)

lemma mget_gokeys: "mget m k \<noteq> '''' \<Longrightarrow> k \<in> set (gokeys m)"
  by (auto simp: mget_def gokeys_def split: option.splits dest: map_of_SomeD intro: rev_image_eqI)

lemma merge_map_get: "mget (merge_map o1 m stored) k = (if mget m k \<noteq> mget o1 k then mget m k else mget stored k)"
  unfolding merge_map_def merge_fold_get by (metis Un_iff mget_gokeys set_append)

lemma merge_node_owner: "owner_of (merge_node o1 m n) = patched_mark o1 m (owner_of n)"
  by (simp add: owner_of_def merge_node_def merge_map_get patched_mark_def)

lemma merge_node_name [simp]: "node_Name (merge_node o1 m n) = node_Name n"
  by (simp add: merge_node_def)

lemma find_replace_node:
  "find (\<lambda>n. node_Name n = a) (replace_node n ns) =
     (if a = node_Name n then map_option (\<lambda>_. n) (find (\<lambda>n. node_Name n = a) ns) else find (\<lambda>n. node_Name n = a) ns)"
  by (induction ns) auto

lemma node_named_name: "node_named w a = Some n \<Longrightarrow> node_Name n = a"
  by (auto simp: node_named_def find_Some_iff)

lemma cluster_marks_patch:
  assumes "node_named w a = Some n"
  shows "cluster_marks (w\<lparr>cl_nodes := replace_node (merge_node o1 m n) (cl_nodes w)\<rparr>) =
    (cluster_marks w)(a := patched_mark o1 m (cluster_marks w a))"
proof
  fix b
  have "node_named (w\<lparr>cl_nodes := replace_node (merge_node o1 m n) (cl_nodes w)\<rparr>) b =
      (if b = a then Some (merge_node o1 m n) else node_named w b)"
    using assms node_named_name [OF assms] by (simp add: node_named_def find_replace_node)
  then show "cluster_marks (w\<lparr>cl_nodes := replace_node (merge_node o1 m n) (cl_nodes w)\<rparr>) b =
      ((cluster_marks w)(a := patched_mark o1 m (cluster_marks w a))) b"
    using assms by (simp add: cluster_marks_def merge_node_owner)
qed

lemma served_shared:
  assumes "reads_nodes c" "served shared_env c g"
  shows "cluster_marks (g w) = cluster_marks w"
  using assms
  by (cases c) (auto simp: shared_env_def memory_env_def cluster_marks_def node_named_def found_def split: if_splits option.splits)

lemma shared_marks: "marks_laws shared_env cluster_marks"
proof -
  have clock: "cluster_marks (snd (k_clockNow shared_env w)) = cluster_marks w"
    "cluster_marks (snd (k_metaNow shared_env w)) = cluster_marks w" for w
    by (simp_all add: shared_env_def memory_env_def)
  have get: "owner_of n = cluster_marks w (node_Name n)" if "k_getNode shared_env nm w = (Inr n, w')" for nm w n w'
  proof -
    have "node_named w nm = Some n"
      using that by (auto simp: shared_env_def memory_env_def found_def node_named_def split: option.splits)
    with node_named_name [OF this] show ?thesis by (simp add: cluster_marks_def)
  qed
  have list: "owner_of n = cluster_marks w (node_Name n)" if "k_listNodes shared_env sel w = (Inr ns, w')" "n \<in> set ns" for sel w ns w' n
    using that by (auto simp: shared_env_def cluster_marks_def)
  have patch: "let w2 = (cluster_marks w)(node_Name o1 := patched_mark o1 m (cluster_marks w (node_Name o1))) in
         case r of Inl e \<Rightarrow> cluster_marks w' = cluster_marks w \<or> cluster_marks w' = w2
         | Inr n \<Rightarrow> cluster_marks w' = w2 \<and> node_Name n = node_Name o1 \<and> owner_of n = cluster_marks w' (node_Name o1)"
    if "k_patchNode shared_env o1 m w = (r, w')" for o1 m w r w'
  proof (cases "node_named w (node_Name o1)")
    case None
    then show ?thesis using that by (auto simp: shared_env_def Let_def)
  next
    case (Some n)
    from that have r: "r = Inr (merge_node o1 m n)" "w' = w\<lparr>cl_nodes := replace_node (merge_node o1 m n) (cl_nodes w)\<rparr>"
      by (simp_all add: shared_env_def Some)
    have "cluster_marks w (node_Name o1) = owner_of n" by (simp add: cluster_marks_def Some)
    then show ?thesis
      unfolding r Let_def sum.case cluster_marks_patch [OF Some] using node_named_name [OF Some] by (simp add: merge_node_owner)
  qed
  show ?thesis unfolding marks_laws_def using served_shared clock get list patch by blast
qed

lemma shared_identity: "plan_identity shared_env" "range_laws shared_env"
  by (auto simp: shared_env_def range_laws_def plan_identity_def memory_env_def found_def find_Some_iff split: option.splits)

interpretation shared: marked_server shared_env cluster_marks
  by unfold_locales (rule shared_marks shared_identity)+

text \<open>
  Other workers: before the \<open>i\<close>-th request of a pass reaches the server, the world moves by
  \<open>moves i\<close>.
\<close>

definition turn :: "(nat \<Rightarrow> 'w \<Rightarrow> 'w) \<Rightarrow> ('w, 'a) outside \<Rightarrow> ('w \<times> nat, 'a) outside" where
  "turn moves f = (\<lambda>(w, i). case f (moves i w) of (r, w') \<Rightarrow> (r, (w', Suc i)))"

definition interleaved :: "(nat \<Rightarrow> 'w \<Rightarrow> 'w) \<Rightarrow> 'w env \<Rightarrow> ('w \<times> nat) env" where
  "interleaved moves E = \<lparr>
     k_getNode = (\<lambda>nm. turn moves (k_getNode E nm)), k_listNodes = (\<lambda>sel. turn moves (k_listNodes E sel)),
     k_patchNode = (\<lambda>o1 m. turn moves (k_patchNode E o1 m)), k_listPods = (\<lambda>nm. turn moves (k_listPods E nm)),
     k_evictPod = (\<lambda>p g. turn moves (k_evictPod E p g)), k_deletePod = (\<lambda>p. turn moves (k_deletePod E p)),
     k_listPDBs = (\<lambda>ns. turn moves (k_listPDBs E ns)), k_getPlan = (\<lambda>nm. turn moves (k_getPlan E nm)),
     k_listPlans = turn moves (k_listPlans E), k_patchPlan = (\<lambda>o1 m. turn moves (k_patchPlan E o1 m)),
     k_patchPlanStatus = (\<lambda>o1 m. turn moves (k_patchPlanStatus E o1 m)),
     k_clockNow = (\<lambda>(w, i). case k_clockNow E w of (t, w') \<Rightarrow> (t, (w', i))),
     k_metaNow = (\<lambda>(w, i). case k_metaNow E w of (t, w') \<Rightarrow> (t, (w', i))),
     k_SetStatusCondition = k_SetStatusCondition E, k_FindStatusCondition = k_FindStatusCondition E,
     k_LabelSelectorAsSelector = k_LabelSelectorAsSelector E, k_ContainsFinalizer = k_ContainsFinalizer E,
     k_AddFinalizer = k_AddFinalizer E, k_RemoveFinalizer = k_RemoveFinalizer E, k_RFC3339 = k_RFC3339 E,
     k_range = k_range E, k_pick = k_pick E\<rparr>"

section \<open>Properties\<close>

text \<open>A sequence of passes, each run by a worker of its own from a fresh state.\<close>

inductive passes :: "'w env \<Rightarrow> 'w \<Rightarrow> string list \<Rightarrow> 'w \<Rightarrow> bool" for E :: "'w env" where
  none: "passes E w [] w"
| pass: "Reconcile E name s = (r, t) \<Longrightarrow> st_trace s = [] \<Longrightarrow> passes E (st_world t) names w' \<Longrightarrow>
    passes E (st_world s) (name # names) w'"

text \<open>
  C2. One pass after the other, with reads that are current, a plan that does not run neither
  loses nor gains a node: whatever the other plans' passes do, in whatever order and with
  whatever failures of the server, the nodes that carry its mark are the same before and after.
\<close>

theorem others_nodes_untouched:
  assumes L: "marks_laws E mk" and plan: "plan_identity E" and range: "range_laws E"
    and run: "passes E w names w'" and p: "p \<notin> set names" "p \<noteq> ''''"
  shows "mk w a = p \<longleftrightarrow> mk w' a = p"
  using run p(1)
proof (induction rule: passes.induct)
  case (none w)
  show ?case by (rule refl)
next
  case (pass name s r t names w')
  have "handed name (mk (st_world s)) (mk (st_world t))"
    by (rule marked_server.pass_hands_over [OF marked_server.intro [OF L plan] range pass.hyps(2,1)])
  then have "mk (st_world s) a = p \<longleftrightarrow> mk (st_world t) a = p"
    using pass.prems p(2) unfolding handed_def by (cases "mk (st_world t) a = mk (st_world s) a") auto
  with pass.IH pass.prems show ?case by simp
qed

definition two_owners :: cluster where
  "two_owners = empty_cluster\<lparr>cl_nodes := [owned_node, adopt_change (example_plan ''q'' []) True (example_node ''b'')],
     cl_plans := [deleted_plan]\<rparr>"

definition pass_on :: "string \<Rightarrow> cluster \<Rightarrow> cluster" where
  "pass_on name w = st_world (snd (Reconcile shared_env name (start_state (example_plan '''' []) w)))"

theorem others_nodes_untouched_witness:
  "cluster_marks two_owners ''a'' = ''p'' \<and> cluster_marks (pass_on ''p'' two_owners) ''a'' = '''' \<and>
   cluster_marks (pass_on ''p'' two_owners) ''b'' = ''q''"
proof -
  have run: "passes shared_env two_owners [''p''] (pass_on ''p'' two_owners)"
    using passes.pass [OF prod.collapse [symmetric, of "Reconcile shared_env ''p'' (start_state (example_plan '''' []) two_owners)"]
        _ passes.none] by (simp add: start_state_def pass_on_def)
  have "cluster_marks two_owners ''b'' = ''q''" by code_simp
  with others_nodes_untouched [OF shared_marks shared_identity run, of "''q''" "''b''"]
  have "cluster_marks (pass_on ''p'' two_owners) ''b'' = ''q''" by simp
  moreover have "cluster_marks two_owners ''a'' = ''p''" by code_simp
  moreover have "cluster_marks (pass_on ''p'' two_owners) ''a'' = ''''" by code_simp
  ultimately show ?thesis by blast
qed


definition two_plans :: cluster where
  "two_plans = empty_cluster\<lparr>cl_nodes := [example_node ''a''], cl_plans := [example_plan ''p'' [''a''], example_plan ''q'' [''a'']]\<rparr>"

definition holding :: "string \<Rightarrow> cluster \<Rightarrow> cluster st" where
  "holding name w = (start_state (example_plan name [''a'']) w)\<lparr>st_heap := [''a'' \<mapsto> example_node ''a'']\<rparr>"


text \<open>
  The scenario, with the admission webhook in front: two plans name the same node before
  either has run. The webhook admits both, for it looks at the node's mark only. Then \<open>q\<close>
  resolves and adopts while \<open>p\<close> is between its reads and its first patch.
\<close>

definition resolve_and_adopt :: "'w env \<Rightarrow> ('w, unit) op" where
  "resolve_and_adopt E = go_bind (ComputeOwnershipResolution E) (\<lambda>res. ReconcileOwnership E res True)"

definition q_adopts :: "cluster \<Rightarrow> (go_error + unit) \<times> cluster st" where
  "q_adopts w = resolve_and_adopt shared_env (start_state (example_plan ''q'' [''a'']) w)"

definition p_adopts :: "(go_error + unit) \<times> (cluster \<times> nat) st" where
  "p_adopts = resolve_and_adopt (interleaved (\<lambda>i w. if i = 2 then st_world (snd (q_adopts w)) else w) shared_env)
     \<lparr>st_world = (two_plans, 0), st_plan = example_plan ''p'' [''a''], st_heap = (\<lambda>_. None), st_trace = [], st_events = [],
      st_gauges = (\<lambda>_. None)\<rparr>"

lemma both_admitted:
  "fst (Handle shared_env \<lparr>req_Operation = ''CREATE'', req_Object = Inr (example_plan ''p'' [''a''])\<rparr>
     (start_state (example_plan '''' []) two_plans)) = Inr (Allowed ''ok'') \<and>
   fst (Handle shared_env \<lparr>req_Operation = ''CREATE'', req_Object = Inr (example_plan ''q'' [''a''])\<rparr>
     (start_state (example_plan '''' []) two_plans)) = Inr (Allowed ''ok'')"
  by code_simp

lemma ownership_race:
  "fst (q_adopts two_plans) = Inr () \<and> cluster_marks (st_world (snd (q_adopts two_plans))) ''a'' = ''q'' \<and>
   fst p_adopts = Inr () \<and> cluster_marks (fst (st_world (snd p_adopts))) ''a'' = ''p''"
  by (intro conjI; code_simp)

end
