(* ===== verification/Status_Types.thy ===== *)
theory Status_Types
  imports Reconciler
begin

text \<open>
  The types of what the operator writes. The schema of the custom resource and the comments
  of \<open>nodemaintenanceplan_types.go\<close> say what a status looks like: which conditions there are
  and with which reasons, which phases, 32-bit counters with a percentage among them, a drift
  reason exactly for a drifted node, issues of the known kinds. \<open>well_typed\<close> is the predicate,
  and a pass that reads well-typed plans sends well-typed status patches only.
\<close>

section \<open>Definitions\<close>

text \<open>Type, status and reason of every condition the code sets.\<close>

definition condition_table :: "(string \<times> string \<times> string) list" where
  "condition_table = [
     (ConditionNodesSelected, ''True'', ''NodesAdopted''), (ConditionNodesSelected, ''False'', ''NoNodes''),
     (ConditionCordoned, ''True'', ''AllNodesCordoned''), (ConditionCordoned, ''False'', ''NotAllCordoned''),
     (ConditionConflict, ''True'', ''NodeConflict''), (ConditionConflict, ''False'', ''NoConflict''),
     (ConditionScheduled, ''True'', ''ScheduledInFuture''), (ConditionScheduled, ''False'', ''NotScheduled''),
     (ConditionDriftDetected, ''True'', ''NodeDrifted''), (ConditionDriftDetected, ''False'', ''NoDrift''),
     (ConditionNodeNotReady, ''True'', ''NodeNotReady''), (ConditionNodeNotReady, ''False'', ''AllNodesReady''),
     (ConditionDrainSucceeded, ''True'', ''AllPodsEvicted''), (ConditionDrainSucceeded, ''False'', ''Blocked''),
     (ConditionDrainSucceeded, ''False'', ''InProgress''), (ConditionDrainSucceeded, ''False'', ''TimedOut''),
     (ConditionDrainInProgress, ''True'', ''Evicting''), (ConditionDrainInProgress, ''False'', ''Idle''),
     (ConditionDrainInProgress, ''False'', ''Blocked''), (ConditionDrainInProgress, ''False'', ''TimedOut''),
     (ConditionDrainBlocked, ''True'', ''PodBlocked''), (ConditionDrainBlocked, ''True'', ''PDBBlocked''),
     (ConditionDrainBlocked, ''False'', ''Cleared''), (ConditionDrainTimedOut, ''True'', ''DeadlineExceeded'')]"

definition typed_condition :: "Condition \<Rightarrow> bool" where
  "typed_condition c \<longleftrightarrow> (c_Type c, c_Status c, c_Reason c) \<in> set condition_table"

text \<open>
  The schema's own constraints on a condition: the enumeration of the status and the patterns
  of type and reason.
\<close>

definition letter :: "char \<Rightarrow> bool" where
  "letter c = (let n = of_char c :: nat in 65 \<le> n \<and> n \<le> 90 \<or> 97 \<le> n \<and> n \<le> 122)"

definition digit :: "char \<Rightarrow> bool" where
  "digit c = (let n = of_char c :: nat in 48 \<le> n \<and> n \<le> 57)"

definition reason_pattern :: "string \<Rightarrow> bool" where
  "reason_pattern r = (r \<noteq> [] \<and> length r \<le> 1024 \<and> letter (hd r) \<and>
     list_all (\<lambda>c. letter c \<or> digit c \<or> c \<in> {CHR ''_'', CHR '','', CHR '':''}) r \<and>
     (letter (last r) \<or> digit (last r) \<or> last r = CHR ''_''))"

definition type_pattern :: "string \<Rightarrow> bool" where
  "type_pattern t = (t \<noteq> [] \<and> length t \<le> 316 \<and> list_all (\<lambda>c. letter c \<or> digit c) t)"

definition schema_condition :: "Condition \<Rightarrow> bool" where
  "schema_condition c \<longleftrightarrow> type_pattern (c_Type c) \<and> reason_pattern (c_Reason c) \<and>
     c_Status c \<in> {''True'', ''False'', ''Unknown''}"

definition int32 :: "int \<Rightarrow> bool" where
  "int32 x \<longleftrightarrow> - 2147483648 \<le> x \<and> x \<le> 2147483647"

definition drain_issue_types :: "string list" where
  "drain_issue_types = [''PDBBlocked'', ''ConfigBlocked'', ''StuckTerminating'']"

definition preview_issue_types :: "string list" where
  "preview_issue_types = [''DaemonSetPod'', ''UncontrolledPod'', ''EmptyDirVolume'', ''BlockedPod'', ''PDBActive'']"

text \<open>An issue of a pod names the pod; that a node is not ready is an issue of no pod.\<close>

definition typed_issue :: "NodeIssue \<Rightarrow> bool" where
  "typed_issue i = (if PodRef i = None then issue_Type i = ''NodeNotReady'' else issue_Type i \<in> set drain_issue_types)"

definition typed_preview :: "NodeDrainPreview \<Rightarrow> bool" where
  "typed_preview pv \<longleftrightarrow> int32 (EvictableCount pv) \<and> int32 (SkippedCount pv) \<and> ComputedAt pv \<noteq> None \<and>
     list_all (\<lambda>i. issue_Type i \<in> set preview_issue_types \<and> PodRef i \<noteq> None) (preview_Issues pv)"

definition typed_drift :: "bool \<Rightarrow> string \<Rightarrow> bool" where
  "typed_drift drifted reason = (if drifted then reason \<in> {DriftReasonManualUncordon, DriftReasonExternalCordon} else reason = '''')"

definition typed_entry :: "NodeStatus \<Rightarrow> bool" where
  "typed_entry ns \<longleftrightarrow> entry_ok ns \<and> int32 (TotalPods ns) \<and> int32 (EvictedTotal ns) \<and>
     typed_drift (ns_Drifted ns) (DriftReason ns) \<and> list_all typed_issue (ns_Issues ns) \<and>
     (case DrainPreview ns of None \<Rightarrow> True | Some pv \<Rightarrow> typed_preview pv)"

definition typed_conditions :: "Condition list \<Rightarrow> bool" where
  "typed_conditions cs \<longleftrightarrow> distinct (map c_Type cs) \<and> list_all typed_condition cs"

definition well_typed :: "Plan \<Rightarrow> bool" where
  "well_typed p \<longleftrightarrow> typed_conditions (Conditions (Status p)) \<and> list_all typed_entry (status_Nodes (Status p)) \<and>
     NodeCount (Status p) = len32 (status_Nodes (Status p)) \<and> Phase (Status p) \<in> set ('''' # allPhases) \<and>
     int32 (TotalEvictablePods (Status p)) \<and> int32 (TotalPreviewIssues (Status p))"

text \<open>
  The other side: the statuses the server hands out are well typed as long as the ones it is
  sent are (a patch of the plan itself does not touch the status), and the condition helper
  keeps one condition of a type.
\<close>

definition typed_server :: "'w env \<Rightarrow> bool" where
  "typed_server E \<longleftrightarrow>
     (\<forall>nm w p w'. k_getPlan E nm w = (Inr p, w') \<longrightarrow> well_typed p) \<and>
     (\<forall>o1 m w p w'. well_typed m \<longrightarrow> k_patchPlan E o1 m w = (Inr p, w') \<longrightarrow> well_typed p) \<and>
     (\<forall>o1 m w p w'. well_typed m \<longrightarrow> k_patchPlanStatus E o1 m w = (Inr p, w') \<longrightarrow> well_typed p)"

definition one_per_type :: "'w env \<Rightarrow> bool" where
  "one_per_type E \<longleftrightarrow> (\<forall>cs c. distinct (map c_Type cs) \<longrightarrow> distinct (map c_Type (k_SetStatusCondition E cs c)))"

fun typed_call :: "call \<Rightarrow> bool" where
  "typed_call (PatchPlanStatus o1 m) = well_typed m"
| "typed_call _ = True"

definition typed_trace :: "'w st \<Rightarrow> bool" where
  "typed_trace s \<longleftrightarrow> (\<forall>c \<in> set (st_trace s). typed_call c)"

definition typed_pass :: "'w st \<Rightarrow> bool" where
  "typed_pass s \<longleftrightarrow> well_typed (st_plan s) \<and> typed_trace s"

section \<open>Conditions\<close>

lemma table_schema: "list_all (\<lambda>(t, st, r). type_pattern t \<and> reason_pattern r \<and> st \<in> {''True'', ''False'', ''Unknown''}) condition_table"
  by code_simp

lemma typed_condition_schema: "typed_condition c \<Longrightarrow> schema_condition c"
  using table_schema by (auto simp: typed_condition_def schema_condition_def list_all_iff)

lemma find_cond_distinct: "distinct (map c_Type cs) \<Longrightarrow> d \<in> set cs \<Longrightarrow> find_cond cs (c_Type d) = Some d"
  by (induction cs) (auto simp: find_cond_def rev_image_eqI)

lemma find_cond_in: "find_cond cs t = Some d \<Longrightarrow> d \<in> set cs"
  by (auto simp: find_cond_def find_Some_iff)

lemma typed_conditions_set:
  assumes L: "condition_laws E" and one: "one_per_type E" and cs: "typed_conditions cs" and c: "typed_condition c"
  shows "typed_conditions (k_SetStatusCondition E cs c)"
proof -
  let ?cs = "k_SetStatusCondition E cs c"
  have dist: "distinct (map c_Type ?cs)" using one cs by (simp add: one_per_type_def typed_conditions_def)
  have "typed_condition d" if d: "d \<in> set ?cs" for d
  proof (cases "c_Type d = c_Type c")
    case True
    obtain d' where "find_cond ?cs (c_Type c) = Some d'" "same_condition d' c" using L unfolding condition_laws_def by blast
    then have "same_condition d c" using find_cond_distinct [OF dist d] True by simp
    then show ?thesis using c by (simp add: same_condition_def typed_condition_def)
  next
    case False
    then have "find_cond cs (c_Type d) = Some d"
      using L find_cond_distinct [OF dist d] unfolding condition_laws_def by metis
    then show ?thesis using cs find_cond_in by (auto simp: typed_conditions_def list_all_iff)
  qed
  with dist show ?thesis by (simp add: typed_conditions_def list_all_iff)
qed

section \<open>The writers\<close>

text \<open>What the writers of conditions have in common: only the condition list changes, and stays typed.\<close>

locale typed_helpers =
  fixes E :: "'w env"
  assumes helpers: "condition_laws E" "one_per_type E"
begin

lemma set_condition:
  assumes "(c, st, r) \<in> set condition_table" "well_typed p"
  shows "well_typed (setCondition E c st r m p)"
  using assms typed_conditions_set [OF helpers, of "Conditions (Status p)"]
  by (simp add: setCondition_def well_typed_def typed_condition_def)

lemma condition_writers:
  assumes "well_typed p"
  shows "well_typed (set_selected E statuses p)" "well_typed (set_cordoned E b p)" "well_typed (set_conflict E res p)"
    "well_typed (set_scheduled E sch p)" "well_typed (set_drift E statuses p)"
    "well_typed (setDrainConditions E b1 b2 b3 p)" "well_typed (set_timed_out E minutes p)"
proof -
  note w = set_condition [unfolded condition_table_def, OF _ assms] set_condition [unfolded condition_table_def]
  show "well_typed (set_selected E statuses p)" "well_typed (set_cordoned E b p)" "well_typed (set_conflict E res p)"
    "well_typed (set_scheduled E sch p)" "well_typed (set_drift E statuses p)"
    unfolding set_selected_def set_cordoned_def set_conflict_def set_scheduled_def set_drift_def Let_def
    by (simp_all add: w split: option.split)
  show "well_typed (setDrainConditions E b1 b2 b3 p)" "well_typed (set_timed_out E minutes p)"
    unfolding setDrainConditions_def set_timed_out_def Let_def by (simp_all add: w)
qed

end

lemma typed_status_cong:
  "Conditions (Status q) = Conditions (Status p) \<Longrightarrow> status_Nodes (Status q) = status_Nodes (Status p) \<Longrightarrow>
   NodeCount (Status q) = NodeCount (Status p) \<Longrightarrow> Phase (Status q) \<in> insert (Phase (Status p)) (set allPhases) \<Longrightarrow>
   TotalEvictablePods (Status q) = TotalEvictablePods (Status p) \<Longrightarrow>
   TotalPreviewIssues (Status q) = TotalPreviewIssues (Status p) \<Longrightarrow> well_typed p \<Longrightarrow> well_typed q"
  by (auto simp: well_typed_def)

lemma plain_writers:
  assumes "well_typed p"
  shows "well_typed (set_snapshot res p)" "well_typed (record_start now p)" "well_typed (set_all_ready p)"
    "well_typed (recomputePlanSummaries E p)" "well_typed (add_finalizer E p)" "well_typed (remove_finalizer E p)"
proof -
  show "well_typed (set_snapshot res p)" "well_typed (record_start now p)" "well_typed (set_all_ready p)"
    "well_typed (add_finalizer E p)" "well_typed (remove_finalizer E p)"
    by (rule typed_status_cong [OF _ _ _ _ _ _ assms];
        simp add: set_snapshot_def record_start_def set_all_ready_def add_finalizer_def remove_finalizer_def split: option.split)+
  have "TotalEvictablePods (Status (recomputePlanSummaries E p)) = TotalEvictablePods (Status p)"
    "TotalPreviewIssues (Status (recomputePlanSummaries E p)) = TotalPreviewIssues (Status p)"
    by (simp_all add: recomputePlanSummaries_def Let_def)
  then show "well_typed (recomputePlanSummaries E p)"
    by (intro typed_status_cong [OF _ _ _ _ _ _ assms]) (simp_all add: recompute_phase computePhase_in)
qed

text \<open>The entries: each writer keeps a typed entry typed.\<close>

lemma i32_int32 [simp]: "int32 (i32 x)" "int32 (len32 xs)"
  using i32_bounds [of x] i32_bounds [of "int (length xs)"] by (simp_all add: int32_def maxInt32_def len32_def)

lemma typed_update_entry:
  assumes "\<And>ns. typed_entry ns \<Longrightarrow> typed_entry (upd ns)" "well_typed p"
  shows "well_typed (update_entry nm upd p)"
proof -
  have "list_all typed_entry nss \<Longrightarrow> list_all typed_entry (update_named nm upd nss) \<and> length (update_named nm upd nss) = length nss" for nss
    by (induction nss) (auto simp: assms(1))
  then show ?thesis using assms(2) by (simp add: well_typed_def update_entry_def len32_def)
qed

lemma issue_lists:
  "list_all typed_issue (blockedPodIssues pods b)" "list_all typed_issue (stuckTerminatingIssues pods)"
  "typed_issue (nodeNotReadyIssue y)"
  by (simp_all add: blockedPodIssues_def stuckTerminatingIssues_def nodeNotReadyIssue_def typed_issue_def drain_issue_types_def list_all_iff)

lemma entry_writers:
  assumes "well_typed p"
  shows "outcome_ok out \<Longrightarrow> list_all typed_issue iss \<Longrightarrow> well_typed (updateNodeDrainStatus nm out iss p)"
    "list_all typed_issue iss \<Longrightarrow> well_typed (setNodeIssues nm iss p)"
    "typed_preview pv \<Longrightarrow> well_typed (setNodePreview nm pv p)"
    "markNodeReadyForMaintenance nm p = (q, b) \<Longrightarrow> well_typed q"
proof -
  have drain: "typed_entry (drain_entry out iss ns)"
    if "outcome_ok out" "list_all typed_issue iss" "typed_entry ns" for ns
  proof -
    have "entry_ok (drain_entry out iss ns)" by (rule drain_entry_ok) (use that in \<open>simp_all add: typed_entry_def\<close>)
    moreover have "int32 (Total out)" using that(1) by (simp add: outcome_ok_def max_pods_def int32_def)
    moreover have "DrainPreview (drain_entry out iss ns) = DrainPreview ns" by (simp add: drain_entry_def Let_def)
    ultimately show ?thesis using that by (simp add: typed_entry_def)
  qed
  have ready: "typed_entry (ready_entry ns)" if "typed_entry ns" for ns
    using that by (simp add: typed_entry_def ready_entry_def entry_ok_def)
  show "outcome_ok out \<Longrightarrow> list_all typed_issue iss \<Longrightarrow> well_typed (updateNodeDrainStatus nm out iss p)"
    unfolding updateNodeDrainStatus_def by (intro typed_update_entry drain assms)
  show "list_all typed_issue iss \<Longrightarrow> well_typed (setNodeIssues nm iss p)"
    unfolding setNodeIssues_def by (intro typed_update_entry assms) (simp add: typed_entry_def issues_entry_def entry_ok_def)
  show "typed_preview pv \<Longrightarrow> well_typed (setNodePreview nm pv p)"
    unfolding setNodePreview_def by (intro typed_update_entry assms) (simp add: typed_entry_def preview_entry_def entry_ok_def)
  show "markNodeReadyForMaintenance nm p = (q, b) \<Longrightarrow> well_typed q"
    using assms typed_update_entry [OF ready assms]
    by (auto simp: markNodeReadyForMaintenance_def split: option.split_asm if_split_asm)
qed

text \<open>The entries \<open>UpdateStatus\<close> builds from a well-typed plan.\<close>

lemma DetectNodeDrift_reason: "snd (DetectNodeDrift node plan) = DriftReasonMaintenanceComplete \<or>
    typed_drift (fst (DetectNodeDrift node plan)) (snd (DetectNodeDrift node plan))"
  by (auto simp: DetectNodeDrift_def typed_drift_def Let_def)

lemma typed_node_status:
  assumes plan: "well_typed plan" and old: "\<And>ns. map_of existing (node_Name node) = Some ns \<Longrightarrow> typed_entry ns"
  shows "typed_entry (node_status existing plan now node)"
proof -
  have zero: "typed_entry zero_NodeStatus" by (simp add: typed_entry_def entry_ok_def zero_NodeStatus_def max_pods_def int32_def typed_drift_def)
  have frozen: "typed_drift (fst (GetNodeDriftState plan nm)) (snd (GetNodeDriftState plan nm))" for nm
  proof (cases "find_status plan nm")
    case None
    then show ?thesis by (simp add: GetNodeDriftState_def typed_drift_def)
  next
    case (Some ns)
    then have "typed_entry ns" using plan find_status_Some [OF Some] by (simp add: well_typed_def list_all_iff)
    then show ?thesis by (simp add: GetNodeDriftState_def Some typed_entry_def)
  qed
  have base: "typed_entry (case map_of existing (node_Name node) of None \<Rightarrow> zero_NodeStatus | Some ns \<Rightarrow> ns)"
    using zero old by (simp split: option.split)
  have drift: "typed_drift (fst d2) (snd d2)"
    if "d2 = (if snd d1 = DriftReasonMaintenanceComplete then (False, '''') else d1)"
      "d1 = (if \<not> fst d0 then GetNodeDriftState plan (node_Name node) else d0)" "d0 = DetectNodeDrift node plan" for d0 d1 d2
    using that frozen [of "node_Name node"] DetectNodeDrift_reason [of node plan] by (auto simp: typed_drift_def)
  show ?thesis
    using base drift [OF refl refl refl] by (simp add: node_status_def Let_def typed_entry_def entry_ok_def)
qed

lemma typed_statuses:
  assumes "well_typed plan" "well_typed p"
  shows "well_typed (set_statuses (buildNodeStatuses (index_nodes (status_Nodes (Status plan))) nodes plan now) p)"
proof -
  have "typed_entry (node_status (index_nodes (status_Nodes (Status plan))) plan now node)" for node
    by (rule typed_node_status [OF assms(1)])
      (use assms(1) index_nodes_Some in \<open>fastforce simp: well_typed_def list_all_iff\<close>)
  then show ?thesis using assms(2) by (simp add: well_typed_def set_statuses_def buildNodeStatuses_def list_all_iff)
qed

section \<open>The invariant of a pass\<close>

lemma typed_pass_trace: "typed_pass s \<Longrightarrow> typed_trace s"
  by (simp add: typed_pass_def)

interpretation ty: invariant_pair "typed_pass" "typed_trace"
  by unfold_locales (rule typed_pass_trace)

abbreviation (input) stays_typed :: "('w, 'a) op \<Rightarrow> bool" where
  "stays_typed m \<equiv> maintains typed_pass typed_trace m"

lemma typed_trace_append [simp]:
  "typed_trace (s\<lparr>st_world := w, st_trace := st_trace s @ [c]\<rparr>) \<longleftrightarrow> typed_trace s \<and> typed_call c"
  by (auto simp: typed_trace_def)

lemma typed_prims:
  "stays_typed (Eventf r ty re ac no ar)" "stays_typed (read_clock f)" "stays_typed (load_node a)" "stays_typed get_plan"
  by (auto simp: maintains_def typed_pass_def typed_trace_def
      intro!: triple_Eventf triple_read_clock triple_load_node triple_get_plan)

lemma typed_modify: "(\<And>p. well_typed p \<Longrightarrow> well_typed (f p)) \<Longrightarrow> stays_typed (modify_plan f)"
  by (auto simp: maintains_def typed_pass_def typed_trace_def intro!: triple_modify_plan)

lemma typed_plan:
  assumes "\<And>plan. well_typed plan \<Longrightarrow> stays_typed (f plan)"
  shows "stays_typed (go_bind get_plan f)"
  unfolding maintains_def
proof (rule triple_bind [where R = "\<lambda>plan s. typed_pass s \<and> well_typed plan"])
  show "triple typed_pass get_plan (\<lambda>plan s. typed_pass s \<and> well_typed plan) typed_trace"
    by (rule triple_get_plan) (simp add: typed_pass_def)
  show "triple (\<lambda>s. typed_pass s \<and> well_typed plan) (f plan) (\<lambda>_. typed_pass) typed_trace" for plan
    by (rule triple_fact) (use assms in \<open>simp add: maintains_def\<close>)
qed

lemma typed_patch_status:
  assumes "typed_server E"
  shows "stays_typed (patch_plan_status E original)"
  unfolding maintains_def
proof (rule triple_patch_plan_status)
  fix s p' w assume s: "typed_pass s" and patch: "k_patchPlanStatus E original (st_plan s) (st_world s) = (Inr p', w)"
  have "well_typed p'" using assms s patch unfolding typed_server_def typed_pass_def by blast
  with s show "typed_pass (s\<lparr>st_world := w, st_trace := st_trace s @ [PatchPlanStatus original (st_plan s)], st_plan := p'\<rparr>)"
    by (auto simp: typed_pass_def typed_trace_def)
qed (simp add: typed_pass_def)

text \<open>What leaves the plan alone and sends no status.\<close>

definition plan_fixed :: "'w st \<Rightarrow> 'w st \<Rightarrow> bool" where
  "plan_fixed s t \<longleftrightarrow> st_plan t = st_plan s \<and> trace_within typed_call s t"

interpretation fixed: effect plan_fixed
  by unfold_locales (auto simp: plan_fixed_def trace_within_def)

lemma fixed_prims:
  "typed_call c \<Longrightarrow> obeys plan_fixed (client_call c f)" "obeys plan_fixed (read_clock g)" "obeys plan_fixed get_plan"
  "obeys plan_fixed (Eventf r ty re ac no ar)" "obeys plan_fixed (load_node a)" "obeys plan_fixed (store_node a n)"
proof -
  show "typed_call c \<Longrightarrow> obeys plan_fixed (client_call c f)" "obeys plan_fixed (read_clock g)"
    by (auto simp: obeys_def client_call_def read_clock_def plan_fixed_def trace_within_def split: prod.split)
  show get: "obeys plan_fixed get_plan" by (simp add: get_plan_def fixed.obeys_get)
  show "obeys plan_fixed (Eventf r ty re ac no ar)"
    unfolding Eventf_def by (intro fixed.obeys_bind get) (simp add: obeys_def go_run plan_fixed_def trace_within_def)
  show "obeys plan_fixed (load_node a)" unfolding load_node_def by (intro fixed.obeys_intros)
  show "obeys plan_fixed (store_node a n)" by (simp add: obeys_def go_run plan_fixed_def trace_within_def)
qed

lemma typed_of_fixed: "obeys plan_fixed m \<Longrightarrow> stays_typed m"
  by (rule ty.keeps_of_obeys, erule obeys_mono)
    (auto simp: plan_fixed_def typed_pass_def typed_trace_def trace_within_def list_all_iff)

lemma fixed_patch: "obeys plan_fixed (patch_node E a f)"
  unfolding patch_node_def by (intro fixed.obeys_intros fixed_prims) simp

lemma fixed_writers:
  "obeys plan_fixed (CordonNode E a)" "obeys plan_fixed (UncordonNode E a)" "obeys plan_fixed (ReleaseNode E a)"
  "obeys plan_fixed (AdoptNode E a c)"
  unfolding CordonNode_def UncordonNode_def ReleaseNode_def AdoptNode_def
  by (intro fixed.obeys_intros fixed_prims fixed_patch)+

lemma fixed_parts:
  "obeys plan_fixed (ComputeOwnershipResolution E)" "obeys plan_fixed (ComputeSchedule E)"
  "obeys plan_fixed (ReconcileOwnership E res now)" "obeys plan_fixed (ReconcileDrift E res)"
  "obeys plan_fixed (ReconcileCordon E res)" "obeys plan_fixed (CleanUp E)" "obeys plan_fixed (record_metrics g)"
  "obeys plan_fixed (load_nodes as)" "obeys plan_fixed (filterPodsForDrain E node cfg)" "obeys plan_fixed (buildPDBIssues E pods)"
proof -
  have point: "obeys plan_fixed (point_to d m)" for d m
    by (simp add: point_to_def obeys_def go_run plan_fixed_def trace_within_def)
  show "obeys plan_fixed (ComputeOwnershipResolution E)" "obeys plan_fixed (ComputeSchedule E)"
    "obeys plan_fixed (filterPodsForDrain E node cfg)" "obeys plan_fixed (buildPDBIssues E pods)"
    unfolding ComputeOwnershipResolution_def desired_nodes_def ResolveNodes_def resolveExplicitNodes_def
      resolveSnapshotNodes_def resolveSelectorNodes_def ResolveOwnedNodes_def get_node_def Let_def ComputeSchedule_def
      filterPodsForDrain_def buildPDBIssues_def namespace_issues_def
    by (intro fixed.obeys_intros fixed_prims point; simp)+
  show "obeys plan_fixed (ReconcileOwnership E res now)" "obeys plan_fixed (ReconcileDrift E res)"
    "obeys plan_fixed (ReconcileCordon E res)" "obeys plan_fixed (CleanUp E)"
    unfolding ReconcileOwnership_def conflict_event_def adopt_one_def ReconcileDrift_def drift_node_def ReconcileCordon_def
      cordon_stable_def release_one_def CleanUp_def ResolveOwnedNodes_def clean_one_def give_back_def
    by (intro fixed.obeys_intros fixed_prims fixed_writers point; simp)+
  show "obeys plan_fixed (record_metrics g)" by (simp add: obeys_def record_metrics_def go_run plan_fixed_def trace_within_def)
  show "obeys plan_fixed (load_nodes as)" by (induction as) (auto intro!: fixed.obeys_intros fixed_prims)
qed

section \<open>The parts that write the status\<close>

text \<open>The server and the helpers as assumed above, and pod lists of a size a node can have.\<close>

locale typed_cluster = typed_helpers E for E :: "'w env" +
  assumes server: "typed_server E" and small: "small_lists E"
begin

lemmas patch_status = typed_patch_status [OF server]

lemma warn_typed: "stays_typed (warnDisappearedNodes E existing res)"
  unfolding warnDisappearedNodes_def warn_disappeared_def
  by (intro ty.keeps_intros typed_prims typed_of_fixed [OF fixed_parts(8)])

lemma scheduled_typed: "stays_typed (is_scheduled E b plan)"
  unfolding is_scheduled_def by (intro ty.keeps_intros typed_prims)

lemma not_ready_typed: "stays_typed (setNodeNotReadyCondition E statuses)"
proof -
  have "stays_typed (go_fold statuses [] (not_ready_node E b))" for b
    unfolding not_ready_node_def by (intro ty.keeps_intros typed_prims)
  moreover have "stays_typed (modify_plan (if 0 < length names
         then setCondition E ConditionNodeNotReady ''True'' ''NodeNotReady'' m1
         else setCondition E ConditionNodeNotReady ''False'' ''AllNodesReady'' m2))" for names :: "string list" and m1 m2
    using set_condition by (intro typed_modify) (auto simp: condition_table_def)
  ultimately show ?thesis unfolding setNodeNotReadyCondition_def by (intro ty.keeps_bind typed_prims)
qed

lemma UpdateStatus_typed: "stays_typed (UpdateStatus E res)"
  unfolding UpdateStatus_def Let_def
  by (intro typed_plan ty.keeps_then ty.keeps_bind warn_typed typed_prims typed_of_fixed [OF fixed_parts(8)] scheduled_typed
      not_ready_typed patch_status typed_modify)
    (auto intro!: condition_writers plain_writers typed_statuses)

lemma issues_of_preview:
  "list_all (\<lambda>i. issue_Type i \<in> set preview_issue_types \<and> PodRef i \<noteq> None) (buildConfigIssues pods)"
  by (auto simp: buildConfigIssues_def config_issue_def preview_issue_types_def pod_ref_def list_all_iff)

lemma pdb_issue_typed: "list_all (\<lambda>i. issue_Type i \<in> set preview_issue_types \<and> PodRef i \<noteq> None) (pdb_issue E pdbs pod)"
  using pdb_issue_cases [of E pdbs pod] by (auto simp: preview_issue_types_def pod_ref_def)

lemma pdb_issues_typed:
  "triple typed_pass (buildPDBIssues E pods)
     (\<lambda>iss s. typed_pass s \<and> list_all (\<lambda>i. issue_Type i \<in> set preview_issue_types \<and> PodRef i \<noteq> None) iss) typed_trace"
proof -
  let ?I = "\<lambda>iss s. typed_pass s \<and> list_all (\<lambda>i. issue_Type i \<in> set preview_issue_types \<and> PodRef i \<noteq> None) iss"
  have call: "triple (?I iss) (go_map_err g (client_call (ListPDBs ns) f)) (\<lambda>_. ?I iss) typed_trace" for iss g ns f
  proof (rule triple_map_err)
    have "stays_typed (client_call (ListPDBs ns) f)" by (rule typed_of_fixed) (simp add: fixed_prims)
    then show "triple (?I iss) (client_call (ListPDBs ns) f) (\<lambda>_. ?I iss) typed_trace"
      unfolding maintains_def by (fastforce simp: triple_def split: prod.split sum.split)
  qed
  have one: "triple (?I iss) (namespace_issues E byNS ns iss) ?I typed_trace" for byNS ns iss
    unfolding namespace_issues_def
    by (rule triple_bind [OF call], rule triple_ret) (use pdb_issue_typed in \<open>auto simp: list_all_iff\<close>)
  show ?thesis unfolding buildPDBIssues_def
    by (rule triple_if, rule triple_ret, simp, rule triple_weaken [OF triple_fold [where I = ?I, OF one]]) auto
qed

lemma preview_node_typed:
  "triple (\<lambda>s. typed_pass s \<and> int32 (fst tot) \<and> int32 (snd tot)) (preview_node E cfg now node tot)
     (\<lambda>tot s. typed_pass s \<and> int32 (fst tot) \<and> int32 (snd tot)) typed_trace"
proof -
  obtain a b where tot: "tot = (a, b)" by force
  have "triple typed_pass (go_map_err g (filterPodsForDrain E node cfg)) (\<lambda>_. typed_pass) typed_trace" for g
    using typed_of_fixed [OF fixed_parts(9)] by (intro triple_map_err) (simp add: maintains_def)
  then have filt: "triple (\<lambda>s. typed_pass s \<and> int32 (fst tot) \<and> int32 (snd tot))
      (go_map_err g (filterPodsForDrain E node cfg)) (\<lambda>_. typed_pass) typed_trace" for g
    by (rule triple_weaken) auto
  have stored: "triple (\<lambda>s. typed_pass s \<and> list_all (\<lambda>i. issue_Type i \<in> set preview_issue_types \<and> PodRef i \<noteq> None) iss)
      (modify_plan (setNodePreview (node_Name node) \<lparr>EvictableCount = len32 xs, SkippedCount = len32 ys,
         preview_Issues = buildConfigIssues zs @ iss, ComputedAt = Some now\<rparr>)) (\<lambda>_. typed_pass) typed_trace" for iss xs ys zs
    by (rule triple_fact, unfold maintains_def [symmetric], rule typed_modify, rule entry_writers(3))
      (use issues_of_preview in \<open>simp_all add: typed_preview_def\<close>)
  show ?thesis unfolding preview_node_def tot prod.case Let_def
    by (rule triple_bind [OF filt [unfolded tot]],
        rule triple_bind [OF triple_map_err [OF pdb_issues_typed]], rule triple_then [OF stored], rule triple_ret) simp
qed

lemma ReconcilePreview_typed: "stays_typed (ReconcilePreview E res)"
proof -
  have all: "triple typed_pass (go_fold nodes (0, 0) (preview_node E cfg now))
      (\<lambda>tot s. typed_pass s \<and> int32 (fst tot) \<and> int32 (snd tot)) typed_trace" for nodes cfg now
    by (rule triple_weaken [OF triple_fold [where I = "\<lambda>tot s. typed_pass s \<and> int32 (fst tot) \<and> int32 (snd tot)", OF preview_node_typed]])
      (simp_all add: int32_def)
  have totals: "stays_typed (modify_plan (\<lambda>plan. plan\<lparr>Status := (Status plan)\<lparr>TotalEvictablePods := a,
      TotalPreviewIssues := b, LastPreviewTime := Some now\<rparr>\<rparr>))" if "int32 a" "int32 b" for a b now
    by (rule typed_modify) (use that in \<open>simp add: well_typed_def\<close>)
  have run: "stays_typed (go_bind (go_fold nodes (0, 0) (preview_node E cfg now)) (\<lambda>(a, b).
      go_then (modify_plan (\<lambda>plan. plan\<lparr>Status := (Status plan)\<lparr>TotalEvictablePods := a,
         TotalPreviewIssues := b, LastPreviewTime := Some now\<rparr>\<rparr>)) (patch_plan_status E original)))" for nodes cfg now original
    unfolding maintains_def
    by (rule triple_bind [OF all], rule triple_fact, unfold maintains_def [symmetric])
      (auto intro!: ty.keeps_then totals patch_status split: prod.split)
  show ?thesis unfolding ReconcilePreview_def Let_def
    by (intro ty.keeps_bind ty.keeps_if ty.keeps_ret typed_prims typed_of_fixed [OF fixed_parts(8)] run)
qed

end

section \<open>The drain and the whole pass\<close>

context typed_cluster
begin

lemma result_typed:
  assumes out: "outcome_ok (Outcome r)"
  shows "stays_typed (apply_result E original r fl)"
proof -
  have upd: "stays_typed (modify_plan (updateNodeDrainStatus nm (Outcome r) iss))" if "list_all typed_issue iss" for nm iss
    by (intro typed_modify entry_writers(1) out that)
  have iss: "stays_typed (modify_plan (setNodeIssues nm [nodeNotReadyIssue y]))" for nm y
    by (intro typed_modify entry_writers(2)) (simp_all add: issue_lists)
  have mark: "stays_typed (go_bind get_plan (\<lambda>plan. case markNodeReadyForMaintenance nm plan of (plan', b) \<Rightarrow>
      go_then (modify_plan (\<lambda>_. plan')) (f b)))" if "\<And>b. stays_typed (f b)" for nm and f :: "bool \<Rightarrow> ('w, drain_flags) op"
    by (rule typed_plan, rule ty.keeps_prod, intro ty.keeps_then typed_modify that) (rule entry_writers(4))
  show ?thesis
    unfolding apply_result_def result_drained_def result_evicting_def result_stuck_def result_not_ready_def
      result_blocked_def result_error_def Let_def
    by (intro mark ty.keeps_intros typed_prims upd iss) (simp_all add: issue_lists)
qed

lemma conclusions_typed:
  "stays_typed (conclude_drain E original fl)" "stays_typed (abort_drain E original minutes)"
  unfolding conclude_drain_def abort_drain_def
  by (intro ty.keeps_intros typed_prims patch_status typed_modify plain_writers condition_writers; assumption)+

lemma applyDrainResults_typed:
  assumes "\<forall>r \<in> set results. outcome_ok (Outcome r)"
  shows "stays_typed (applyDrainResults E results)"
proof -
  have loop: "stays_typed (go_fold results fl (apply_result E original))" for original fl
    by (rule ty.keeps_fold, rule result_typed) (use assms in blast)
  show ?thesis unfolding applyDrainResults_def
    by (intro ty.keeps_bind ty.keeps_then ty.keeps_when ty.keeps_option typed_prims loop typed_modify plain_writers
        conclusions_typed; assumption)
qed

lemma drainNodes_typed:
  assumes "getDrainConfig plan = Some cfg"
  shows "triple typed_pass (drainNodes E plan nodes (max_parallel plan))
    (\<lambda>results s. typed_pass s \<and> (\<forall>r \<in> set results. outcome_ok (Outcome r))) typed_trace"
  unfolding triple_def
proof (intro allI impI)
  fix s :: "'w st" assume s: "typed_pass s"
  obtain results t where run: "drainNodes E plan nodes (max_parallel plan) s = (Inr results, t)" "same_pass s t"
    "trace_within (pool_call_ok nodes cfg) s t" "\<forall>r \<in> set results. outcome_ok (Outcome r)"
    using drainNodes_run [where E = E and nodes = nodes and s = s, OF max_parallel_pos assms] small by blast
  have "typed_call c" if "pool_call_ok nodes cfg c" for c
    using that by (cases c) (auto simp: pool_call_ok_def)
  then have "trace_within typed_call s t" by (rule trace_within_mono [OF run(3)])
  then have "typed_pass t" using s run(2)
    by (auto simp: typed_pass_def typed_trace_def same_pass_def trace_within_def list_all_iff)
  with run(1,4) show "case drainNodes E plan nodes (max_parallel plan) s of (Inl e, t) \<Rightarrow> typed_trace t
      | (Inr results, s) \<Rightarrow> typed_pass s \<and> (\<forall>r \<in> set results. outcome_ok (Outcome r))"
    by simp
qed

lemma split_stable_ok:
  "split_stable since nodes acc = (results, rest) \<Longrightarrow> \<forall>r \<in> set (fst acc). outcome_ok (Outcome r) \<Longrightarrow>
   \<forall>r \<in> set results. outcome_ok (Outcome r)"
  by (induction since nodes acc rule: split_stable.induct) (auto simp: zero_outcome_ok split: if_splits)

lemma ReconcileDrain_typed: "stays_typed (ReconcileDrain E res)"
proof -
  have rest: "stays_typed (go_bind (drainNodes E plan nodes (max_parallel plan)) (\<lambda>drained. applyDrainResults E (results @ drained)))"
    if "getDrainConfig plan = Some cfg" "\<forall>r \<in> set results. outcome_ok (Outcome r)" for plan cfg nodes results
    unfolding maintains_def
    by (rule triple_bind [OF drainNodes_typed [OF that(1)]], rule triple_fact, unfold maintains_def [symmetric],
        rule applyDrainResults_typed) (use that(2) in auto)
  show ?thesis unfolding ReconcileDrain_def
    by (intro ty.keeps_bind ty.keeps_option ty.keeps_if ty.keeps_ret ty.keeps_prod typed_prims typed_of_fixed [OF fixed_parts(8)] rest)
      (use split_stable_ok in \<open>auto dest!: split_stable_ok\<close>)
qed

lemma patch_plan_typed:
  assumes "\<And>p. well_typed p \<Longrightarrow> well_typed (f p)"
  shows "stays_typed (patch_plan E f)"
  unfolding patch_plan_def
proof (rule typed_plan)
  fix plan :: Plan assume plan: "well_typed plan"
  have call: "triple typed_pass (client_call (PatchPlan plan (f plan)) (k_patchPlan E plan (f plan)))
      (\<lambda>p s. typed_pass s \<and> well_typed p) typed_trace"
  proof (rule triple_client_call)
    fix s p w assume s: "typed_pass s" and patch: "k_patchPlan E plan (f plan) (st_world s) = (Inr p, w)"
    have "well_typed p" using server assms [OF plan] patch unfolding typed_server_def by blast
    with s show "typed_pass (s\<lparr>st_world := w, st_trace := st_trace s @ [PatchPlan plan (f plan)]\<rparr>) \<and> well_typed p"
      by (simp add: typed_pass_def)
  qed (simp add: typed_pass_def)
  have store: "triple (\<lambda>s. typed_pass s \<and> well_typed p) (modify_plan (\<lambda>_. p)) (\<lambda>_. typed_pass) typed_trace" for p
    by (rule triple_modify_plan) (simp add: typed_pass_def typed_trace_def)
  show "stays_typed (go_then (modify_plan f)
      (go_bind (client_call (PatchPlan plan (f plan)) (k_patchPlan E plan (f plan))) (\<lambda>plan. modify_plan (\<lambda>_. plan))))"
    by (rule ty.keeps_then [OF typed_modify], rule assms, assumption, unfold maintains_def, rule triple_bind [OF call], rule store)
qed

lemma live_typed: "stays_typed (reconcile_live E)"
proof -
  have fin: "stays_typed (ensureFinalizer E)"
    unfolding ensureFinalizer_def by (intro ty.keeps_bind ty.keeps_if ty.keeps_ret typed_prims patch_plan_typed plain_writers; assumption)
  show ?thesis unfolding reconcile_live_def Let_def
    by (intro ty.keeps_intros fin typed_of_fixed [OF fixed_parts(1)] typed_of_fixed [OF fixed_parts(2)]
        typed_of_fixed [OF fixed_parts(3)] typed_of_fixed [OF fixed_parts(4)] typed_of_fixed [OF fixed_parts(5)]
        typed_of_fixed [OF fixed_parts(7)] UpdateStatus_typed ReconcilePreview_typed ReconcileDrain_typed)
qed

lemma deletion_typed: "triple typed_pass (handleDeletion E) (\<lambda>_. typed_trace) typed_trace"
proof -
  have sends: "triple typed_trace (patch_plan E f) (\<lambda>_. typed_trace) typed_trace" for f
    by (auto simp: triple_def patch_plan_def go_bind_def go_then_def go_run client_call_def typed_trace_def
        split: prod.split sum.split)
  have clean: "triple typed_pass (CleanUp E) (\<lambda>_. typed_trace) typed_trace"
    using typed_of_fixed [OF fixed_parts(6), of E] unfolding maintains_def
    by (rule triple_weaken) (auto intro: typed_pass_trace)
  have metrics: "triple typed_trace (record_metrics g) (\<lambda>_. typed_trace) typed_trace" for g
    unfolding record_metrics_def by (rule triple_modify) (simp add: typed_trace_def)
  show ?thesis unfolding handleDeletion_def
    by (rule triple_bind [OF triple_get_plan], assumption, rule triple_if, rule triple_ret, erule typed_pass_trace,
        rule triple_then [OF clean], rule triple_then [OF metrics], rule triple_bind [OF triple_try_inv [OF sends]])
      (auto intro!: triple_raise triple_ret split: sum.split)
qed

lemma pass_typed:
  assumes start: "typed_trace s" and run: "Reconcile E name s = (r, t)"
  shows "typed_trace t"
proof -
  obtain a w where get: "k_getPlan E name (st_world s) = (a, w)" by force
  show ?thesis
  proof (cases a)
    case (Inl e)
    then show ?thesis
      using run start get by (auto simp: Reconcile_def go_try_bind client_call_def go_run typed_trace_def split: if_splits)
  next
    case (Inr p)
    let ?u = "s\<lparr>st_world := w, st_trace := st_trace s @ [GetPlan name], st_plan := p\<rparr>"
    have "well_typed p" using server get Inr unfolding typed_server_def by blast
    then have u: "typed_pass ?u" using start by (auto simp: typed_pass_def typed_trace_def)
    have "triple typed_pass (if c then go_then (handleDeletion E) (go_ret 0) else reconcile_live E) (\<lambda>_. typed_trace) typed_trace" for c
      by (intro triple_if triple_then [OF deletion_typed triple_ret] triple_weaken [OF live_typed [unfolded maintains_def]])
        (auto intro: typed_pass_trace)
    moreover have "(if plan_DeletionTimestamp p \<noteq> None then go_then (handleDeletion E) (go_ret 0) else reconcile_live E) ?u = (r, t)"
      using run Reconcile_found [of E name s p w] get Inr by simp
    ultimately show ?thesis using u tripleD_state by (metis snd_conv triple_weaken typed_pass_trace)
  qed
qed

end

section \<open>Properties\<close>


text \<open>A cluster without pods that serves one plan.\<close>

definition typed_env :: "cluster env" where
  "typed_env = memory_env\<lparr>k_getPlan := \<lambda>nm w. (if nm = ''p'' then Inr later_plan else Inl (ApiError ReasonNotFound), w),
     k_listPods := \<lambda>nm w. (Inr [], w)\<rparr>"

lemma set_cond_types: "c_Type ` set (set_cond cs c) = insert (c_Type c) (c_Type ` set cs)"
  by (induction cs) auto

lemma typed_env_laws:
  "condition_laws typed_env" "one_per_type typed_env" "typed_server typed_env" "small_lists typed_env"
proof -
  show "condition_laws typed_env" by (rule set_cond_laws) (simp_all add: typed_env_def memory_env_def)
  have "distinct (map c_Type (set_cond cs c))" if "distinct (map c_Type cs)" for cs c
    using that by (induction cs) (auto simp: set_cond_types)
  then show "one_per_type typed_env" by (simp add: one_per_type_def typed_env_def memory_env_def)
  have "well_typed later_plan"
    by (simp add: well_typed_def later_plan_def example_plan_def empty_status_def typed_conditions_def int32_def)
  then show "typed_server typed_env" by (auto simp: typed_server_def typed_env_def memory_env_def split: if_splits)
  show "small_lists typed_env" by (simp add: small_lists_def typed_env_def max_pods_def)
qed

interpretation kept_helpers: typed_helpers typed_env
  by unfold_locales (rule typed_env_laws)+

interpretation kept_cluster: typed_cluster typed_env
  by unfold_locales (rule typed_env_laws)+

text \<open>A pass whose resolution and adoptions succeed does send its status.\<close>

definition up_to_status :: "'w env \<Rightarrow> ('w, OwnershipResolution) op" where
  "up_to_status E = go_then (ensureFinalizer E)
     (go_bind (ComputeOwnershipResolution E) (\<lambda>res. go_bind (ComputeSchedule E) (\<lambda>schedule.
        go_then (ReconcileOwnership E res (ShouldAct (ps_Cordon schedule))) (go_ret res))))"

lemma rest_appends:
  fixes E :: "'w env"
  shows "obeys (trace_within (\<lambda>_. True)) (ReconcilePreview E res)" "obeys (trace_within (\<lambda>_. True)) (ReconcileDrift E res)"
  "obeys (trace_within (\<lambda>_. True)) (ReconcileCordon E res)" "obeys (trace_within (\<lambda>_. True)) (ReconcileDrain E res)"
  "obeys (trace_within (\<lambda>_. True)) (record_metrics g :: ('w, unit) op)"
proof -
  show "obeys (trace_within (\<lambda>_. True)) (ReconcilePreview E res)" by (rule pass_trace.obeys_ReconcilePreview) simp
  show "obeys (trace_within (\<lambda>_. True)) (ReconcileDrain E res)" by (rule pass_trace.obeys_ReconcileDrain) simp_all
  have weaken: "obeys plan_fixed m \<Longrightarrow> obeys (trace_within (\<lambda>_. True)) m" for m :: "('w, unit) op"
    by (erule obeys_mono) (auto simp: plan_fixed_def trace_within_def list_all_iff)
  show "obeys (trace_within (\<lambda>_. True)) (ReconcileDrift E res)" by (rule weaken [OF fixed_parts(4)])
  show "obeys (trace_within (\<lambda>_. True)) (ReconcileCordon E res)" by (rule weaken [OF fixed_parts(5)])
  show "obeys (trace_within (\<lambda>_. True)) (record_metrics g :: ('w, unit) op)" by (rule weaken [OF fixed_parts(7)])
qed

lemma status_is_sent:
  assumes prefix: "up_to_status E s = (Inr res, u)"
    and heap: "\<forall>a \<in> set (res_All res @ ToRelease res). st_heap u a \<noteq> None"
  shows "\<exists>p. PatchPlanStatus (st_plan u) p \<in> set (st_trace (snd (reconcile_live E s)))"
proof -
  obtain s1 s2 sch s3 where run: "ensureFinalizer E s = (Inr (), s1)" "ComputeOwnershipResolution E s1 = (Inr res, s2)"
    "ComputeSchedule E s2 = (Inr sch, s3)" "ReconcileOwnership E res (ShouldAct (ps_Cordon sch)) s3 = (Inr (), u)"
    using prefix by (auto simp: up_to_status_def go_Inr go_ret_def)
  obtain r v where upd: "UpdateStatus E res u = (r, v)" by force
  have "triple (sits (st_plan u) (st_heap u) (st_trace u)) (UpdateStatus E res)
      (\<lambda>_. status_patched E res (st_plan u) (st_heap u) (st_trace u)) (status_patched E res (st_plan u) (st_heap u) (st_trace u))"
    by (rule UpdateStatus_run) (use heap in blast)
  from tripleD_state [OF this, of u] upd have "status_patched E res (st_plan u) (st_heap u) (st_trace u) v"
    by (simp add: sits_def)
  then obtain p where "st_trace v = st_trace u @ [PatchPlanStatus (st_plan u) p]" unfolding status_patched_def by blast
  then have "PatchPlanStatus (st_plan u) p \<in> set (st_trace v)" by simp
  moreover have "set (st_trace v) \<subseteq> set (st_trace (snd (reconcile_live E s)))"
  proof -
    define rest where "rest = go_then (ReconcilePreview E res) (go_then (ReconcileDrift E res)
      (go_then (go_when (ShouldAct (ps_Cordon sch)) (ReconcileCordon E res))
      (go_bind (if ShouldAct (ps_Drain sch) then ReconcileDrain E res else go_ret 0) (\<lambda>drainRequeue.
       let requeueAfter = (if drainRequeue \<noteq> 0 then drainRequeue else ps_RequeueAfter sch) in
       go_then (record_metrics RecordPlan) (go_ret requeueAfter)))))"
    have "obeys (trace_within (\<lambda>_. True)) rest"
      unfolding rest_def Let_def by (intro tr.obeys_intros rest_appends)
    moreover have "reconcile_live E s = go_then (UpdateStatus E res) rest u"
      using run by (simp add: reconcile_live_def rest_def go_then_def go_bind_def)
    ultimately have "trace_within (\<lambda>_. True) v (snd (reconcile_live E s))"
      using upd by (cases r) (auto simp: go_then_def go_bind_def obeys_def tr.R_refl)
    then show ?thesis by (auto simp: trace_within_def)
  qed
  ultimately show ?thesis by blast
qed


end
