(* ===== verification/Status_Limits.thy ===== *)
theory Status_Limits
  imports Status_Types
begin

text \<open>
  A limit of the schema the code does not look at: a condition's message may have 32768
  characters. The messages of \<open>DriftDetected\<close> and \<open>NodeNotReady\<close> list the names of all nodes
  concerned, so with many nodes the API server refuses the status patch, and with it the pass
  ends before it acts on the drift.
\<close>

section \<open>Definitions\<close>

definition max_message :: nat where "max_message = 32768"

definition enforces_message_limit :: "'w env \<Rightarrow> bool" where
  "enforces_message_limit E \<longleftrightarrow> (\<forall>o1 m w p w'. k_patchPlanStatus E o1 m w = (Inr p, w') \<longrightarrow>
     (\<forall>c \<in> set (Conditions (Status m)). length (c_Message c) \<le> max_message))"

text \<open>Whether the status of this pass reports the node as drifted.\<close>

definition drift_shown :: "Plan \<Rightarrow> Node \<Rightarrow> bool" where
  "drift_shown plan node = ns_Drifted (node_status [] plan 0 node)"

section \<open>Lemmas\<close>

lemma length_join: "sum_list (map length xs) \<le> length (join sep xs)"
  by (induction sep xs rule: join.induct) auto

lemma drifted_names_of:
  "drifted_names (buildNodeStatuses existing nodes plan now) = map node_Name (filter (drift_shown plan) nodes)"
proof -
  have name: "ns_Name (node_status existing plan now node) = node_Name node" for node
    by (simp add: node_status_def Let_def)
  have drift: "ns_Drifted (node_status existing plan now node) = drift_shown plan node" for node
    by (simp add: node_status_def drift_shown_def Let_def)
  show ?thesis by (simp add: drifted_names_def buildNodeStatuses_def filter_map o_def name drift)
qed

text \<open>The drift condition of the status sent: later writers leave it as it is.\<close>

lemma find_after_write:
  assumes "condition_laws E" "writes_condition E c b f" "c \<noteq> c'"
  shows "find_cond (Conditions (Status (f p))) c' = find_cond (Conditions (Status p)) c'"
proof -
  obtain r m where "f p = setCondition E c (if b then ''True'' else ''False'') r m p"
    using assms(2) unfolding writes_condition_def by blast
  then show ?thesis using assms(1,3) by (simp add: setCondition_def condition_laws_def)
qed

lemma find_after_set:
  assumes "condition_laws E"
  shows "\<exists>d. find_cond (Conditions (Status (setCondition E c st r m p))) c = Some d \<and> c_Message d = m"
proof -
  define x where "x = \<lparr>c_Type = c, c_Status = st, c_ObservedGeneration = Generation p,
    c_Reason = r, c_Message = m, c_LastTransitionTime = 0\<rparr>"
  obtain d where "find_cond (k_SetStatusCondition E (Conditions (Status p)) x) (c_Type x) = Some d" "same_condition d x"
    using assms unfolding condition_laws_def by blast
  then show ?thesis by (auto simp: setCondition_def x_def same_condition_def)
qed

lemma drift_message:
  assumes L: "condition_laws E" and w: "writes_condition E ConditionNodeNotReady b f" and names: "drifted_names statuses \<noteq> []"
  shows "\<exists>d \<in> set (Conditions (Status (status_sent E res plan statuses sch f))).
    c_Message d = show_int (int (length (drifted_names statuses))) @ '' node(s) drifted: '' @ join '', '' (drifted_names statuses)"
proof -
  let ?m = "show_int (int (length (drifted_names statuses))) @ '' node(s) drifted: '' @ join '', '' (drifted_names statuses)"
  have drift: "\<exists>d. find_cond (Conditions (Status (set_drift E statuses p))) ConditionDriftDetected = Some d \<and> c_Message d = ?m" for p
    using find_after_set [OF L] names by (simp add: set_drift_def Let_def)
  have "\<exists>d. find_cond (Conditions (Status (status_sent E res plan statuses sch f))) ConditionDriftDetected = Some d \<and> c_Message d = ?m"
    unfolding status_sent_def snapshot_frame recompute_frame by (subst find_after_write [OF L w], simp, rule drift)
  then show ?thesis using find_cond_in by blast
qed

section \<open>Properties\<close>


text \<open>130 nodes with names of 253 characters, the longest Kubernetes allows, that somebody uncordoned.\<close>

definition long_name :: "nat \<Rightarrow> string" where
  "long_name i = replicate 250 CHR ''n'' @ [char_of (48 + i div 100), char_of (48 + i div 10 mod 10), char_of (48 + i mod 10)]"

definition long_names :: "string list" where
  "long_names = map long_name [0..<130]"

definition uncordoned_node :: "string \<Rightarrow> Node" where
  "uncordoned_node nm = (example_node nm)\<lparr>
     Annotations := Some [(ManagedByAnnotation, ''p''), (CordonedAnnotation, ''true'')]\<rparr>"

definition strict_env :: "cluster env" where
  "strict_env = memory_env\<lparr>k_patchPlanStatus := \<lambda>o1 m w.
     (if list_all (\<lambda>c. length (c_Message c) \<le> max_message) (Conditions (Status m)) then Inr m
      else Inl (ApiError (ReasonOther ''Invalid'')), w)\<rparr>"

lemma uncordoned_shown: "drift_shown (example_plan ''p'' []) (uncordoned_node nm)"
  by (simp add: drift_shown_def node_status_def Let_def DetectNodeDrift_def uncordoned_node_def example_node_def mget_def
      cordonEnabled_def example_plan_def example_spec_def empty_status_def)

lemma long_names_total: "sum_list (map (\<lambda>n. length (node_Name n)) (map uncordoned_node long_names)) = 130 * 253"
proof -
  have "length (node_Name (uncordoned_node (long_name i))) = 253" for i
    by (simp add: uncordoned_node_def example_node_def long_name_def)
  then show ?thesis by (simp add: long_names_def o_def sum_list_triv)
qed


end
