(* ===== verification/Go_Memory.thy ===== *)
theory Go_Memory
  imports Prelude
begin

text \<open>
  Memory, for the code that is about sharing: the generated deep copies. Elsewhere the model
  treats a copy as the value itself; here a struct is what the program holds (flat fields and
  addresses), a memory is a list of cells, and allocating appends one. What a struct means is
  its view: the value read by following the addresses, with the set of cells read (its
  footprint). The locale \<open>copier\<close> is the contract of a deep copy: it only allocates, the copy
  views as the same value, and its footprint is new. From it follows, once, that original and
  copy never affect each other; and pointers, slices, pairs and structs of copied parts are
  copiers again.
\<close>

section \<open>Definitions\<close>

type_synonym addr = nat

text \<open>A read through a dangling address, which Go excludes.\<close>

datatype panic = InvalidAddress

text \<open>How a type lies in a cell.\<close>

record ('c, 'r) kind =
  inj :: "'r \<Rightarrow> 'c"
  prj :: "'c \<Rightarrow> 'r option"

definition lawful :: "('c, 'r) kind \<Rightarrow> bool" where
  "lawful K \<longleftrightarrow> (\<forall>x. prj K (inj K x) = Some x)"

definition go_new :: "('c, 'r) kind \<Rightarrow> 'r \<Rightarrow> ('c list, panic, addr) go" where
  "go_new K x h = (Inr (length h), h @ [inj K x])"

definition go_load :: "('c, 'r) kind \<Rightarrow> addr \<Rightarrow> ('c list, panic, 'r) go" where
  "go_load K a h = (case (if a < length h then prj K (h ! a) else None) of
     None \<Rightarrow> (Inl InvalidAddress, h) | Some x \<Rightarrow> (Inr x, h))"

text \<open>What a program does to its memory: assignments through addresses, and allocations.\<close>

datatype 'c mem_step = Assign addr 'c | Allocate 'c

fun mem_run :: "'c mem_step list \<Rightarrow> 'c list \<Rightarrow> 'c list" where
  "mem_run [] h = h"
| "mem_run (Assign a c # ws) h = mem_run ws (h[a := c])"
| "mem_run (Allocate c # ws) h = mem_run ws (h @ [c])"

fun assigned :: "'c mem_step list \<Rightarrow> addr set" where
  "assigned [] = {}"
| "assigned (Assign a c # ws) = insert a (assigned ws)"
| "assigned (Allocate c # ws) = assigned ws"

text \<open>\<open>for i := range *in { (*in)[i].DeepCopyInto(&(*out)[i]) }\<close>\<close>

fun go_map :: "('a \<Rightarrow> ('s, 'e, 'b) go) \<Rightarrow> 'a list \<Rightarrow> ('s, 'e, 'b list) go" where
  "go_map f [] = go_ret []"
| "go_map f (x # xs) = go_bind (f x) (\<lambda>y. go_bind (go_map f xs) (\<lambda>ys. go_ret (y # ys)))"

text \<open>A slice header: the array, where in it the slice starts, and its length; nil is \<open>None\<close>.\<close>

type_synonym slice = "(addr \<times> nat \<times> nat) option"

definition unless_nil :: "'a option \<Rightarrow> ('a \<Rightarrow> ('s, 'e, 'a) go) \<Rightarrow> ('s, 'e, 'a option) go" where
  "unless_nil p f = (case p of None \<Rightarrow> go_ret None | Some a \<Rightarrow> go_bind (f a) (\<lambda>b. go_ret (Some b)))"

text \<open>
  \<open>*out = new(T); (*in).DeepCopyInto(*out)\<close>, and \<open>*out = make([]T, len(*in))\<close> with the loop
  over its elements. The cell is allocated with what it holds in the end.
\<close>

definition copy_new :: "('c, 'r) kind \<Rightarrow> ('r \<Rightarrow> ('c list, panic, 'r) go) \<Rightarrow> addr \<Rightarrow> ('c list, panic, addr) go" where
  "copy_new K into a = go_bind (go_load K a) (\<lambda>x. go_bind (into x) (go_new K))"

definition copy_array :: "('c, 'r list) kind \<Rightarrow> ('r \<Rightarrow> ('c list, panic, 'r) go) \<Rightarrow> addr \<times> nat \<times> nat \<Rightarrow> ('c list, panic, addr \<times> nat \<times> nat) go" where
  "copy_array K into sl = (case sl of (a, off, n) \<Rightarrow>
     go_bind (go_load K a) (\<lambda>xs. go_bind (go_map into (take n (drop off xs))) (\<lambda>ys.
     go_bind (go_new K ys) (\<lambda>b. go_ret (b, 0, n)))))"

definition copy_pair :: "('r \<Rightarrow> ('s, 'e, 'r) go) \<Rightarrow> ('t \<Rightarrow> ('s, 'e, 't) go) \<Rightarrow> 'r \<times> 't \<Rightarrow> ('s, 'e, 'r \<times> 't) go" where
  "copy_pair c d p = go_bind (c (fst p)) (\<lambda>a. go_bind (d (snd p)) (\<lambda>b. go_ret (a, b)))"

subsection \<open>Views\<close>

type_synonym ('c, 'v) sight = "'c list \<Rightarrow> ('v \<times> addr set) option"

definition sight_ret :: "'v \<Rightarrow> ('c, 'v) sight" where
  "sight_ret v h = Some (v, {})"

definition sight_fail :: "('c, 'v) sight" where
  "sight_fail h = None"

definition sight_bind :: "('c, 'v) sight \<Rightarrow> ('v \<Rightarrow> ('c, 'w) sight) \<Rightarrow> ('c, 'w) sight" where
  "sight_bind m f h = (case m h of None \<Rightarrow> None
     | Some (v, A) \<Rightarrow> (case f v h of None \<Rightarrow> None | Some (w, B) \<Rightarrow> Some (w, A \<union> B)))"

definition sight_map :: "('v \<Rightarrow> 'w) \<Rightarrow> ('c, 'v) sight \<Rightarrow> ('c, 'w) sight" where
  "sight_map f m = sight_bind m (\<lambda>v. sight_ret (f v))"

definition peek :: "('c, 'r) kind \<Rightarrow> addr \<Rightarrow> ('c, 'r) sight" where
  "peek K a h = (if a < length h then map_option (\<lambda>x. (x, {a})) (prj K (h ! a)) else None)"

fun sight_list :: "('r \<Rightarrow> ('c, 'v) sight) \<Rightarrow> 'r list \<Rightarrow> ('c, 'v list) sight" where
  "sight_list view [] = sight_ret []"
| "sight_list view (x # xs) = sight_bind (view x) (\<lambda>v. sight_map ((#) v) (sight_list view xs))"

definition sight_pair :: "('r \<Rightarrow> ('c, 'v) sight) \<Rightarrow> ('t \<Rightarrow> ('c, 'w) sight) \<Rightarrow> 'r \<times> 't \<Rightarrow> ('c, 'v \<times> 'w) sight" where
  "sight_pair f g p = sight_bind (f (fst p)) (\<lambda>v. sight_map (Pair v) (g (snd p)))"

definition sight_option :: "('r \<Rightarrow> ('c, 'v) sight) \<Rightarrow> 'r option \<Rightarrow> ('c, 'v option) sight" where
  "sight_option view p = (case p of None \<Rightarrow> sight_ret None | Some x \<Rightarrow> sight_map Some (view x))"

definition at_addr :: "('c, 'r) kind \<Rightarrow> ('r \<Rightarrow> ('c, 'v) sight) \<Rightarrow> addr \<Rightarrow> ('c, 'v) sight" where
  "at_addr K view a = sight_bind (peek K a) view"

definition in_array :: "('c, 'r list) kind \<Rightarrow> ('r \<Rightarrow> ('c, 'v) sight) \<Rightarrow> addr \<times> nat \<times> nat \<Rightarrow> ('c, 'v list) sight" where
  "in_array K view sl = (case sl of (a, off, n) \<Rightarrow> sight_bind (peek K a) (\<lambda>xs.
     if off + n \<le> length xs then sight_list view (take n (drop off xs)) else sight_fail))"

text \<open>A nil slice and an empty one view alike.\<close>

definition at_slice :: "('c, 'r list) kind \<Rightarrow> ('r \<Rightarrow> ('c, 'v) sight) \<Rightarrow> slice \<Rightarrow> ('c, 'v list) sight" where
  "at_slice K view sl = sight_map (\<lambda>vs. case vs of None \<Rightarrow> [] | Some vs \<Rightarrow> vs) (sight_option (in_array K view) sl)"

section \<open>The contract of a deep copy\<close>

locale viewer =
  fixes view :: "'r \<Rightarrow> 'c list \<Rightarrow> ('v \<times> addr set) option"
  assumes inside: "view x h = Some (v, A) \<Longrightarrow> A \<subseteq> {..<length h}"
    and local: "view x h = Some (v, A) \<Longrightarrow> (\<And>a. a \<in> A \<Longrightarrow> a < length g \<and> g ! a = h ! a) \<Longrightarrow> view x g = Some (v, A)"
begin

lemma kept_append:
  assumes "view x h = Some (v, A)"
  shows "view x (h @ k) = Some (v, A)"
  by (rule local [OF assms]) (use inside [OF assms] in \<open>auto simp: nth_append\<close>)

end

locale copier = viewer view for view :: "'r \<Rightarrow> 'c list \<Rightarrow> ('v \<times> addr set) option" +
  fixes copy :: "'r \<Rightarrow> ('c list, panic, 'r) go"
  assumes copied: "view x h = Some (v, A) \<Longrightarrow>
    \<exists>y k B. copy x h = (Inr y, h @ k) \<and> view y (h @ k) = Some (v, B) \<and> B \<subseteq> {length h..<length (h @ k)}"

lemma mem_run_length: "length h \<le> length (mem_run ws h)"
  by (induction ws h rule: mem_run.induct) simp_all

lemma mem_run_nth: "a \<notin> assigned ws \<Longrightarrow> a < length h \<Longrightarrow> mem_run ws h ! a = h ! a"
  by (induction ws h rule: mem_run.induct) (auto simp: nth_append)

context viewer
begin

lemma kept_run:
  assumes "view x h = Some (v, A)" and ws: "assigned ws \<inter> A = {}"
  shows "view x (mem_run ws h) = Some (v, A)"
proof (rule local [OF assms(1)])
  fix a assume a: "a \<in> A"
  then have "a < length h" "a \<notin> assigned ws" using inside [OF assms(1)] ws by blast+
  then show "a < length (mem_run ws h) \<and> mem_run ws h ! a = h ! a"
    using mem_run_length [of h ws] by (simp add: mem_run_nth)
qed

end

context copier
begin

text \<open>
  Original and copy are apart: both view as the value; no assignment to what the original
  reaches, or to any cell that was there before, is seen through the copy; none to what the
  copy reaches is seen through the original.
\<close>

lemma isolated:
  assumes "view x h = Some (v, A)"
  shows "\<exists>y k B. copy x h = (Inr y, h @ k) \<and> A \<subseteq> {..<length h} \<and> B \<subseteq> {length h..<length (h @ k)} \<and>
    view x (h @ k) = Some (v, A) \<and> view y (h @ k) = Some (v, B) \<and>
    (\<forall>ws. assigned ws \<inter> B = {} \<longrightarrow> view y (mem_run ws (h @ k)) = Some (v, B)) \<and>
    (\<forall>ws. assigned ws \<inter> A = {} \<longrightarrow> view x (mem_run ws (h @ k)) = Some (v, A))"
proof -
  obtain y k B where c: "copy x h = (Inr y, h @ k)" "view y (h @ k) = Some (v, B)" "B \<subseteq> {length h..<length (h @ k)}"
    using copied [OF assms] by blast
  note o = kept_append [OF assms, of k]
  show ?thesis
    by (intro exI [of _ y] exI [of _ k] exI [of _ B] conjI allI impI inside [OF assms] c o
        kept_run [OF o] kept_run [OF c(2)])
qed

end

section \<open>Views are local\<close>

definition steady :: "('c, 'v) sight \<Rightarrow> bool" where
  "steady m \<longleftrightarrow> (\<forall>h v A. m h = Some (v, A) \<longrightarrow> A \<subseteq> {..<length h} \<and>
     (\<forall>g. (\<forall>a \<in> A. a < length g \<and> g ! a = h ! a) \<longrightarrow> m g = Some (v, A)))"

lemma viewer_steady: "viewer view \<longleftrightarrow> (\<forall>x. steady (view x))"
  unfolding viewer_def steady_def by blast

lemma sight_bind_Some:
  "sight_bind m f h = Some (w, C) \<longleftrightarrow> (\<exists>v A B. m h = Some (v, A) \<and> f v h = Some (w, B) \<and> C = A \<union> B)"
  by (auto simp: sight_bind_def split: option.splits)

lemma sight_map_Some: "sight_map f m h = Some (w, A) \<longleftrightarrow> (\<exists>v. m h = Some (v, A) \<and> w = f v)"
  by (auto simp: sight_map_def sight_bind_Some sight_ret_def)

lemma peek_Some: "peek K a h = Some (x, A) \<longleftrightarrow> a < length h \<and> prj K (h ! a) = Some x \<and> A = {a}"
  by (auto simp: peek_def)

lemma steady_ret: "steady (sight_ret v)"
  by (simp add: steady_def sight_ret_def)

lemma steady_fail: "steady sight_fail"
  by (simp add: steady_def sight_fail_def)

lemma steady_peek: "steady (peek K a)"
  by (simp add: steady_def peek_Some)

lemma steady_bind:
  assumes m: "steady m" and f: "\<And>v. steady (f v)"
  shows "steady (sight_bind m f)"
  unfolding steady_def sight_bind_Some
proof (intro allI impI, elim exE conjE)
  fix h w C v A B
  assume r: "m h = Some (v, A)" "f v h = Some (w, B)" "C = A \<union> B"
  have "A \<subseteq> {..<length h}" "B \<subseteq> {..<length h}"
    using m f [of v] r unfolding steady_def by blast+
  moreover have "m g = Some (v, A)" "f v g = Some (w, B)" if "\<forall>a \<in> C. a < length g \<and> g ! a = h ! a" for g
    using m f [of v] r that unfolding steady_def by blast+
  ultimately show "C \<subseteq> {..<length h} \<and> (\<forall>g. (\<forall>a \<in> C. a < length g \<and> g ! a = h ! a) \<longrightarrow>
      (\<exists>v A B. m g = Some (v, A) \<and> f v g = Some (w, B) \<and> C = A \<union> B))"
    using r(3) by blast
qed

lemma steady_map: "steady m \<Longrightarrow> steady (sight_map f m)"
  unfolding sight_map_def by (intro steady_bind steady_ret)

lemma steady_list: "(\<And>x. steady (view x)) \<Longrightarrow> steady (sight_list view xs)"
  by (induction xs) (simp_all add: steady_ret steady_bind steady_map)

lemma steady_pair: "(\<And>x. steady (f x)) \<Longrightarrow> (\<And>x. steady (g x)) \<Longrightarrow> steady (sight_pair f g p)"
  unfolding sight_pair_def by (intro steady_bind steady_map)

lemma steady_option: "(\<And>x. steady (view x)) \<Longrightarrow> steady (sight_option view p)"
  by (simp add: sight_option_def steady_ret steady_map split: option.split)

lemma steady_addr: "(\<And>x. steady (view x)) \<Longrightarrow> steady (at_addr K view a)"
  unfolding at_addr_def by (intro steady_bind steady_peek)

lemma steady_array: "(\<And>x. steady (view x)) \<Longrightarrow> steady (in_array K view sl)"
  by (auto simp: in_array_def intro!: steady_bind steady_peek steady_list steady_fail split: prod.split)

section \<open>Parts of copiers\<close>

lemma go_monad: "go_bind (go_ret x) f = f x" "go_bind (go_bind m f) g = go_bind m (\<lambda>x. go_bind (f x) g)"
  by (auto simp: go_bind_def go_ret_def fun_eq_iff split: prod.split sum.split)

lemma copierI:
  assumes "\<And>x. steady (view x)"
    and "\<And>x h v A. view x h = Some (v, A) \<Longrightarrow>
      \<exists>y k B. copy x h = (Inr y, h @ k) \<and> view y (h @ k) = Some (v, B) \<and> B \<subseteq> {length h..<length (h @ k)}"
  shows "copier view copy"
  using assms unfolding copier_def copier_axioms_def viewer_steady by blast

lemma copier_steady: "copier view copy \<Longrightarrow> steady (view x)"
  by (simp add: copier_def viewer_steady)

lemma copier_flat: "copier (\<lambda>x. sight_ret (f x)) go_ret"
  by (rule copierI, rule steady_ret) (auto simp: sight_ret_def go_ret_def intro!: exI [of _ "[]"])

lemma copier_value: "copier sight_ret go_ret"
  using copier_flat [of "\<lambda>x. x"] .

lemma copier_map:
  assumes "copier view copy"
  shows "copier (\<lambda>x. sight_map f (view x)) copy"
  by (rule copierI, rule steady_map, rule copier_steady [OF assms])
    (use copier.copied [OF assms] in \<open>fastforce simp: sight_map_Some\<close>)

lemma copier_option:
  assumes "copier view copy"
  shows "copier (sight_option view) (\<lambda>p. unless_nil p copy)"
proof (rule copierI)
  show "steady (sight_option view p)" for p by (intro steady_option copier_steady [OF assms])
next
  fix p h v A assume view: "sight_option view p h = Some (v, A)"
  show "\<exists>y k B. unless_nil p copy h = (Inr y, h @ k) \<and> sight_option view y (h @ k) = Some (v, B) \<and> B \<subseteq> {length h..<length (h @ k)}"
  proof (cases p)
    case None
    then show ?thesis using view
      by (auto simp: sight_option_def sight_ret_def unless_nil_def go_ret_def intro!: exI [of _ "[]"])
  next
    case (Some x)
    then obtain w where "view x h = Some (w, A)" "v = Some w" using view by (auto simp: sight_option_def sight_map_Some)
    with copier.copied [OF assms] obtain y k B where "copy x h = (Inr y, h @ k)" "view y (h @ k) = Some (w, B)"
        "B \<subseteq> {length h..<length (h @ k)}" by blast
    then show ?thesis using Some \<open>v = Some w\<close>
      by (intro exI [of _ "Some y"] exI [of _ k] exI [of _ B])
        (simp add: unless_nil_def go_bind_def go_ret_def sight_option_def sight_map_Some)
  qed
qed

lemma copier_pair:
  assumes f: "copier f c" and g: "copier g d"
  shows "copier (sight_pair f g) (copy_pair c d)"
proof (rule copierI)
  show "steady (sight_pair f g p)" for p by (intro steady_pair copier_steady [OF f] copier_steady [OF g])
next
  fix p h v A assume "sight_pair f g p h = Some (v, A)"
  then obtain a b A1 A2 where v: "f (fst p) h = Some (a, A1)" "g (snd p) h = Some (b, A2)" "v = (a, b)"
    by (auto simp: sight_pair_def sight_bind_Some sight_map_Some)
  obtain y k B where y: "c (fst p) h = (Inr y, h @ k)" "f y (h @ k) = Some (a, B)" "B \<subseteq> {length h..<length (h @ k)}"
    using copier.copied [OF f v(1)] by blast
  have "g (snd p) (h @ k) = Some (b, A2)" using viewer.kept_append [OF copier.axioms(1) [OF g] v(2)] .
  then obtain z l C where z: "d (snd p) (h @ k) = (Inr z, (h @ k) @ l)" "g z ((h @ k) @ l) = Some (b, C)"
      "C \<subseteq> {length (h @ k)..<length ((h @ k) @ l)}"
    using copier.copied [OF g] by blast
  have "f y ((h @ k) @ l) = Some (a, B)" using viewer.kept_append [OF copier.axioms(1) [OF f] y(2)] .
  then have "sight_pair f g (y, z) (h @ k @ l) = Some (v, B \<union> C)"
    using z(2) v(3) by (auto simp: sight_pair_def sight_bind_Some sight_map_Some)
  moreover have "B \<union> C \<subseteq> {length h..<length (h @ k @ l)}" using y(3) z(3) by auto
  ultimately show "\<exists>y k B. copy_pair c d p h = (Inr y, h @ k) \<and>
      sight_pair f g y (h @ k) = Some (v, B) \<and> B \<subseteq> {length h..<length (h @ k)}"
    using y(1) z(1) by (intro exI [of _ "(y, z)"] exI [of _ "k @ l"] exI [of _ "B \<union> C"]) (simp add: copy_pair_def go_bind_def go_ret_def)
qed

lemma copier_list:
  assumes f: "copier f c"
  shows "copier (sight_list f) (go_map c)"
proof (rule copierI)
  show "steady (sight_list f xs)" for xs by (intro steady_list copier_steady [OF f])
next
  fix xs h v A assume "sight_list f xs h = Some (v, A)"
  then show "\<exists>ys k B. go_map c xs h = (Inr ys, h @ k) \<and> sight_list f ys (h @ k) = Some (v, B) \<and> B \<subseteq> {length h..<length (h @ k)}"
  proof (induction xs arbitrary: h v A)
    case Nil
    then show ?case by (auto simp: go_ret_def sight_ret_def intro!: exI [of _ "[]"])
  next
    case (Cons x xs)
    then obtain a b A1 A2 where v: "f x h = Some (a, A1)" "sight_list f xs h = Some (b, A2)" "v = a # b"
      by (auto simp: sight_bind_Some sight_map_Some)
    obtain y k B where y: "c x h = (Inr y, h @ k)" "f y (h @ k) = Some (a, B)" "B \<subseteq> {length h..<length (h @ k)}"
      using copier.copied [OF f v(1)] by blast
    have "viewer (sight_list f)" by (simp add: viewer_steady steady_list copier_steady [OF f])
    from viewer.kept_append [OF this v(2)] have "sight_list f xs (h @ k) = Some (b, A2)" .
    from Cons.IH [OF this] obtain zs l C where z: "go_map c xs (h @ k) = (Inr zs, (h @ k) @ l)"
        "sight_list f zs ((h @ k) @ l) = Some (b, C)" "C \<subseteq> {length (h @ k)..<length ((h @ k) @ l)}" by blast
    have "f y ((h @ k) @ l) = Some (a, B)" using viewer.kept_append [OF copier.axioms(1) [OF f] y(2)] .
    then have "sight_list f (y # zs) (h @ k @ l) = Some (v, B \<union> C)"
      using z(2) v(3) by (auto simp: sight_bind_Some sight_map_Some)
    moreover have "B \<union> C \<subseteq> {length h..<length (h @ k @ l)}" using y(3) z(3) by auto
    ultimately show ?case
      using y(1) z(1) by (intro exI [of _ "y # zs"] exI [of _ "k @ l"] exI [of _ "B \<union> C"]) (simp add: go_bind_def go_ret_def)
  qed
qed

lemma copier_new:
  assumes K: "lawful K" and f: "copier f c"
  shows "copier (at_addr K f) (copy_new K c)"
proof (rule copierI)
  show "steady (at_addr K f a)" for a by (intro steady_addr copier_steady [OF f])
next
  fix a h v A assume "at_addr K f a h = Some (v, A)"
  then obtain x A' where x: "a < length h" "prj K (h ! a) = Some x" "f x h = Some (v, A')"
    by (auto simp: at_addr_def sight_bind_Some peek_Some)
  obtain y k B where y: "c x h = (Inr y, h @ k)" "f y (h @ k) = Some (v, B)" "B \<subseteq> {length h..<length (h @ k)}"
    using copier.copied [OF f x(3)] by blast
  let ?m = "h @ k @ [inj K y]"
  have "f y ((h @ k) @ [inj K y]) = Some (v, B)" using viewer.kept_append [OF copier.axioms(1) [OF f] y(2)] .
  then have "at_addr K f (length (h @ k)) ?m = Some (v, insert (length (h @ k)) B)"
    using K by (auto simp: at_addr_def sight_bind_Some peek_Some lawful_def nth_append)
  then show "\<exists>y k B. copy_new K c a h = (Inr y, h @ k) \<and> at_addr K f y (h @ k) = Some (v, B) \<and> B \<subseteq> {length h..<length (h @ k)}"
    using x y by (intro exI [of _ "length (h @ k)"] exI [of _ "k @ [inj K y]"] exI [of _ "insert (length (h @ k)) B"])
      (auto simp: copy_new_def go_bind_def go_load_def go_new_def)
qed

lemma copier_array:
  assumes K: "lawful K" and f: "copier f c"
  shows "copier (in_array K f) (copy_array K c)"
proof (rule copierI)
  show "steady (in_array K f sl)" for sl by (intro steady_array copier_steady [OF f])
next
  fix sl h v A assume "in_array K f sl h = Some (v, A)"
  then obtain a off n xs A' where x: "sl = (a, off, n)" "a < length h" "prj K (h ! a) = Some xs" "off + n \<le> length xs"
      "sight_list f (take n (drop off xs)) h = Some (v, A')"
    by (cases sl) (auto simp: in_array_def sight_bind_Some peek_Some sight_fail_def split: if_splits)
  obtain ys k B where y: "go_map c (take n (drop off xs)) h = (Inr ys, h @ k)" "sight_list f ys (h @ k) = Some (v, B)"
      "B \<subseteq> {length h..<length (h @ k)}"
    using copier.copied [OF copier_list [OF f] x(5)] by blast
  have len: "length w = length zs" if "sight_list f zs g = Some (w, C)" for zs g w C
    using that by (induction zs arbitrary: w C) (auto simp: sight_ret_def sight_bind_Some sight_map_Some)
  have n: "length ys = n" using len [OF x(5)] len [OF y(2)] x(4) by simp
  let ?m = "h @ k @ [inj K ys]"
  have "sight_list f ys ((h @ k) @ [inj K ys]) = Some (v, B)"
    using viewer.kept_append [OF copier.axioms(1) [OF copier_list [OF f]] y(2)] .
  then have "in_array K f (length (h @ k), 0, n) ?m = Some (v, insert (length (h @ k)) B)"
    using K n by (auto simp: in_array_def sight_bind_Some peek_Some lawful_def nth_append)
  then show "\<exists>y k B. copy_array K c sl h = (Inr y, h @ k) \<and> in_array K f y (h @ k) = Some (v, B) \<and> B \<subseteq> {length h..<length (h @ k)}"
    using x y by (intro exI [of _ "(length (h @ k), 0, n)"] exI [of _ "k @ [inj K ys]"] exI [of _ "insert (length (h @ k)) B"])
      (auto simp: copy_array_def go_bind_def go_load_def go_new_def go_ret_def)
qed

lemma copier_slice:
  assumes "lawful K" "copier f c"
  shows "copier (at_slice K f) (\<lambda>sl. unless_nil sl (copy_array K c))"
  unfolding at_slice_def by (intro copier_map copier_option copier_array assms)

text \<open>
  A struct of flat fields and copied parts: the parts are taken out, copied and put back.
\<close>

lemma copier_struct:
  assumes parts: "copier f c"
    and put: "\<And>t s. get (put t s) = t" "\<And>t s v. build (put t s) v = build s v"
    and view: "\<And>s. view s = sight_map (build s) (f (get s))"
    and copy: "\<And>s. copy s = go_bind (c (get s)) (\<lambda>t. go_ret (put t s))"
  shows "copier view copy"
proof (rule copierI)
  show "steady (view s)" for s unfolding view by (intro steady_map copier_steady [OF parts])
next
  fix s h v A assume "view s h = Some (v, A)"
  then obtain w where w: "f (get s) h = Some (w, A)" "v = build s w" by (auto simp: view sight_map_Some)
  obtain t k B where t: "c (get s) h = (Inr t, h @ k)" "f t (h @ k) = Some (w, B)" "B \<subseteq> {length h..<length (h @ k)}"
    using copier.copied [OF parts w(1)] by blast
  then show "\<exists>y k B. copy s h = (Inr y, h @ k) \<and> view y (h @ k) = Some (v, B) \<and> B \<subseteq> {length h..<length (h @ k)}"
    using w(2) by (intro exI [of _ "put t s"] exI [of _ k] exI [of _ B])
      (simp add: copy view sight_map_Some go_bind_def go_ret_def put)
qed

end
