(* ===== verification/Deep_Copy.thy ===== *)
theory Deep_Copy
  imports Go_Memory Api_Types
begin

text \<open>
  \<open>api/v1alpha1/zz_generated.deepcopy.go\<close>: the deep copies of the plan's types, over a memory
  with sharing. Every operation that patches takes \<open>original := plan.DeepCopy()\<close> first, changes
  the plan in place, through pointers into its status, and hands both to \<open>client.MergeFrom\<close>;
  and every object read comes as a deep copy out of the shared cache. The rest of the
  development treats such a copy as the value itself; the theorems here are why it may.

  A struct is the record of its flat fields (kept in the value record, whose other fields are
  not looked at) and of its addresses and slices. The copies of apimachinery's types
  (\<open>metav1.Time\<close>, \<open>ObjectMeta\<close>, \<open>LabelSelector\<close>, \<open>Condition\<close>, \<open>ListMeta\<close>) are parameters.
\<close>

section \<open>Definitions\<close>

subsection \<open>The structs as they lie in memory\<close>

record s_CordonSpec =
  cordon_flat :: CordonSpec
  cordon_StartAt_ptr :: "addr option"

record s_DrainOptions =
  options_flat :: DrainOptions
  GracePeriod_ptr :: "addr option"

record s_DrainSpec =
  drain_flat :: DrainSpec
  drain_StartAt_ptr :: "addr option"
  Options_ptr :: "addr option"
  TimeoutMinutes_ptr :: "addr option"

record s_NodeIssue =
  issue_flat :: NodeIssue
  PodRef_ptr :: "addr option"

record s_NodeDrainPreview =
  preview_flat :: NodeDrainPreview
  preview_Issues_slice :: slice
  ComputedAt_ptr :: "addr option"

record s_NodeStatus =
  ns_flat :: NodeStatus
  CordonedAt_ptr :: "addr option"
  DrainPreview_ptr :: "addr option"
  Issues_slice :: slice
  NotReadySince_ptr :: "addr option"

record s_PlanSpec =
  spec_flat :: PlanSpec
  spec_Nodes_slice :: slice
  NodeSelector_ptr :: "addr option"
  Cordon_ptr :: "addr option"
  Drain_ptr :: "addr option"

record s_PlanStatus =
  status_flat :: PlanStatus
  ResolvedNodes_slice :: slice
  Conditions_slice :: slice
  status_Nodes_slice :: slice
  DrainStartedAt_ptr :: "addr option"
  LastPreviewTime_ptr :: "addr option"
  Drifted_ptr :: "addr option"

record TypeMeta =
  tm_Kind :: string
  tm_APIVersion :: string

text \<open>\<open>'l\<close> is a struct of the library, as the library lays it out.\<close>

record 'l s_Plan =
  plan_TypeMeta :: TypeMeta
  plan_ObjectMeta :: 'l
  plan_Spec :: s_PlanSpec
  plan_Status :: s_PlanStatus

record 'l s_PlanList =
  list_TypeMeta :: TypeMeta
  list_ListMeta :: 'l
  Items_slice :: slice

datatype 'l cell =
    CLib 'l | CLibs "'l list" | CStrings "string list" | CInt int | CBool bool
  | CPodReference PodReference | CNodeIssue s_NodeIssue | CNodeIssues "s_NodeIssue list"
  | CNodeDrainPreview s_NodeDrainPreview | CNodeStatus s_NodeStatus | CNodeStatuses "s_NodeStatus list"
  | CCordonSpec s_CordonSpec | CDrainOptions s_DrainOptions | CDrainSpec s_DrainSpec
  | CPlanSpec s_PlanSpec | CPlanStatus s_PlanStatus
  | CPlan "'l s_Plan" | CPlans "'l s_Plan list" | CPlanList "'l s_PlanList"

type_synonym ('l, 'r) kind_of = "('l cell, 'r) kind"

definition libK :: "('l, 'l) kind_of" where "libK = \<lparr>inj = CLib, prj = \<lambda>c. case c of CLib x \<Rightarrow> Some x | _ \<Rightarrow> None\<rparr>"
definition libsK :: "('l, 'l list) kind_of" where "libsK = \<lparr>inj = CLibs, prj = \<lambda>c. case c of CLibs x \<Rightarrow> Some x | _ \<Rightarrow> None\<rparr>"
definition stringsK :: "('l, string list) kind_of" where "stringsK = \<lparr>inj = CStrings, prj = \<lambda>c. case c of CStrings x \<Rightarrow> Some x | _ \<Rightarrow> None\<rparr>"
definition intK :: "('l, int) kind_of" where "intK = \<lparr>inj = CInt, prj = \<lambda>c. case c of CInt x \<Rightarrow> Some x | _ \<Rightarrow> None\<rparr>"
definition boolK :: "('l, bool) kind_of" where "boolK = \<lparr>inj = CBool, prj = \<lambda>c. case c of CBool x \<Rightarrow> Some x | _ \<Rightarrow> None\<rparr>"
definition refK :: "('l, PodReference) kind_of" where "refK = \<lparr>inj = CPodReference, prj = \<lambda>c. case c of CPodReference x \<Rightarrow> Some x | _ \<Rightarrow> None\<rparr>"
definition issueK :: "('l, s_NodeIssue) kind_of" where "issueK = \<lparr>inj = CNodeIssue, prj = \<lambda>c. case c of CNodeIssue x \<Rightarrow> Some x | _ \<Rightarrow> None\<rparr>"
definition issuesK :: "('l, s_NodeIssue list) kind_of" where "issuesK = \<lparr>inj = CNodeIssues, prj = \<lambda>c. case c of CNodeIssues x \<Rightarrow> Some x | _ \<Rightarrow> None\<rparr>"
definition previewK :: "('l, s_NodeDrainPreview) kind_of" where "previewK = \<lparr>inj = CNodeDrainPreview, prj = \<lambda>c. case c of CNodeDrainPreview x \<Rightarrow> Some x | _ \<Rightarrow> None\<rparr>"
definition entryK :: "('l, s_NodeStatus) kind_of" where "entryK = \<lparr>inj = CNodeStatus, prj = \<lambda>c. case c of CNodeStatus x \<Rightarrow> Some x | _ \<Rightarrow> None\<rparr>"
definition entriesK :: "('l, s_NodeStatus list) kind_of" where "entriesK = \<lparr>inj = CNodeStatuses, prj = \<lambda>c. case c of CNodeStatuses x \<Rightarrow> Some x | _ \<Rightarrow> None\<rparr>"
definition cordonK :: "('l, s_CordonSpec) kind_of" where "cordonK = \<lparr>inj = CCordonSpec, prj = \<lambda>c. case c of CCordonSpec x \<Rightarrow> Some x | _ \<Rightarrow> None\<rparr>"
definition optionsK :: "('l, s_DrainOptions) kind_of" where "optionsK = \<lparr>inj = CDrainOptions, prj = \<lambda>c. case c of CDrainOptions x \<Rightarrow> Some x | _ \<Rightarrow> None\<rparr>"
definition drainK :: "('l, s_DrainSpec) kind_of" where "drainK = \<lparr>inj = CDrainSpec, prj = \<lambda>c. case c of CDrainSpec x \<Rightarrow> Some x | _ \<Rightarrow> None\<rparr>"
definition specK :: "('l, s_PlanSpec) kind_of" where "specK = \<lparr>inj = CPlanSpec, prj = \<lambda>c. case c of CPlanSpec x \<Rightarrow> Some x | _ \<Rightarrow> None\<rparr>"
definition statusK :: "('l, s_PlanStatus) kind_of" where "statusK = \<lparr>inj = CPlanStatus, prj = \<lambda>c. case c of CPlanStatus x \<Rightarrow> Some x | _ \<Rightarrow> None\<rparr>"
definition planK :: "('l, 'l s_Plan) kind_of" where "planK = \<lparr>inj = CPlan, prj = \<lambda>c. case c of CPlan x \<Rightarrow> Some x | _ \<Rightarrow> None\<rparr>"
definition plansK :: "('l, 'l s_Plan list) kind_of" where "plansK = \<lparr>inj = CPlans, prj = \<lambda>c. case c of CPlans x \<Rightarrow> Some x | _ \<Rightarrow> None\<rparr>"
definition listK :: "('l, 'l s_PlanList) kind_of" where "listK = \<lparr>inj = CPlanList, prj = \<lambda>c. case c of CPlanList x \<Rightarrow> Some x | _ \<Rightarrow> None\<rparr>"

subsection \<open>apimachinery\<close>

record ObjectMeta =
  om_Name :: string
  om_Namespace :: string
  om_Generation :: int
  om_Finalizers :: "string list"
  om_DeletionTimestamp :: "time option"

record ListMeta =
  lm_ResourceVersion :: string
  lm_Continue :: string
  lm_RemainingItemCount :: "int option"

type_synonym ('l, 'a) mem_op = "('l cell list, panic, 'a) go"

record 'l lib =
  view_Time :: "'l \<Rightarrow> ('l cell, time) sight"
  view_ObjectMeta :: "'l \<Rightarrow> ('l cell, ObjectMeta) sight"
  view_LabelSelector :: "'l \<Rightarrow> ('l cell, LabelSelector) sight"
  view_Condition :: "'l \<Rightarrow> ('l cell, Condition) sight"
  view_ListMeta :: "'l \<Rightarrow> ('l cell, ListMeta) sight"
  Time_DeepCopy :: "addr \<Rightarrow> ('l, addr) mem_op"
  ObjectMeta_DeepCopyInto :: "'l \<Rightarrow> ('l, 'l) mem_op"
  LabelSelector_DeepCopyInto :: "'l \<Rightarrow> ('l, 'l) mem_op"
  Condition_DeepCopyInto :: "'l \<Rightarrow> ('l, 'l) mem_op"
  ListMeta_DeepCopyInto :: "'l \<Rightarrow> ('l, 'l) mem_op"

text \<open>The library's deep copies are deep copies.\<close>

definition lib_laws :: "'l lib \<Rightarrow> bool" where
  "lib_laws L \<longleftrightarrow> copier (at_addr libK (view_Time L)) (Time_DeepCopy L) \<and>
     copier (view_ObjectMeta L) (ObjectMeta_DeepCopyInto L) \<and>
     copier (view_LabelSelector L) (LabelSelector_DeepCopyInto L) \<and>
     copier (view_Condition L) (Condition_DeepCopyInto L) \<and>
     copier (view_ListMeta L) (ListMeta_DeepCopyInto L)"

subsection \<open>zz_generated.deepcopy.go\<close>

definition CordonSpec_DeepCopyInto :: "'l lib \<Rightarrow> s_CordonSpec \<Rightarrow> ('l, s_CordonSpec) mem_op" where
  "CordonSpec_DeepCopyInto L s =
     go_bind (unless_nil (cordon_StartAt_ptr s) (Time_DeepCopy L)) (\<lambda>a.
     go_ret (s\<lparr>cordon_StartAt_ptr := a\<rparr>))"

definition CordonSpec_DeepCopy :: "'l lib \<Rightarrow> addr option \<Rightarrow> ('l, addr option) mem_op" where
  "CordonSpec_DeepCopy L p = unless_nil p (copy_new cordonK (CordonSpec_DeepCopyInto L))"

definition DrainOptions_DeepCopyInto :: "s_DrainOptions \<Rightarrow> ('l, s_DrainOptions) mem_op" where
  "DrainOptions_DeepCopyInto s =
     go_bind (unless_nil (GracePeriod_ptr s) (copy_new intK go_ret)) (\<lambda>a.
     go_ret (s\<lparr>GracePeriod_ptr := a\<rparr>))"

definition DrainOptions_DeepCopy :: "addr option \<Rightarrow> ('l, addr option) mem_op" where
  "DrainOptions_DeepCopy p = unless_nil p (copy_new optionsK DrainOptions_DeepCopyInto)"

definition DrainSpec_DeepCopyInto :: "'l lib \<Rightarrow> s_DrainSpec \<Rightarrow> ('l, s_DrainSpec) mem_op" where
  "DrainSpec_DeepCopyInto L s =
     go_bind (unless_nil (drain_StartAt_ptr s) (Time_DeepCopy L)) (\<lambda>a.
     go_bind (unless_nil (Options_ptr s) (copy_new optionsK DrainOptions_DeepCopyInto)) (\<lambda>b.
     go_bind (unless_nil (TimeoutMinutes_ptr s) (copy_new intK go_ret)) (\<lambda>c.
     go_ret (s\<lparr>drain_StartAt_ptr := a, Options_ptr := b, TimeoutMinutes_ptr := c\<rparr>))))"

definition DrainSpec_DeepCopy :: "'l lib \<Rightarrow> addr option \<Rightarrow> ('l, addr option) mem_op" where
  "DrainSpec_DeepCopy L p = unless_nil p (copy_new drainK (DrainSpec_DeepCopyInto L))"

definition PodReference_DeepCopyInto :: "PodReference \<Rightarrow> ('l, PodReference) mem_op" where
  "PodReference_DeepCopyInto r = go_ret r"

definition PodReference_DeepCopy :: "addr option \<Rightarrow> ('l, addr option) mem_op" where
  "PodReference_DeepCopy p = unless_nil p (copy_new refK PodReference_DeepCopyInto)"

definition NodeIssue_DeepCopyInto :: "s_NodeIssue \<Rightarrow> ('l, s_NodeIssue) mem_op" where
  "NodeIssue_DeepCopyInto s =
     go_bind (unless_nil (PodRef_ptr s) (copy_new refK go_ret)) (\<lambda>a.
     go_ret (s\<lparr>PodRef_ptr := a\<rparr>))"

definition NodeIssue_DeepCopy :: "addr option \<Rightarrow> ('l, addr option) mem_op" where
  "NodeIssue_DeepCopy p = unless_nil p (copy_new issueK NodeIssue_DeepCopyInto)"

definition NodeDrainPreview_DeepCopyInto :: "'l lib \<Rightarrow> s_NodeDrainPreview \<Rightarrow> ('l, s_NodeDrainPreview) mem_op" where
  "NodeDrainPreview_DeepCopyInto L s =
     go_bind (unless_nil (preview_Issues_slice s) (copy_array issuesK NodeIssue_DeepCopyInto)) (\<lambda>a.
     go_bind (unless_nil (ComputedAt_ptr s) (Time_DeepCopy L)) (\<lambda>b.
     go_ret (s\<lparr>preview_Issues_slice := a, ComputedAt_ptr := b\<rparr>)))"

definition NodeDrainPreview_DeepCopy :: "'l lib \<Rightarrow> addr option \<Rightarrow> ('l, addr option) mem_op" where
  "NodeDrainPreview_DeepCopy L p = unless_nil p (copy_new previewK (NodeDrainPreview_DeepCopyInto L))"

definition NodeStatus_DeepCopyInto :: "'l lib \<Rightarrow> s_NodeStatus \<Rightarrow> ('l, s_NodeStatus) mem_op" where
  "NodeStatus_DeepCopyInto L s =
     go_bind (unless_nil (CordonedAt_ptr s) (Time_DeepCopy L)) (\<lambda>a.
     go_bind (unless_nil (DrainPreview_ptr s) (copy_new previewK (NodeDrainPreview_DeepCopyInto L))) (\<lambda>b.
     go_bind (unless_nil (Issues_slice s) (copy_array issuesK NodeIssue_DeepCopyInto)) (\<lambda>c.
     go_bind (unless_nil (NotReadySince_ptr s) (Time_DeepCopy L)) (\<lambda>d.
     go_ret (s\<lparr>CordonedAt_ptr := a, DrainPreview_ptr := b, Issues_slice := c, NotReadySince_ptr := d\<rparr>)))))"

definition NodeStatus_DeepCopy :: "'l lib \<Rightarrow> addr option \<Rightarrow> ('l, addr option) mem_op" where
  "NodeStatus_DeepCopy L p = unless_nil p (copy_new entryK (NodeStatus_DeepCopyInto L))"

definition NodeMaintenancePlanSpec_DeepCopyInto :: "'l lib \<Rightarrow> s_PlanSpec \<Rightarrow> ('l, s_PlanSpec) mem_op" where
  "NodeMaintenancePlanSpec_DeepCopyInto L s =
     go_bind (unless_nil (spec_Nodes_slice s) (copy_array stringsK go_ret)) (\<lambda>a.
     go_bind (unless_nil (NodeSelector_ptr s) (copy_new libK (LabelSelector_DeepCopyInto L))) (\<lambda>b.
     go_bind (unless_nil (Cordon_ptr s) (copy_new cordonK (CordonSpec_DeepCopyInto L))) (\<lambda>c.
     go_bind (unless_nil (Drain_ptr s) (copy_new drainK (DrainSpec_DeepCopyInto L))) (\<lambda>d.
     go_ret (s\<lparr>spec_Nodes_slice := a, NodeSelector_ptr := b, Cordon_ptr := c, Drain_ptr := d\<rparr>)))))"

definition NodeMaintenancePlanSpec_DeepCopy :: "'l lib \<Rightarrow> addr option \<Rightarrow> ('l, addr option) mem_op" where
  "NodeMaintenancePlanSpec_DeepCopy L p = unless_nil p (copy_new specK (NodeMaintenancePlanSpec_DeepCopyInto L))"

definition NodeMaintenancePlanStatus_DeepCopyInto :: "'l lib \<Rightarrow> s_PlanStatus \<Rightarrow> ('l, s_PlanStatus) mem_op" where
  "NodeMaintenancePlanStatus_DeepCopyInto L s =
     go_bind (unless_nil (ResolvedNodes_slice s) (copy_array stringsK go_ret)) (\<lambda>a.
     go_bind (unless_nil (Conditions_slice s) (copy_array libsK (Condition_DeepCopyInto L))) (\<lambda>b.
     go_bind (unless_nil (status_Nodes_slice s) (copy_array entriesK (NodeStatus_DeepCopyInto L))) (\<lambda>c.
     go_bind (unless_nil (DrainStartedAt_ptr s) (Time_DeepCopy L)) (\<lambda>d.
     go_bind (unless_nil (LastPreviewTime_ptr s) (Time_DeepCopy L)) (\<lambda>e.
     go_bind (unless_nil (Drifted_ptr s) (copy_new boolK go_ret)) (\<lambda>f.
     go_ret (s\<lparr>ResolvedNodes_slice := a, Conditions_slice := b, status_Nodes_slice := c,
       DrainStartedAt_ptr := d, LastPreviewTime_ptr := e, Drifted_ptr := f\<rparr>)))))))"

definition NodeMaintenancePlanStatus_DeepCopy :: "'l lib \<Rightarrow> addr option \<Rightarrow> ('l, addr option) mem_op" where
  "NodeMaintenancePlanStatus_DeepCopy L p = unless_nil p (copy_new statusK (NodeMaintenancePlanStatus_DeepCopyInto L))"

definition NodeMaintenancePlan_DeepCopyInto :: "'l lib \<Rightarrow> 'l s_Plan \<Rightarrow> ('l, 'l s_Plan) mem_op" where
  "NodeMaintenancePlan_DeepCopyInto L s =
     go_bind (ObjectMeta_DeepCopyInto L (plan_ObjectMeta s)) (\<lambda>a.
     go_bind (NodeMaintenancePlanSpec_DeepCopyInto L (plan_Spec s)) (\<lambda>b.
     go_bind (NodeMaintenancePlanStatus_DeepCopyInto L (plan_Status s)) (\<lambda>c.
     go_ret (s\<lparr>plan_TypeMeta := plan_TypeMeta s, plan_ObjectMeta := a, plan_Spec := b, plan_Status := c\<rparr>))))"

definition NodeMaintenancePlan_DeepCopy :: "'l lib \<Rightarrow> addr option \<Rightarrow> ('l, addr option) mem_op" where
  "NodeMaintenancePlan_DeepCopy L p = unless_nil p (copy_new planK (NodeMaintenancePlan_DeepCopyInto L))"

definition NodeMaintenancePlanList_DeepCopyInto :: "'l lib \<Rightarrow> 'l s_PlanList \<Rightarrow> ('l, 'l s_PlanList) mem_op" where
  "NodeMaintenancePlanList_DeepCopyInto L s =
     go_bind (ListMeta_DeepCopyInto L (list_ListMeta s)) (\<lambda>a.
     go_bind (unless_nil (Items_slice s) (copy_array plansK (NodeMaintenancePlan_DeepCopyInto L))) (\<lambda>b.
     go_ret (s\<lparr>list_TypeMeta := list_TypeMeta s, list_ListMeta := a, Items_slice := b\<rparr>)))"

definition NodeMaintenancePlanList_DeepCopy :: "'l lib \<Rightarrow> addr option \<Rightarrow> ('l, addr option) mem_op" where
  "NodeMaintenancePlanList_DeepCopy L p = unless_nil p (copy_new listK (NodeMaintenancePlanList_DeepCopyInto L))"

text \<open>A \<open>runtime.Object\<close> holding one of the two types; the nil interface is \<open>None\<close>.\<close>

datatype runtime_object = PlanObject addr | PlanListObject addr

definition NodeMaintenancePlan_DeepCopyObject :: "'l lib \<Rightarrow> addr option \<Rightarrow> ('l, runtime_object option) mem_op" where
  "NodeMaintenancePlan_DeepCopyObject L p =
     go_bind (NodeMaintenancePlan_DeepCopy L p) (\<lambda>c. case c of Some a \<Rightarrow> go_ret (Some (PlanObject a)) | None \<Rightarrow> go_ret None)"

definition NodeMaintenancePlanList_DeepCopyObject :: "'l lib \<Rightarrow> addr option \<Rightarrow> ('l, runtime_object option) mem_op" where
  "NodeMaintenancePlanList_DeepCopyObject L p =
     go_bind (NodeMaintenancePlanList_DeepCopy L p) (\<lambda>c. case c of Some a \<Rightarrow> go_ret (Some (PlanListObject a)) | None \<Rightarrow> go_ret None)"

text \<open>\<open>x.DeepCopyObject()\<close> on the interface: the method of the type it holds.\<close>

definition DeepCopyObject :: "'l lib \<Rightarrow> runtime_object \<Rightarrow> ('l, runtime_object option) mem_op" where
  "DeepCopyObject L x = (case x of PlanObject a \<Rightarrow> NodeMaintenancePlan_DeepCopyObject L (Some a)
     | PlanListObject a \<Rightarrow> NodeMaintenancePlanList_DeepCopyObject L (Some a))"

subsection \<open>What the structs mean\<close>

text \<open>The value a struct stands for: its flat fields, and what its addresses lead to.\<close>

abbreviation time_at :: "'l lib \<Rightarrow> addr option \<Rightarrow> ('l cell, time option) sight" where
  "time_at L \<equiv> sight_option (at_addr libK (view_Time L))"

abbreviation value_at :: "('c, 'r) kind \<Rightarrow> addr option \<Rightarrow> ('c, 'r option) sight" where
  "value_at K \<equiv> sight_option (at_addr K sight_ret)"

abbreviation strings_at :: "slice \<Rightarrow> ('l cell, string list) sight" where
  "strings_at \<equiv> at_slice stringsK sight_ret"

definition view_CordonSpec :: "'l lib \<Rightarrow> s_CordonSpec \<Rightarrow> ('l cell, CordonSpec) sight" where
  "view_CordonSpec L s = sight_map (\<lambda>a. (cordon_flat s)\<lparr>cordon_StartAt := a\<rparr>) (time_at L (cordon_StartAt_ptr s))"

definition view_DrainOptions :: "s_DrainOptions \<Rightarrow> ('l cell, DrainOptions) sight" where
  "view_DrainOptions s = sight_map (\<lambda>a. (options_flat s)\<lparr>opt_PodTerminationGracePeriodSeconds := a\<rparr>)
     (value_at intK (GracePeriod_ptr s))"

definition view_DrainSpec :: "'l lib \<Rightarrow> s_DrainSpec \<Rightarrow> ('l cell, DrainSpec) sight" where
  "view_DrainSpec L s =
     sight_map (\<lambda>(a, b, c). (drain_flat s)\<lparr>drain_StartAt := a, drain_Options := b, TimeoutMinutes := c\<rparr>)
     (sight_pair (time_at L) (sight_pair (sight_option (at_addr optionsK view_DrainOptions)) (value_at intK))
       (drain_StartAt_ptr s, Options_ptr s, TimeoutMinutes_ptr s))"

definition view_NodeIssue :: "s_NodeIssue \<Rightarrow> ('l cell, NodeIssue) sight" where
  "view_NodeIssue s = sight_map (\<lambda>a. (issue_flat s)\<lparr>PodRef := a\<rparr>) (value_at refK (PodRef_ptr s))"

definition view_NodeDrainPreview :: "'l lib \<Rightarrow> s_NodeDrainPreview \<Rightarrow> ('l cell, NodeDrainPreview) sight" where
  "view_NodeDrainPreview L s =
     sight_map (\<lambda>(a, b). (preview_flat s)\<lparr>preview_Issues := a, ComputedAt := b\<rparr>)
     (sight_pair (at_slice issuesK view_NodeIssue) (time_at L) (preview_Issues_slice s, ComputedAt_ptr s))"

definition view_NodeStatus :: "'l lib \<Rightarrow> s_NodeStatus \<Rightarrow> ('l cell, NodeStatus) sight" where
  "view_NodeStatus L s =
     sight_map (\<lambda>(a, b, c, d). (ns_flat s)\<lparr>CordonedAt := a, DrainPreview := b, ns_Issues := c, NotReadySince := d\<rparr>)
     (sight_pair (time_at L) (sight_pair (sight_option (at_addr previewK (view_NodeDrainPreview L)))
       (sight_pair (at_slice issuesK view_NodeIssue) (time_at L)))
       (CordonedAt_ptr s, DrainPreview_ptr s, Issues_slice s, NotReadySince_ptr s))"

definition view_PlanSpec :: "'l lib \<Rightarrow> s_PlanSpec \<Rightarrow> ('l cell, PlanSpec) sight" where
  "view_PlanSpec L s =
     sight_map (\<lambda>(a, b, c, d). (spec_flat s)\<lparr>spec_Nodes := a, NodeSelector := b, Cordon := c, Drain := d\<rparr>)
     (sight_pair strings_at (sight_pair (sight_option (at_addr libK (view_LabelSelector L)))
       (sight_pair (sight_option (at_addr cordonK (view_CordonSpec L))) (sight_option (at_addr drainK (view_DrainSpec L)))))
       (spec_Nodes_slice s, NodeSelector_ptr s, Cordon_ptr s, Drain_ptr s))"

definition view_PlanStatus :: "'l lib \<Rightarrow> s_PlanStatus \<Rightarrow> ('l cell, PlanStatus) sight" where
  "view_PlanStatus L s =
     sight_map (\<lambda>(a, b, c, d, e, f). (status_flat s)\<lparr>ResolvedNodes := a, Conditions := b, status_Nodes := c,
       DrainStartedAt := d, LastPreviewTime := e, plan_Drifted := f\<rparr>)
     (sight_pair strings_at (sight_pair (at_slice libsK (view_Condition L)) (sight_pair (at_slice entriesK (view_NodeStatus L))
       (sight_pair (time_at L) (sight_pair (time_at L) (value_at boolK)))))
       (ResolvedNodes_slice s, Conditions_slice s, status_Nodes_slice s, DrainStartedAt_ptr s, LastPreviewTime_ptr s, Drifted_ptr s))"

definition view_Plan :: "'l lib \<Rightarrow> 'l s_Plan \<Rightarrow> ('l cell, TypeMeta \<times> Plan) sight" where
  "view_Plan L s =
     sight_map (\<lambda>(m, a, b). (plan_TypeMeta s, \<lparr>plan_Name = om_Name m, plan_Namespace = om_Namespace m,
       Generation = om_Generation m, Finalizers = om_Finalizers m, plan_DeletionTimestamp = om_DeletionTimestamp m,
       Spec = a, Status = b\<rparr>))
     (sight_pair (view_ObjectMeta L) (sight_pair (view_PlanSpec L) (view_PlanStatus L))
       (plan_ObjectMeta s, plan_Spec s, plan_Status s))"

definition view_PlanList :: "'l lib \<Rightarrow> 'l s_PlanList \<Rightarrow> ('l cell, TypeMeta \<times> ListMeta \<times> (TypeMeta \<times> Plan) list) sight" where
  "view_PlanList L s = sight_map (Pair (list_TypeMeta s))
     (sight_pair (view_ListMeta L) (at_slice plansK (view_Plan L)) (list_ListMeta s, Items_slice s))"

definition view_object :: "'l lib \<Rightarrow> runtime_object \<Rightarrow>
    ('l cell, (TypeMeta \<times> Plan) + (TypeMeta \<times> ListMeta \<times> (TypeMeta \<times> Plan) list)) sight" where
  "view_object L x = (case x of PlanObject a \<Rightarrow> sight_map Inl (at_addr planK (view_Plan L) a)
     | PlanListObject a \<Rightarrow> sight_map Inr (at_addr listK (view_PlanList L) a))"

section \<open>Lemmas\<close>

lemma kinds [simp]:
  "lawful libK" "lawful libsK" "lawful stringsK" "lawful intK" "lawful boolK" "lawful refK" "lawful issueK"
  "lawful issuesK" "lawful previewK" "lawful entryK" "lawful entriesK" "lawful cordonK" "lawful optionsK"
  "lawful drainK" "lawful specK" "lawful statusK" "lawful planK" "lawful plansK" "lawful listK"
  by (simp_all add: lawful_def libK_def libsK_def stringsK_def intK_def boolK_def refK_def issueK_def issuesK_def
      previewK_def entryK_def entriesK_def cordonK_def optionsK_def drainK_def specK_def statusK_def planK_def
      plansK_def listK_def)

lemmas copier_intros = copier_pair copier_option copier_slice copier_new copier_value kinds

text \<open>The structs without anything of the library, as instances of the contract.\<close>

interpretation reference: copier sight_ret PodReference_DeepCopyInto
  using copier_value by (simp add: PodReference_DeepCopyInto_def [abs_def])

lemma copier_DrainOptions: "copier view_DrainOptions DrainOptions_DeepCopyInto"
  by (rule copier_struct [where f = "value_at intK"
        and get = GracePeriod_ptr and put = "\<lambda>a s. s\<lparr>GracePeriod_ptr := a\<rparr>"
        and build = "\<lambda>s a. (options_flat s)\<lparr>opt_PodTerminationGracePeriodSeconds := a\<rparr>"])
    ((rule copier_intros)+, simp_all add: view_DrainOptions_def DrainOptions_DeepCopyInto_def)

lemma copier_NodeIssue: "copier view_NodeIssue NodeIssue_DeepCopyInto"
  by (rule copier_struct [where f = "value_at refK"
        and get = PodRef_ptr and put = "\<lambda>a s. s\<lparr>PodRef_ptr := a\<rparr>"
        and build = "\<lambda>s a. (issue_flat s)\<lparr>PodRef := a\<rparr>"])
    ((rule copier_intros)+, simp_all add: view_NodeIssue_def NodeIssue_DeepCopyInto_def)

interpretation options: copier view_DrainOptions DrainOptions_DeepCopyInto
  by (rule copier_DrainOptions)

interpretation issue: copier view_NodeIssue NodeIssue_DeepCopyInto
  by (rule copier_NodeIssue)

lemma lib_parts:
  assumes "lib_laws L"
  shows "copier (at_addr libK (view_Time L)) (Time_DeepCopy L)"
    "copier (view_ObjectMeta L) (ObjectMeta_DeepCopyInto L)"
    "copier (view_LabelSelector L) (LabelSelector_DeepCopyInto L)"
    "copier (view_Condition L) (Condition_DeepCopyInto L)"
    "copier (view_ListMeta L) (ListMeta_DeepCopyInto L)"
  using assms by (simp_all add: lib_laws_def)

lemma copier_CordonSpec:
  assumes L: "lib_laws L"
  shows "copier (view_CordonSpec L) (CordonSpec_DeepCopyInto L)"
  by (rule copier_struct [where f = "time_at L"
        and get = "cordon_StartAt_ptr" and put = "\<lambda>a s. s\<lparr>cordon_StartAt_ptr := a\<rparr>"
        and build = "\<lambda>s a. (cordon_flat s)\<lparr>cordon_StartAt := a\<rparr>"])
    ((rule lib_parts [OF L] copier_intros)+, simp_all add: view_CordonSpec_def CordonSpec_DeepCopyInto_def go_monad copy_pair_def split: prod.split)

lemma copier_DrainSpec:
  assumes L: "lib_laws L"
  shows "copier (view_DrainSpec L) (DrainSpec_DeepCopyInto L)"
  by (rule copier_struct [where f = "sight_pair (time_at L) (sight_pair (sight_option (at_addr optionsK view_DrainOptions)) (value_at intK))"
        and get = "\<lambda>s. (drain_StartAt_ptr s, Options_ptr s, TimeoutMinutes_ptr s)" and put = "\<lambda>(a, b, c) s. s\<lparr>drain_StartAt_ptr := a, Options_ptr := b, TimeoutMinutes_ptr := c\<rparr>"
        and build = "\<lambda>s (a, b, c). (drain_flat s)\<lparr>drain_StartAt := a, drain_Options := b, TimeoutMinutes := c\<rparr>"])
    ((rule lib_parts [OF L] copier_intros copier_DrainOptions)+, simp_all add: view_DrainSpec_def DrainSpec_DeepCopyInto_def go_monad copy_pair_def split: prod.split)

lemma copier_NodeDrainPreview:
  assumes L: "lib_laws L"
  shows "copier (view_NodeDrainPreview L) (NodeDrainPreview_DeepCopyInto L)"
  by (rule copier_struct [where f = "sight_pair (at_slice issuesK view_NodeIssue) (time_at L)"
        and get = "\<lambda>s. (preview_Issues_slice s, ComputedAt_ptr s)" and put = "\<lambda>(a, b) s. s\<lparr>preview_Issues_slice := a, ComputedAt_ptr := b\<rparr>"
        and build = "\<lambda>s (a, b). (preview_flat s)\<lparr>preview_Issues := a, ComputedAt := b\<rparr>"])
    ((rule lib_parts [OF L] copier_intros copier_NodeIssue)+, simp_all add: view_NodeDrainPreview_def NodeDrainPreview_DeepCopyInto_def go_monad copy_pair_def split: prod.split)

lemma copier_NodeStatus:
  assumes L: "lib_laws L"
  shows "copier (view_NodeStatus L) (NodeStatus_DeepCopyInto L)"
  by (rule copier_struct [where f = "sight_pair (time_at L) (sight_pair (sight_option (at_addr previewK (view_NodeDrainPreview L))) (sight_pair (at_slice issuesK view_NodeIssue) (time_at L)))"
        and get = "\<lambda>s. (CordonedAt_ptr s, DrainPreview_ptr s, Issues_slice s, NotReadySince_ptr s)" and put = "\<lambda>(a, b, c, d) s. s\<lparr>CordonedAt_ptr := a, DrainPreview_ptr := b, Issues_slice := c, NotReadySince_ptr := d\<rparr>"
        and build = "\<lambda>s (a, b, c, d). (ns_flat s)\<lparr>CordonedAt := a, DrainPreview := b, ns_Issues := c, NotReadySince := d\<rparr>"])
    ((rule lib_parts [OF L] copier_intros copier_NodeIssue copier_NodeDrainPreview [OF L])+, simp_all add: view_NodeStatus_def NodeStatus_DeepCopyInto_def go_monad copy_pair_def split: prod.split)

lemma copier_PlanSpec:
  assumes L: "lib_laws L"
  shows "copier (view_PlanSpec L) (NodeMaintenancePlanSpec_DeepCopyInto L)"
  by (rule copier_struct [where f = "sight_pair strings_at (sight_pair (sight_option (at_addr libK (view_LabelSelector L))) (sight_pair (sight_option (at_addr cordonK (view_CordonSpec L))) (sight_option (at_addr drainK (view_DrainSpec L)))))"
        and get = "\<lambda>s. (spec_Nodes_slice s, NodeSelector_ptr s, Cordon_ptr s, Drain_ptr s)" and put = "\<lambda>(a, b, c, d) s. s\<lparr>spec_Nodes_slice := a, NodeSelector_ptr := b, Cordon_ptr := c, Drain_ptr := d\<rparr>"
        and build = "\<lambda>s (a, b, c, d). (spec_flat s)\<lparr>spec_Nodes := a, NodeSelector := b, Cordon := c, Drain := d\<rparr>"])
    ((rule lib_parts [OF L] copier_intros copier_CordonSpec [OF L] copier_DrainSpec [OF L])+, simp_all add: view_PlanSpec_def NodeMaintenancePlanSpec_DeepCopyInto_def go_monad copy_pair_def split: prod.split)

lemma copier_PlanStatus:
  assumes L: "lib_laws L"
  shows "copier (view_PlanStatus L) (NodeMaintenancePlanStatus_DeepCopyInto L)"
  by (rule copier_struct [where f = "sight_pair strings_at (sight_pair (at_slice libsK (view_Condition L)) (sight_pair (at_slice entriesK (view_NodeStatus L)) (sight_pair (time_at L) (sight_pair (time_at L) (value_at boolK)))))"
        and get = "\<lambda>s. (ResolvedNodes_slice s, Conditions_slice s, status_Nodes_slice s, DrainStartedAt_ptr s, LastPreviewTime_ptr s, Drifted_ptr s)" and put = "\<lambda>(a, b, c, d, e, f) s. s\<lparr>ResolvedNodes_slice := a, Conditions_slice := b, status_Nodes_slice := c,
          DrainStartedAt_ptr := d, LastPreviewTime_ptr := e, Drifted_ptr := f\<rparr>"
        and build = "\<lambda>s (a, b, c, d, e, f). (status_flat s)\<lparr>ResolvedNodes := a, Conditions := b, status_Nodes := c,
          DrainStartedAt := d, LastPreviewTime := e, plan_Drifted := f\<rparr>"])
    ((rule lib_parts [OF L] copier_intros copier_NodeStatus [OF L])+, simp_all add: view_PlanStatus_def NodeMaintenancePlanStatus_DeepCopyInto_def go_monad copy_pair_def split: prod.split)

lemma copier_Plan:
  assumes L: "lib_laws L"
  shows "copier (view_Plan L) (NodeMaintenancePlan_DeepCopyInto L)"
  by (rule copier_struct [where f = "sight_pair (view_ObjectMeta L) (sight_pair (view_PlanSpec L) (view_PlanStatus L))"
        and get = "\<lambda>s. (plan_ObjectMeta s, plan_Spec s, plan_Status s)" and put = "\<lambda>(a, b, c) s. s\<lparr>plan_ObjectMeta := a, plan_Spec := b, plan_Status := c\<rparr>"
        and build = "\<lambda>s (m, a, b). (plan_TypeMeta s, \<lparr>plan_Name = om_Name m, plan_Namespace = om_Namespace m,
          Generation = om_Generation m, Finalizers = om_Finalizers m, plan_DeletionTimestamp = om_DeletionTimestamp m,
          Spec = a, Status = b\<rparr>)"])
    ((rule lib_parts [OF L] copier_intros copier_PlanSpec [OF L] copier_PlanStatus [OF L])+, simp_all add: view_Plan_def NodeMaintenancePlan_DeepCopyInto_def go_monad copy_pair_def split: prod.split)

lemma copier_PlanList:
  assumes L: "lib_laws L"
  shows "copier (view_PlanList L) (NodeMaintenancePlanList_DeepCopyInto L)"
  by (rule copier_struct [where f = "sight_pair (view_ListMeta L) (at_slice plansK (view_Plan L))"
        and get = "\<lambda>s. (list_ListMeta s, Items_slice s)" and put = "\<lambda>(a, b) s. s\<lparr>list_ListMeta := a, Items_slice := b\<rparr>"
        and build = "\<lambda>s. Pair (list_TypeMeta s)"])
    ((rule lib_parts [OF L] copier_intros copier_Plan [OF L])+, simp_all add: view_PlanList_def NodeMaintenancePlanList_DeepCopyInto_def go_monad copy_pair_def split: prod.split)


text \<open>Both kinds of objects are copied with their pointers; a nil pointer gives the nil interface.\<close>

lemma DeepCopyObject_nil:
  "NodeMaintenancePlan_DeepCopyObject L None h = (Inr None, h)"
  "NodeMaintenancePlanList_DeepCopyObject L None h = (Inr None, h)"
  by (simp_all add: NodeMaintenancePlan_DeepCopyObject_def NodeMaintenancePlanList_DeepCopyObject_def
      NodeMaintenancePlan_DeepCopy_def NodeMaintenancePlanList_DeepCopy_def unless_nil_def go_bind_def go_ret_def)

lemma DeepCopyObject_run:
  assumes L: "lib_laws L"
  shows "copier (view_object L) (\<lambda>x. go_bind (DeepCopyObject L x) (\<lambda>y. case y of Some z \<Rightarrow> go_ret z | None \<Rightarrow> go_raise InvalidAddress))"
    (is "copier _ ?copy")
proof (rule copierI)
  note plan = copier_new [OF kinds(17) copier_Plan [OF L]] and list = copier_new [OF kinds(19) copier_PlanList [OF L]]
  show "steady (view_object L x)" for x
    by (cases x) (simp_all add: view_object_def steady_map copier_steady [OF plan] copier_steady [OF list])
  have run: "?copy (PlanObject a) = go_bind (copy_new planK (NodeMaintenancePlan_DeepCopyInto L) a) (\<lambda>b. go_ret (PlanObject b))"
    "?copy (PlanListObject a) = go_bind (copy_new listK (NodeMaintenancePlanList_DeepCopyInto L) a) (\<lambda>b. go_ret (PlanListObject b))" for a
    by (simp_all add: DeepCopyObject_def NodeMaintenancePlan_DeepCopyObject_def NodeMaintenancePlanList_DeepCopyObject_def
        NodeMaintenancePlan_DeepCopy_def NodeMaintenancePlanList_DeepCopy_def unless_nil_def go_monad)
  fix x h v A assume view: "view_object L x h = Some (v, A)"
  show "\<exists>y k B. ?copy x h = (Inr y, h @ k) \<and> view_object L y (h @ k) = Some (v, B) \<and> B \<subseteq> {length h..<length (h @ k)}"
  proof (cases x)
    case (PlanObject a)
    then obtain w where w: "at_addr planK (view_Plan L) a h = Some (w, A)" "v = Inl w"
      using view by (auto simp: view_object_def sight_map_Some)
    from copier.copied [OF plan w(1)] show ?thesis
      unfolding PlanObject run w(2) by (fastforce simp: go_bind_def go_ret_def view_object_def sight_map_Some)
  next
    case (PlanListObject a)
    then obtain w where w: "at_addr listK (view_PlanList L) a h = Some (w, A)" "v = Inr w"
      using view by (auto simp: view_object_def sight_map_Some)
    from copier.copied [OF list w(1)] show ?thesis
      unfolding PlanListObject run w(2) by (fastforce simp: go_bind_def go_ret_def view_object_def sight_map_Some)
  qed
qed

section \<open>Properties\<close>

text \<open>
  C26. A deep copy of a plan is a value. \<open>plan.DeepCopy()\<close> returns, changes nothing that was there,
  and the copy stands for the same plan. From then on the two are apart: whatever is assigned
  or allocated later, the copy stands for that plan as long as no cell of its own is assigned,
  and the original's cells are not among them; and the other way round. So the base that
  \<open>client.MergeFrom\<close> gets is the plan as it was, whatever the operation wrote through the plan
  in between.
\<close>

theorem DeepCopy_isolated:
  assumes L: "lib_laws L" and plan: "at_addr planK (view_Plan L) a h = Some (v, A)"
  shows "\<exists>b k B. NodeMaintenancePlan_DeepCopy L (Some a) h = (Inr (Some b), h @ k) \<and>
    A \<subseteq> {..<length h} \<and> B \<subseteq> {length h..<length (h @ k)} \<and>
    at_addr planK (view_Plan L) b (h @ k) = Some (v, B) \<and>
    (\<forall>ws. assigned ws \<inter> B = {} \<longrightarrow> at_addr planK (view_Plan L) b (mem_run ws (h @ k)) = Some (v, B)) \<and>
    (\<forall>ws. assigned ws \<inter> A = {} \<longrightarrow> at_addr planK (view_Plan L) a (mem_run ws (h @ k)) = Some (v, A))"
proof -
  have "copier (at_addr planK (view_Plan L)) (copy_new planK (NodeMaintenancePlan_DeepCopyInto L))"
    by (rule copier_new [OF kinds(17) copier_Plan [OF L]])
  from copier.isolated [OF this plan] show ?thesis
    by (fastforce simp: NodeMaintenancePlan_DeepCopy_def unless_nil_def go_bind_def go_ret_def)
qed

text \<open>A library whose structs hold no addresses.\<close>

datatype flat_struct = FTime time | FMeta ObjectMeta | FSelector LabelSelector | FCondition Condition | FListMeta ListMeta

definition flat_view :: "(flat_struct \<Rightarrow> 'v option) \<Rightarrow> flat_struct \<Rightarrow> ('c, 'v) sight" where
  "flat_view f x = (case f x of None \<Rightarrow> sight_fail | Some v \<Rightarrow> sight_ret v)"

definition flat_lib :: "flat_struct lib" where
  "flat_lib = \<lparr>view_Time = flat_view (\<lambda>x. case x of FTime t \<Rightarrow> Some t | _ \<Rightarrow> None),
     view_ObjectMeta = flat_view (\<lambda>x. case x of FMeta m \<Rightarrow> Some m | _ \<Rightarrow> None),
     view_LabelSelector = flat_view (\<lambda>x. case x of FSelector m \<Rightarrow> Some m | _ \<Rightarrow> None),
     view_Condition = flat_view (\<lambda>x. case x of FCondition m \<Rightarrow> Some m | _ \<Rightarrow> None),
     view_ListMeta = flat_view (\<lambda>x. case x of FListMeta m \<Rightarrow> Some m | _ \<Rightarrow> None),
     Time_DeepCopy = copy_new libK go_ret, ObjectMeta_DeepCopyInto = go_ret,
     LabelSelector_DeepCopyInto = go_ret, Condition_DeepCopyInto = go_ret, ListMeta_DeepCopyInto = go_ret\<rparr>"

lemma copier_flat_view: "copier (flat_view f) go_ret"
proof (rule copierI)
  show "steady (flat_view f x)" for x
    by (simp add: flat_view_def steady_ret steady_fail split: option.split)
  show "\<exists>y k B. go_ret x h = (Inr y, h @ k) \<and> flat_view f y (h @ k) = Some (v, B) \<and> B \<subseteq> {length h..<length (h @ k)}"
    if "flat_view f x h = Some (v, A)" for x h v A
    using that
    by (intro exI [of _ x] exI [of _ "[]"] exI [of _ "{}"])
      (auto simp: flat_view_def go_ret_def sight_ret_def sight_fail_def split: option.splits)
qed

lemma flat_laws: "lib_laws flat_lib"
  by (simp add: lib_laws_def flat_lib_def copier_new copier_flat_view)

text \<open>A plan with one entry that has one issue.\<close>

definition demo_entry :: s_NodeStatus where
  "demo_entry = \<lparr>ns_flat = zero_NodeStatus\<lparr>ns_Name := ''a'', Cordoned := True\<rparr>, CordonedAt_ptr = Some 4, DrainPreview_ptr = None,
     Issues_slice = Some (0, 0, 1), NotReadySince_ptr = None\<rparr>"

definition demo_status :: s_PlanStatus where
  "demo_status = \<lparr>status_flat = \<lparr>ResolvedNodes = [], NodeSnapshotTaken = False, Conditions = [], status_Nodes = [],
       DrainStartedAt = None, LastPreviewTime = None, TotalEvictablePods = 0, TotalPreviewIssues = 0,
       ObservedGeneration = 0, AllNodesReadyForMaintenance = False, NodeCount = 1, Phase = ''Cordoned'',
       ReadySummary = '''', plan_DrainProgress = '''', DrainingNodeCount = '''', BlockedNodeCount = '''', plan_Drifted = None\<rparr>,
     ResolvedNodes_slice = None, Conditions_slice = None, status_Nodes_slice = Some (2, 0, 1),
     DrainStartedAt_ptr = None, LastPreviewTime_ptr = None, Drifted_ptr = None\<rparr>"

definition demo_memory :: "flat_struct cell list" where
  "demo_memory = [CNodeIssues [\<lparr>issue_flat = \<lparr>issue_Type = ''PDBBlocked'', issue_Message = '''', PodRef = None\<rparr>, PodRef_ptr = Some 1\<rparr>],
     CPodReference \<lparr>ref_Namespace = ''default'', ref_Name = ''x''\<rparr>,
     CNodeStatuses [demo_entry],
     CPlan \<lparr>plan_TypeMeta = \<lparr>tm_Kind = '''', tm_APIVersion = ''''\<rparr>,
       plan_ObjectMeta = FMeta \<lparr>om_Name = ''p'', om_Namespace = '''', om_Generation = 1, om_Finalizers = [], om_DeletionTimestamp = None\<rparr>,
       plan_Spec = \<lparr>spec_flat = \<lparr>spec_Nodes = [], NodeSelector = None, Reason = '''', Cordon = None, Drain = None\<rparr>,
         spec_Nodes_slice = None, NodeSelector_ptr = None, Cordon_ptr = None, Drain_ptr = None\<rparr>,
       plan_Status = demo_status\<rparr>,
     CLib (FTime 7)]"

definition entries_seen :: "flat_struct cell list \<Rightarrow> addr \<Rightarrow> NodeStatus list" where
  "entries_seen h a = (case at_addr planK (view_Plan flat_lib) a h of None \<Rightarrow> [] | Some (v, A) \<Rightarrow> status_Nodes (Status (snd v)))"

lemma demo_seen:
  "\<not> Option.is_none (at_addr planK (view_Plan flat_lib) 3 demo_memory)"
  "entries_seen demo_memory 3 = [zero_NodeStatus\<lparr>ns_Name := ''a'', Cordoned := True, CordonedAt := Some 7,
     ns_Issues := [\<lparr>issue_Type = ''PDBBlocked'', issue_Message = '''', PodRef = Some \<lparr>ref_Namespace = ''default'', ref_Name = ''x''\<rparr>\<rparr>]\<rparr>]"
  by code_simp+

theorem DeepCopy_isolated_witness:
  "\<exists>b k. NodeMaintenancePlan_DeepCopy flat_lib (Some 3) demo_memory = (Inr (Some b), demo_memory @ k) \<and>
     entries_seen (mem_run [Assign 0 (CNodeIssues []), Assign 2 (CNodeStatuses [demo_entry\<lparr>Issues_slice := None\<rparr>]), Allocate (CInt 1)]
       (demo_memory @ k)) b = entries_seen demo_memory 3"
proof -
  obtain v A where plan: "at_addr planK (view_Plan flat_lib) 3 demo_memory = Some (v, A)"
    using demo_seen(1) by (cases "at_addr planK (view_Plan flat_lib) 3 demo_memory") (auto simp: Option.is_none_def)
  let ?ws = "[Assign 0 (CNodeIssues []), Assign 2 (CNodeStatuses [demo_entry\<lparr>Issues_slice := None\<rparr>]), Allocate (CInt 1)]"
  obtain b k B where c: "NodeMaintenancePlan_DeepCopy flat_lib (Some 3) demo_memory = (Inr (Some b), demo_memory @ k)"
      "B \<subseteq> {length demo_memory..<length (demo_memory @ k)}"
      "\<And>ws. assigned ws \<inter> B = {} \<Longrightarrow> at_addr planK (view_Plan flat_lib) b (mem_run ws (demo_memory @ k)) = Some (v, B)"
    using DeepCopy_isolated [OF flat_laws plan] by blast
  have "assigned ?ws \<inter> B = {}" using c(2) by (auto simp: demo_memory_def)
  from c(3) [OF this] c(1) plan show ?thesis by (auto simp: entries_seen_def)
qed

end
