(* ===== verification/Spec2Isabelle.thy ===== *)
theory Spec2Isabelle
  imports Deletion Validator Plan_Ready Wiring Cert_HA Startup Shared_Nodes Status_Limits Deep_Copy
begin

text \<open>
  A verification development for the node maintenance operator: a Kubernetes controller (Go)
  that takes the nodes named by a \<open>NodeMaintenancePlan\<close> out of service: it marks them as its
  own, cordons them, evicts their pods and reports, and gives them back when the plan is
  deleted.

  The program and its parts. A request for a plan runs \<open>Reconcile\<close>
  (\<open>internal/controller/nodemaintenanceplan_controller.go\<close>): the finalizer, then ownership
  resolution (\<open>nodes.go\<close>, \<open>ownership.go\<close>), the schedule (\<open>schedule.go\<close>), adoption, the status
  (\<open>status.go\<close>), cordon and drift (\<open>reconcile.go\<close>, \<open>drift.go\<close>, \<open>reconcile_drift.go\<close>), the preview
  (\<open>reconcile_preview.go\<close>), the drain (\<open>drain_reconcile.go\<close>, \<open>drain_node.go\<close>, \<open>drain_filters.go\<close>)
  and the metrics (\<open>internal/metrics/metrics.go\<close>); a plan being deleted is cleaned up instead
  (\<open>cleanup.go\<close>). Node events are filtered and mapped to plans by the predicates. Beside that
  run the admission webhook (\<open>internal/webhook/validator.go\<close>), the certificate bootstrap with
  its renewal loop (\<open>certbootstrap.go\<close>), and \<open>cmd/main.go\<close> that puts it together.

  How the model is built. A Go function that may fail is a computation
  \<open>'s \<Rightarrow> (error + value) \<times> 's\<close> (\<^typ>\<open>('s, 'e, 'a) go\<close> of Prelude): an early return is \<open>Inl\<close>, and the
  state keeps what was done before it. The state of a pass (\<open>st\<close>, Api_Types) holds the world
  outside, the plan object and the node objects the pass's pointers refer to (an explicit heap,
  because \<open>ToAdopt\<close>, \<open>Owned\<close> and the later steps share them), the metrics, and the list of
  requests made. What is not in the repository is the record \<open>env\<close> every operation takes first:
  the API server (each request is a function of the world, so it may fail, change anything
  outside and differ each time), clocks, label selectors, the condition helper, the order of a
  \<open>range\<close> over a map and the choices of the scheduler. Certificates have such a record of
  their own (\<open>cert_env\<close>), with the files in the state. Integers are kept at their width where
  the code computes with them (\<open>i32\<close>, \<open>i64\<close> with the wrap-around); a Go map is an association
  list or nil.

  The theories, in the order of their imports:
  \<^item> Prelude: integers, maps, formatting, the computations with their Hoare rules, and the
    locale \<open>effect\<close> (a relation every composition keeps), interpreted for the trace, the
    files, the clock and the store of the theories below.
  \<^item> Api_Types, Conditions, Memory_Cluster: \<open>api/v1alpha1\<close>, the surroundings and the state;
    \<open>conditions.go\<close>; a cluster in memory on which the assumed laws hold, for the examples.
  \<^item> Schedule, Node_Ops, Ownership, Drift, Reconcile_Ops: the files of those names and
    \<open>cordon.go\<close>, \<open>cleanup.go\<close>, \<open>node_health.go\<close>, \<open>nodes.go\<close>. The locale \<open>node_mutation\<close> is the
    contract of the four writes to a node (they stay inside the operator's annotations and
    label), each interpreted on the code's own change.
  \<^item> Drain_Filters, Drain_Node, Node_Entries, Drain_Pool, Drain_Reconcile: classification of
    the pods against a reference decision list; one node's drain; the writers of one status
    entry (locale \<open>entry_write\<close>); the goroutines, with every interleaving of their requests,
    and their refinement to the sequential drain; the pass with its timeout and flags.
    Drain_Liveness: repeated passes empty the node when the cluster cooperates. Drain_Ready:
    a drain pass over emptied nodes marks every entry.
  \<^item> Status, Preview, Metrics: what a pass reports. Status_Types: the typing of a status (the
    table of conditions and reasons, the schema's patterns, entries, issues) and, through the
    locales \<open>typed_helpers\<close> and \<open>typed_cluster\<close>, that a whole pass keeps it. Status_Limits: a
    message that outgrows the schema.
  \<^item> Reconciler: the whole pass and the handling of a deletion; the locale \<open>pass_effect\<close> proves
    once that an effect of the parts is an effect of the pass, and its interpretations
    carry the safety theorems. Deletion: on a server that accepts the requests a deletion
    completes. Shared_Nodes: plans that meet on a node, with the mark the server holds as the
    shared state; the locale \<open>marked_server\<close> is the contract of that server (a merge patch takes
    effect on the stored object), interpreted on a cluster that computes merge patches.
    Pass_Steps: the steps of a pass, each described by what it leaves to the next (\<open>stage\<close>).
    Pass_Ready puts them together over nodes the plan owns (\<open>owned\<close>), and on a cluster where
    the work is done (\<open>settled\<close>). First_Pass: a new plan (\<open>fresh\<close>) on a server that only the
    reconciler writes to (\<open>stored_laws\<close>); the first pass adopts, and its patches wake the next
    one. Drain_Progress and Plan_Ready: every pass after it has less to move
    (\<open>pods_laws\<close>, \<open>running_laws\<close>) and asks to be run again, until one reports the plan ready.
  \<^item> Go_Memory, Deep_Copy: memory with sharing, the contract of a deep copy (locales \<open>viewer\<close>
    and \<open>copier\<close>), and \<open>zz_generated.deepcopy.go\<close>, which keeps it; this is why the other
    theories may treat \<open>plan.DeepCopy()\<close> as the plan's value.
  \<^item> Predicates, Validator: the event filter and the webhook. Wiring: \<open>service.go\<close>,
    \<open>groupversion_info.go\<close> with \<open>init\<close> of \<open>cmd/main.go\<close>, and \<open>SetupWithManager\<close>, over the scheme,
    the cache and the work queue as parameters; no node update that a pass would notice is lost.
  \<^item> Cert_Types, Cert_Bootstrap, Cert_Disk, Cert_Renewal, Cert_HA: the certificates (keys and
    signatures are symbolic), files that are replaced in one step, passes that install, settle
    or wait, and replicas whose requests interleave. Startup: \<open>cmd/main.go\<close>.

  What the lemmas show. Safety: a pass patches only nodes it may, in a footprint, and waits for
  the schedule; a deletion takes the finalizer off last; files are never torn. Function: the
  status, the conditions, the ownership sets, the classification, the drift, the preview, the
  gauges and the requeue are characterised on every branch, errors included. Refinement: the
  goroutine and the replica thread, cut at their requests, are the sequential code. Liveness:
  nodes are emptied, a whole pass over emptied nodes makes the plan ready, a new plan, with
  pods on its nodes, adopts them, wakes itself, drains pass after pass and becomes ready, a
  deletion completes. Types: what a pass
  sends fits the schema. Sharing: a plan that does not run neither loses nor gains a node while
  others run one after the other, but two plans with stale copies both take a node; a deep copy
  and its original never affect each other. Several theorems record what the code does although
  a comment or document says otherwise.

  Termination and bounds. Everything is total except the wait for the webhook configuration
  (\<open>await_config\<close>, a partial function: \<open>None\<close> does not return), which is shown to return under a
  deadline and not to without. \<open>pool_loop\<close> runs the goroutines with a termination measure
  (requests still to come), so no fuel is needed; the retry of a drain is the next pass. The
  replica theorem holds for 60 days less a second, which is what a CA valid for 90 days and
  renewed 30 days before its end allows.

  Hypotheses. Named predicates state what is documented of code outside the repository:
  \<open>condition_laws\<close>, \<open>one_per_type\<close> (the condition helper), \<open>selector_laws\<close>, \<open>disk_laws\<close>,
  \<open>secret_store\<close>, \<open>clock_window\<close>, \<open>deadline\<close>, \<open>cooperative\<close>, \<open>settled\<close>,
  \<open>owned\<close>, \<open>finds\<close>, \<open>fresh\<close>, \<open>stored_laws\<close>, \<open>pods_laws\<close>, \<open>running_laws\<close>, \<open>answers_lists\<close>, \<open>finalizer_laws\<close>, \<open>queue_laws\<close>, \<open>scheme_laws\<close>, \<open>emptied\<close>, \<open>accepts_status\<close>, \<open>willing\<close>, \<open>marks_laws\<close>,
  \<open>typed_server\<close>, \<open>small_lists\<close>, \<open>enforces_message_limit\<close> (the cluster), \<open>lib_laws\<close> (deep copies of
  apimachinery) and the laws of \<open>range\<close>; each theorem that uses one has a witness on a concrete
  instance.

  Not modelled: logging; controller-runtime itself (the cache, the work queue and its ten
  workers), of which Wiring states what the code relies on; the test utilities. A pass sees other writers, other plans'
  passes among them, as part of the world outside, which may change between any two requests;
  what several plans do to one node is in Shared_Nodes.
\<close>

section \<open>From the first start to the handshake\<close>



end
